(* ===== verification/KPrelude.thy ===== *)
theory KPrelude
  imports Main "HOL-Library.Word" "HOL-Library.Monad_Syntax"
begin

unbundle bit_operations_syntax

text \<open>
  Shared vocabulary of the development: the C integer types as fixed-width words, checked array
  access, bounded loops in the option monad (\<open>None\<close> stands for an access outside an array, which C
  leaves undefined), the copy loops that the file system repeats, NUL-terminated strings, and the
  little-endian layout of integers in byte arrays. The lemmas on these carry the component proofs.
\<close>

section \<open>Types\<close>

type_synonym u8 = "8 word"
type_synonym u16 = "16 word"
type_synonym u32 = "32 word"
type_synonym u64 = "64 word"

text \<open>A byte array, a C array of \<open>uint8_t\<close> or \<open>char\<close>; and the bytes of a C string before its NUL.\<close>

type_synonym bytes = "u8 list"
type_synonym cstring = "u8 list"

named_theorems store_simps \<open>what a checked store or a copy loop leaves in an array\<close>
named_theorems le_simps \<open>little-endian encoding and decoding\<close>

section \<open>Checked array access\<close>

definition peek :: "'a list \<Rightarrow> nat \<Rightarrow> 'a option" where
  "peek xs i = (if i < length xs then Some (xs ! i) else None)"

definition poke :: "'a list \<Rightarrow> nat \<Rightarrow> 'a \<Rightarrow> 'a list option" where
  "poke xs i v = (if i < length xs then Some (xs[i := v]) else None)"

lemma nth_update: "xs[i := v] ! j = (if i = j \<and> i < length xs then v else xs ! j)"
  by (cases "i < length xs") (auto simp: nth_list_update list_update_beyond)

lemma peek_Some [simp]: "i < length xs \<Longrightarrow> peek xs i = Some (xs ! i)"
  by (simp add: peek_def)

lemma peek_None [simp]: "length xs \<le> i \<Longrightarrow> peek xs i = None"
  by (simp add: peek_def)

lemma poke_Some [simp]: "i < length xs \<Longrightarrow> poke xs i v = Some (xs[i := v])"
  by (simp add: poke_def)

lemma poke_None [simp]: "length xs \<le> i \<Longrightarrow> poke xs i v = None"
  by (simp add: poke_def)

lemma poke_length: "poke xs i v = Some ys \<Longrightarrow> length ys = length xs"
  by (auto simp: poke_def split: if_splits)

section \<open>Loops\<close>

text \<open>\<open>for (i = a; i < a + n; i++) s = body i s\<close>, stopping at the first undefined access.\<close>

fun oloop :: "nat \<Rightarrow> nat \<Rightarrow> (nat \<Rightarrow> 's \<Rightarrow> 's option) \<Rightarrow> 's \<Rightarrow> 's option" where
  "oloop a 0 body s = Some s"
| "oloop a (Suc n) body s = (case body a s of None \<Rightarrow> None | Some s' \<Rightarrow> oloop (Suc a) n body s')"

lemma oloop_invariant:
  assumes "\<And>i s s'. a \<le> i \<Longrightarrow> i < a + n \<Longrightarrow> P i s \<Longrightarrow> \<exists>s'. body i s = Some s' \<and> P (Suc i) s'"
    and "P a s"
  shows "\<exists>s'. oloop a n body s = Some s' \<and> P (a + n) s'"
  using assms
proof (induction n arbitrary: a s)
  case 0
  then show ?case by simp
next
  case (Suc n)
  from Suc.prems(1)[of a s] Suc.prems(2) obtain s1 where
    s1: "body a s = Some s1" "P (Suc a) s1" by auto
  have "\<exists>s'. oloop (Suc a) n body s1 = Some s' \<and> P (Suc a + n) s'"
    by (rule Suc.IH) (use Suc.prems(1) s1 in auto)
  with s1 show ?case by auto
qed

section \<open>Copy loops\<close>

text \<open>\<open>for (k = 0; k < n; k++) dst[off + k] = src[k]\<close> for arrays that are long enough.\<close>

definition copy_into :: "'a list \<Rightarrow> nat \<Rightarrow> 'a list \<Rightarrow> nat \<Rightarrow> 'a list" where
  "copy_into dst off src n = fold (\<lambda>k d. d[off + k := src ! k]) [0..<n] dst"

text \<open>\<open>for (k = 0; k < n; k++) raw[k] = buf[off + k]\<close> into a fresh array of \<open>n\<close> elements.\<close>

definition copy_from :: "'a list \<Rightarrow> nat \<Rightarrow> nat \<Rightarrow> 'a list" where
  "copy_from buf off n = map (\<lambda>k. buf ! (off + k)) [0..<n]"

text \<open>\<open>for (k = 0; k < n; k++) dst[k] = v\<close>.\<close>

definition fill :: "'a list \<Rightarrow> nat \<Rightarrow> 'a \<Rightarrow> 'a list" where
  "fill dst n v = fold (\<lambda>k d. d[k := v]) [0..<n] dst"

lemma length_copy_into [simp]: "length (copy_into dst off src n) = length dst"
  by (induction n) (simp_all add: copy_into_def)

lemma copy_into_Suc: "copy_into dst off src (Suc n) = (copy_into dst off src n)[off + n := src ! n]"
  by (simp add: copy_into_def)

lemma nth_copy_into [store_simps]:
  "i < length dst \<Longrightarrow> copy_into dst off src n ! i
     = (if off \<le> i \<and> i < off + n then src ! (i - off) else dst ! i)"
proof (induction n)
  case 0
  then show ?case by (auto simp: copy_into_def)
next
  case (Suc n)
  then show ?case by (auto simp: copy_into_Suc nth_update less_Suc_eq)
qed

lemma copy_into_eq:
  assumes "off + n \<le> length dst" and "n \<le> length src"
  shows "copy_into dst off src n = take off dst @ take n src @ drop (off + n) dst"
  using assms by (intro nth_equalityI) (auto simp: store_simps nth_append min_def)

lemma length_copy_from [simp]: "length (copy_from buf off n) = n"
  by (simp add: copy_from_def)

lemma nth_copy_from [simp]: "k < n \<Longrightarrow> copy_from buf off n ! k = buf ! (off + k)"
  by (simp add: copy_from_def)

lemma copy_from_eq: "off + n \<le> length buf \<Longrightarrow> copy_from buf off n = take n (drop off buf)"
  by (intro nth_equalityI) auto

lemma length_fill [simp]: "length (fill dst n v) = length dst"
  by (induction n) (simp_all add: fill_def)

lemma fill_Suc: "fill dst (Suc n) v = (fill dst n v)[n := v]"
  by (simp add: fill_def)

lemma nth_fill [store_simps]:
  "i < length dst \<Longrightarrow> fill dst n v ! i = (if i < n then v else dst ! i)"
proof (induction n)
  case 0
  then show ?case by (simp add: fill_def)
next
  case (Suc n)
  then show ?case by (auto simp: fill_Suc nth_update less_Suc_eq)
qed

lemma fill_all [simp]: "length dst = n \<Longrightarrow> fill dst n v = replicate n v"
  by (intro nth_equalityI) (auto simp: store_simps)

lemma copy_from_copy_into_same:
  "off + n \<le> length dst \<Longrightarrow> length src = n \<Longrightarrow> copy_from (copy_into dst off src n) off n = src"
  by (intro nth_equalityI) (auto simp: store_simps)

lemma copy_from_copy_into_apart:
  "o1 + n \<le> o2 \<or> o2 + m \<le> o1 \<Longrightarrow> o1 + n \<le> length dst \<Longrightarrow>
     copy_from (copy_into dst o2 src m) o1 n = copy_from dst o1 n"
  by (intro nth_equalityI) (auto simp: store_simps)

section \<open>C strings\<close>

text \<open>
  A pointer to a NUL-terminated string is represented by the bytes before the NUL; \<open>cat\<close> reads the
  terminator at the index that follows the last byte. A string inside an array is what \<open>cstr_of\<close>
  reads from it, and \<open>cstrlen\<close> is the scan \<open>while (s[n] != 0) n++\<close>, undefined when the array holds
  no NUL.
\<close>

definition cat :: "cstring \<Rightarrow> nat \<Rightarrow> u8" where
  "cat s i = (if i < length s then s ! i else 0)"

definition cstr_of :: "bytes \<Rightarrow> cstring" where
  "cstr_of b = takeWhile (\<lambda>c. c \<noteq> 0) b"

definition cstrlen :: "bytes \<Rightarrow> nat option" where
  "cstrlen b = (if 0 \<in> set b then Some (length (cstr_of b)) else None)"

definition is_cstring :: "cstring \<Rightarrow> bool" where
  "is_cstring s \<longleftrightarrow> 0 \<notin> set s"

definition ascii :: "string \<Rightarrow> cstring" where
  "ascii s = map of_char s"

lemma cat_nth [simp]: "i < length s \<Longrightarrow> cat s i = s ! i"
  by (simp add: cat_def)

lemma cat_end [simp]: "length s \<le> i \<Longrightarrow> cat s i = 0"
  by (simp add: cat_def)

lemma is_cstring_cat: "is_cstring s \<Longrightarrow> cat s i = 0 \<longleftrightarrow> length s \<le> i"
  by (auto simp: is_cstring_def cat_def dest: nth_mem)

lemma is_cstring_cstr_of [simp]: "is_cstring (cstr_of b)"
  by (auto simp: is_cstring_def cstr_of_def dest: set_takeWhileD)

lemma cstr_of_terminated [simp]: "is_cstring s \<Longrightarrow> cstr_of (s @ 0 # r) = s"
  by (auto simp: cstr_of_def is_cstring_def takeWhile_append)

lemma cstr_of_id: "is_cstring s \<Longrightarrow> cstr_of s = s"
  by (auto simp: cstr_of_def is_cstring_def takeWhile_eq_all_conv)

lemma cstrlen_terminated [simp]: "is_cstring s \<Longrightarrow> cstrlen (s @ 0 # r) = Some (length s)"
  by (simp add: cstrlen_def)

lemma cstrlen_bound: "cstrlen b = Some n \<Longrightarrow> n < length b"
proof -
  assume "cstrlen b = Some n"
  then have "0 \<in> set b" "n = length (takeWhile (\<lambda>c. c \<noteq> 0) b)"
    by (auto simp: cstrlen_def cstr_of_def split: if_splits)
  moreover from \<open>0 \<in> set b\<close> have "takeWhile (\<lambda>c. c \<noteq> 0) b \<noteq> b"
    by (metis (mono_tags) set_takeWhileD)
  ultimately show ?thesis
    by (metis length_takeWhile_le le_neq_implies_less takeWhile_eq_take take_all_iff)
qed

lemma is_cstring_append [simp]: "is_cstring (s @ t) \<longleftrightarrow> is_cstring s \<and> is_cstring t"
  by (auto simp: is_cstring_def)

lemma is_cstring_take [simp]: "is_cstring s \<Longrightarrow> is_cstring (take n s)"
  by (auto simp: is_cstring_def dest: in_set_takeD)

lemma is_cstring_drop [simp]: "is_cstring s \<Longrightarrow> is_cstring (drop n s)"
  by (auto simp: is_cstring_def dest: in_set_dropD)

section \<open>Little-endian integers\<close>

fun le_bytes :: "nat \<Rightarrow> 'a::len word \<Rightarrow> bytes" where
  "le_bytes 0 v = []"
| "le_bytes (Suc n) v = ucast v # le_bytes n (drop_bit 8 v)"

fun le_word :: "bytes \<Rightarrow> 'a::len word" where
  "le_word [] = 0"
| "le_word (b # bs) = ucast b OR push_bit 8 (le_word bs)"

lemma length_le_bytes [simp]: "length (le_bytes n v) = n"
  by (induction n arbitrary: v) simp_all

lemma nth_le_bytes [le_simps]: "k < n \<Longrightarrow> le_bytes n v ! k = ucast (drop_bit (8 * k) v)"
proof (induction n arbitrary: v k)
  case 0
  then show ?case by simp
next
  case (Suc n)
  then show ?case by (cases k) (simp_all add: add.commute)
qed

lemma le_bytes_eq_map: "le_bytes n v = map (\<lambda>k. ucast (drop_bit (8 * k) v)) [0..<n]"
  by (intro nth_equalityI) (simp_all add: nth_le_bytes)

lemma le_word_le_bytes: "le_word (le_bytes n v) = take_bit (8 * n) (v :: 'a::len word)"
proof (induction n arbitrary: v)
  case 0
  then show ?case by simp
next
  case (Suc n)
  have "ucast (ucast v :: u8) OR push_bit 8 (take_bit (8 * n) (drop_bit 8 v))
        = take_bit (8 * Suc n) v"
  proof (rule bit_word_eqI)
    fix m assume "m < LENGTH('a)"
    then show "bit (ucast (ucast v :: u8) OR push_bit 8 (take_bit (8 * n) (drop_bit 8 v))) m
      = bit (take_bit (8 * Suc n) v) m"
      by (cases "m < 8") (auto simp: bit_simps)
  qed
  then show ?case by (simp add: Suc.IH)
qed

lemma le_word_le_bytes_full [le_simps]:
  "LENGTH('a) \<le> 8 * n \<Longrightarrow> le_word (le_bytes n v) = (v :: 'a::len word)"
  by (simp add: le_word_le_bytes take_bit_word_eq_self)

lemma le_bytes_le_word:
  "length bs = n \<Longrightarrow> 8 * n \<le> LENGTH('a) \<Longrightarrow> le_bytes n (le_word bs :: 'a::len word) = bs"
proof (induction bs arbitrary: n)
  case Nil
  then show ?case by simp
next
  case (Cons b bs)
  then obtain m where n: "n = Suc m" "length bs = m" "8 * m + 8 \<le> LENGTH('a)"
    by (cases n) auto
  have hd: "ucast (ucast b OR push_bit 8 (le_word bs :: 'a word)) = b"
    by (rule bit_word_eqI) (use n in \<open>auto simp: bit_simps\<close>)
  have tl: "le_bytes m (drop_bit 8 (ucast b OR push_bit 8 (le_word bs :: 'a word))) = bs"
  proof -
    have "le_bytes m (drop_bit 8 (ucast b OR push_bit 8 w)) = le_bytes m (w :: 'a word)" for w
      by (intro nth_equalityI bit_word_eqI)
        (use n in \<open>auto simp: nth_le_bytes bit_simps dest: bit_imp_le_length\<close>)
    then show ?thesis using Cons.IH[of m] n by simp
  qed
  from n hd tl show ?case by simp
qed

end
