(* ===== verification/Ata.thy ===== *)
theory Ata
  imports KPrelude
begin

text \<open>
  \<open>ata.c\<close>: the programmed-I/O driver of the primary ATA channel. The port instructions of \<open>io.h\<close> are
  inline assembly, so they are a parameter: a record of four functions on the state \<open>'d\<close> of the
  hardware. Every function returns \<open>None\<close> where the C code would access its buffer out of bounds.
\<close>

section \<open>Ports and registers\<close>

record 'd ports =
  inb :: "u16 \<Rightarrow> 'd \<Rightarrow> u8 \<times> 'd"
  outb :: "u16 \<Rightarrow> u8 \<Rightarrow> 'd \<Rightarrow> 'd"
  inw :: "u16 \<Rightarrow> 'd \<Rightarrow> u16 \<times> 'd"
  outw :: "u16 \<Rightarrow> u16 \<Rightarrow> 'd \<Rightarrow> 'd"

abbreviation ATA_REG_DATA :: u16 where "ATA_REG_DATA \<equiv> 0x1F0"
abbreviation ATA_REG_ERROR :: u16 where "ATA_REG_ERROR \<equiv> 0x1F1"
abbreviation ATA_REG_SECCOUNT0 :: u16 where "ATA_REG_SECCOUNT0 \<equiv> 0x1F2"
abbreviation ATA_REG_LBA0 :: u16 where "ATA_REG_LBA0 \<equiv> 0x1F3"
abbreviation ATA_REG_LBA1 :: u16 where "ATA_REG_LBA1 \<equiv> 0x1F4"
abbreviation ATA_REG_LBA2 :: u16 where "ATA_REG_LBA2 \<equiv> 0x1F5"
abbreviation ATA_REG_HDDEVSEL :: u16 where "ATA_REG_HDDEVSEL \<equiv> 0x1F6"
abbreviation ATA_REG_COMMAND :: u16 where "ATA_REG_COMMAND \<equiv> 0x1F7"
abbreviation ATA_REG_STATUS :: u16 where "ATA_REG_STATUS \<equiv> 0x1F7"
abbreviation ATA_CMD_READ_PIO :: u8 where "ATA_CMD_READ_PIO \<equiv> 0x20"
abbreviation ATA_CMD_WRITE_PIO :: u8 where "ATA_CMD_WRITE_PIO \<equiv> 0x30"
abbreviation ATA_CMD_CACHE_FLUSH :: u8 where "ATA_CMD_CACHE_FLUSH \<equiv> 0xE7"
abbreviation ATA_CMD_IDENTIFY :: u8 where "ATA_CMD_IDENTIFY \<equiv> 0xEC"
abbreviation ATA_SR_BSY :: u8 where "ATA_SR_BSY \<equiv> 0x80"
abbreviation ATA_SR_ERR :: u8 where "ATA_SR_ERR \<equiv> 0x01"
abbreviation ATA_SR_DRQ :: u8 where "ATA_SR_DRQ \<equiv> 0x08"

definition ATA_ERROR_TIMEOUT_LOOPS :: nat where
  "ATA_ERROR_TIMEOUT_LOOPS = 100000"

definition ata_sector_size :: nat where
  "ata_sector_size = 512"

section \<open>The driver\<close>

text \<open>
  \<open>while (!done(inb(ATA_REG_STATUS))) { if (--timeout == 0) return -2; }\<close>: the first component says
  whether the loop ended because the status satisfied \<open>done\<close>. The counter starts at 100000, so its
  value 0 is only seen by the test after a decrement.
\<close>

fun ata_poll :: "'d ports \<Rightarrow> (u8 \<Rightarrow> bool) \<Rightarrow> nat \<Rightarrow> 'd \<Rightarrow> bool \<times> 'd" where
  "ata_poll P ok 0 d = (False, d)"
| "ata_poll P ok (Suc timeout) d =
     (case inb P ATA_REG_STATUS d of (st, d1) \<Rightarrow>
        if ok st then (True, d1)
        else if timeout = 0 then (False, d1)
        else ata_poll P ok timeout d1)"

definition not_busy :: "u8 \<Rightarrow> bool" where
  "not_busy st \<longleftrightarrow> st AND ATA_SR_BSY = 0"

definition data_request :: "u8 \<Rightarrow> bool" where
  "data_request st \<longleftrightarrow> st AND ATA_SR_DRQ \<noteq> 0"

text \<open>The six register writes that start a transfer.\<close>

definition ata_command :: "'d ports \<Rightarrow> u32 \<Rightarrow> u8 \<Rightarrow> u8 \<Rightarrow> 'd \<Rightarrow> 'd" where
  "ata_command P lba sector_count cmd d =
     (let d = outb P ATA_REG_HDDEVSEL (ucast (0xE0 OR (drop_bit 24 lba AND 0x0F))) d;
          d = outb P ATA_REG_SECCOUNT0 sector_count d;
          d = outb P ATA_REG_LBA0 (ucast lba) d;
          d = outb P ATA_REG_LBA1 (ucast (drop_bit 8 lba)) d;
          d = outb P ATA_REG_LBA2 (ucast (drop_bit 16 lba)) d
      in outb P ATA_REG_COMMAND cmd d)"

text \<open>
  The transfer loops. The two nested loops over sectors and words run \<open>sector_count * 256\<close> times
  and only use the running byte index \<open>b\<close>.
\<close>

fun ata_write_words :: "'d ports \<Rightarrow> bytes \<Rightarrow> nat \<Rightarrow> nat \<Rightarrow> 'd \<Rightarrow> 'd option" where
  "ata_write_words P buffer b 0 d = Some d"
| "ata_write_words P buffer b (Suc n) d = do {
     lo \<leftarrow> peek buffer b;
     hi \<leftarrow> peek buffer (b + 1);
     ata_write_words P buffer (b + 2) n
       (outw P ATA_REG_DATA (ucast lo OR push_bit 8 (ucast hi)) d) }"

fun ata_read_words :: "'d ports \<Rightarrow> bytes \<Rightarrow> nat \<Rightarrow> nat \<Rightarrow> 'd \<Rightarrow> (bytes \<times> 'd) option" where
  "ata_read_words P buffer b 0 d = Some (buffer, d)"
| "ata_read_words P buffer b (Suc n) d =
     (case inw P ATA_REG_DATA d of (w, d1) \<Rightarrow> do {
        buffer1 \<leftarrow> poke buffer b (ucast w);
        buffer2 \<leftarrow> poke buffer1 (b + 1) (ucast (drop_bit 8 w));
        ata_read_words P buffer2 (b + 2) n d1 })"

text \<open>What both transfers do after the data: wait, flush the cache, wait, report an error.\<close>

definition ata_finish :: "'d ports \<Rightarrow> 'd \<Rightarrow> int \<times> 'd" where
  "ata_finish P d =
     (case ata_poll P not_busy ATA_ERROR_TIMEOUT_LOOPS d of (ok, d) \<Rightarrow>
      if \<not> ok then (-2, d) else
      let d = outb P ATA_REG_COMMAND ATA_CMD_CACHE_FLUSH d in
      case ata_poll P not_busy ATA_ERROR_TIMEOUT_LOOPS d of (ok, d) \<Rightarrow>
      if \<not> ok then (-2, d) else
      case inb P ATA_REG_STATUS d of (st, d) \<Rightarrow>
      if st AND ATA_SR_ERR \<noteq> 0 then
        (case inb P ATA_REG_ERROR d of (e, d) \<Rightarrow> (uint e, d))
      else (0, d))"

text \<open>
  What both transfers do before the data; \<open>Inl\<close> is an early return of the function, \<open>Inr\<close> the state
  in which the drive asks for data.
\<close>

definition ata_start :: "'d ports \<Rightarrow> u32 \<Rightarrow> u8 \<Rightarrow> u8 \<Rightarrow> 'd \<Rightarrow> (int \<times> 'd) + 'd" where
  "ata_start P lba sector_count cmd d =
     (case ata_poll P not_busy ATA_ERROR_TIMEOUT_LOOPS d of (ok, d) \<Rightarrow>
      if \<not> ok then Inl (-2, d) else
      let d = ata_command P lba sector_count cmd d in
      case ata_poll P not_busy ATA_ERROR_TIMEOUT_LOOPS d of (ok, d) \<Rightarrow>
      if \<not> ok then Inl (-2, d) else
      case inb P ATA_REG_STATUS d of (st, d) \<Rightarrow>
      if st AND ATA_SR_ERR \<noteq> 0 then
        (case inb P ATA_REG_ERROR d of (e, d) \<Rightarrow> Inl (uint e, d)) else
      case ata_poll P data_request ATA_ERROR_TIMEOUT_LOOPS d of (ok, d) \<Rightarrow>
      if \<not> ok then Inl (-2, d) else Inr d)"

definition ata_sector_write :: "'d ports \<Rightarrow> u32 \<Rightarrow> u8 \<Rightarrow> bytes \<Rightarrow> 'd \<Rightarrow> (int \<times> 'd) option" where
  "ata_sector_write P lba sector_count buffer d =
     (case ata_start P lba sector_count ATA_CMD_WRITE_PIO d of
        Inl (e, d) \<Rightarrow> Some (e, d)
      | Inr d \<Rightarrow> do {
          d \<leftarrow> ata_write_words P buffer 0 (unat sector_count * (ata_sector_size div 2)) d;
          Some (ata_finish P d) })"

definition ata_sector_read ::
  "'d ports \<Rightarrow> u32 \<Rightarrow> u8 \<Rightarrow> bytes \<Rightarrow> 'd \<Rightarrow> (int \<times> bytes \<times> 'd) option" where
  "ata_sector_read P lba sector_count buffer d =
     (case ata_start P lba sector_count ATA_CMD_READ_PIO d of
        Inl (e, d) \<Rightarrow> Some (e, buffer, d)
      | Inr d \<Rightarrow> do {
          (buffer, d) \<leftarrow> ata_read_words P buffer 0 (unat sector_count * (ata_sector_size div 2)) d;
          case ata_finish P d of (e, d) \<Rightarrow> Some (e, buffer, d) })"

section \<open>Identification\<close>

text \<open>\<open>while (1)\<close> loops of \<open>ata_identify\<close>: \<open>Inl\<close> is a return of the function.\<close>

fun ata_identify_busy :: "'d ports \<Rightarrow> nat \<Rightarrow> 'd \<Rightarrow> (int \<times> 'd) + 'd" where
  "ata_identify_busy P 0 d = Inl (-2, d)"
| "ata_identify_busy P (Suc timeout) d =
     (case inb P ATA_REG_STATUS d of (st, d1) \<Rightarrow>
        if st AND ATA_SR_BSY = 0 then Inr d1
        else if st AND ATA_SR_ERR \<noteq> 0 then Inl (-1, d1)
        else if timeout = 0 then Inl (-2, d1)
        else ata_identify_busy P timeout d1)"

fun ata_identify_drq :: "'d ports \<Rightarrow> nat \<Rightarrow> 'd \<Rightarrow> (int \<times> 'd) + 'd" where
  "ata_identify_drq P 0 d = Inl (-2, d)"
| "ata_identify_drq P (Suc timeout) d =
     (case inb P ATA_REG_STATUS d of (st, d1) \<Rightarrow>
        if st AND ATA_SR_ERR \<noteq> 0 then Inl (-1, d1)
        else if st AND ATA_SR_DRQ \<noteq> 0 then Inr d1
        else if timeout = 0 then Inl (-2, d1)
        else ata_identify_drq P timeout d1)"

fun ata_identify_words :: "'d ports \<Rightarrow> u16 list \<Rightarrow> nat \<Rightarrow> nat \<Rightarrow> 'd \<Rightarrow> (u16 list \<times> 'd) option" where
  "ata_identify_words P buffer i 0 d = Some (buffer, d)"
| "ata_identify_words P buffer i (Suc n) d =
     (case inw P ATA_REG_DATA d of (w, d1) \<Rightarrow> do {
        buffer1 \<leftarrow> poke buffer i w;
        ata_identify_words P buffer1 (i + 1) n d1 })"

definition ata_identify :: "'d ports \<Rightarrow> u16 list \<Rightarrow> 'd \<Rightarrow> (int \<times> u16 list \<times> 'd) option" where
  "ata_identify P buffer d =
     (let d = outb P ATA_REG_HDDEVSEL 0xA0 d;
          d = snd (inb P ATA_REG_STATUS d);
          d = snd (inb P ATA_REG_STATUS d);
          d = snd (inb P ATA_REG_STATUS d);
          d = snd (inb P ATA_REG_STATUS d);
          d = outb P ATA_REG_SECCOUNT0 0 d;
          d = outb P ATA_REG_LBA0 0 d;
          d = outb P ATA_REG_LBA1 0 d;
          d = outb P ATA_REG_LBA2 0 d;
          d = outb P ATA_REG_COMMAND ATA_CMD_IDENTIFY d
      in case inb P ATA_REG_STATUS d of (st, d) \<Rightarrow>
         if st = 0 then Some (0, buffer, d) else
         case ata_identify_busy P ATA_ERROR_TIMEOUT_LOOPS d of
           Inl (e, d) \<Rightarrow> Some (e, buffer, d)
         | Inr d \<Rightarrow>
         (case inb P ATA_REG_LBA1 d of (l1, d) \<Rightarrow>
          if l1 \<noteq> 0 then Some (-1, buffer, d) else
          case inb P ATA_REG_LBA2 d of (l2, d) \<Rightarrow>
          if l2 \<noteq> 0 then Some (-1, buffer, d) else
          case ata_identify_drq P ATA_ERROR_TIMEOUT_LOOPS d of
            Inl (e, d) \<Rightarrow> Some (e, buffer, d)
          | Inr d \<Rightarrow> do {
              (buffer, d) \<leftarrow> ata_identify_words P buffer 0 (ata_sector_size div 2) d;
              Some (1, buffer, d) }))"

end
