(* ===== verification/AtaProtocol.thy ===== *)
theory AtaProtocol
  imports Ata
begin

text \<open>
  What the driver of \<open>Ata\<close> does to the hardware, whatever the hardware answers: every port access is
  recorded, and the answers come from an arbitrary oracle that sees the whole history.
\<close>

section \<open>Recorded port accesses\<close>

datatype port_event = In8 u16 u8 | Out8 u16 u8 | In16 u16 u16 | Out16 u16 u16

type_synonym history = "port_event list"  \<comment> \<open>newest first\<close>

definition traced :: "(history \<Rightarrow> u16 \<Rightarrow> u8) \<Rightarrow> (history \<Rightarrow> u16 \<Rightarrow> u16) \<Rightarrow> history ports" where
  "traced o8 o16 = \<lparr>inb = (\<lambda>p h. (o8 h p, In8 p (o8 h p) # h)), outb = (\<lambda>p v h. Out8 p v # h),
     inw = (\<lambda>p h. (o16 h p, In16 p (o16 h p) # h)), outw = (\<lambda>p v h. Out16 p v # h)\<rparr>"

lemma traced_sel [simp]:
  "inb (traced o8 o16) p h = (o8 h p, In8 p (o8 h p) # h)"
  "outb (traced o8 o16) p v h = Out8 p v # h"
  "inw (traced o8 o16) p h = (o16 h p, In16 p (o16 h p) # h)"
  "outw (traced o8 o16) p w h = Out16 p w # h"
  by (simp_all add: traced_def)

fun last_status :: "history \<Rightarrow> u8 option" where
  "last_status [] = None"
| "last_status (In8 p v # h) = (if p = ATA_REG_STATUS then Some v else last_status h)"
| "last_status (_ # h) = last_status h"

text \<open>
  The rules of a PIO transfer: a command is only written when the last status read was not busy, and
  a data word only moves when the last status read had DRQ set.
\<close>

definition may_command :: "history \<Rightarrow> bool" where
  "may_command h \<longleftrightarrow> (\<exists>st. last_status h = Some st \<and> not_busy st)"

definition may_transfer :: "history \<Rightarrow> bool" where
  "may_transfer h \<longleftrightarrow> (\<exists>st. last_status h = Some st \<and> data_request st)"

fun protocol_ok :: "history \<Rightarrow> bool" where
  "protocol_ok [] = True"
| "protocol_ok (Out8 p v # h) = (protocol_ok h \<and> (p = ATA_REG_COMMAND \<longrightarrow> may_command h))"
| "protocol_ok (Out16 p v # h) = (protocol_ok h \<and> (p = ATA_REG_DATA \<longrightarrow> may_transfer h))"
| "protocol_ok (In16 p v # h) = (protocol_ok h \<and> (p = ATA_REG_DATA \<longrightarrow> may_transfer h))"
| "protocol_ok (In8 p v # h) = protocol_ok h"

fun data_words :: "history \<Rightarrow> nat" where
  "data_words [] = 0"
| "data_words (Out16 p v # h) = (if p = ATA_REG_DATA then Suc (data_words h) else data_words h)"
| "data_words (In16 p v # h) = (if p = ATA_REG_DATA then Suc (data_words h) else data_words h)"
| "data_words (_ # h) = data_words h"

section \<open>The pieces of a transfer\<close>

lemma poll_traced:
  "ata_poll (traced o8 o16) ok n h = (r, h') \<Longrightarrow>
     (protocol_ok h \<longrightarrow> protocol_ok h') \<and> data_words h' = data_words h \<and>
     length h' \<le> length h + n \<and> (r \<longrightarrow> (\<exists>st. last_status h' = Some st \<and> ok st))"
proof (induction n arbitrary: h)
  case 0
  then show ?case by simp
next
  case (Suc n)
  show ?case
  proof (cases "ok (o8 h ATA_REG_STATUS) \<or> n = 0")
    case True
    then show ?thesis using Suc.prems by (auto split: if_splits)
  next
    case False
    with Suc.prems have "ata_poll (traced o8 o16) ok n
      (In8 ATA_REG_STATUS (o8 h ATA_REG_STATUS) # h) = (r, h')" by simp
    from Suc.IH[OF this] show ?thesis by simp
  qed
qed

lemma command_traced:
  "may_command h \<Longrightarrow> h' = ata_command (traced o8 o16) lba n cmd h \<Longrightarrow>
     (protocol_ok h \<longrightarrow> protocol_ok h') \<and> data_words h' = data_words h \<and> length h' = length h + 6"
  by (simp add: ata_command_def Let_def may_command_def)

lemma start_traced:
  assumes "ata_start (traced o8 o16) lba n cmd h = r" and "protocol_ok h"
  shows "case r of
      Inl (e, h') \<Rightarrow> protocol_ok h' \<and> data_words h' = data_words h \<and> e \<noteq> 0 \<or>
        protocol_ok h' \<and> data_words h' = data_words h \<and> e = uint (o8 (tl h') ATA_REG_ERROR)
    | Inr h' \<Rightarrow> protocol_ok h' \<and> data_words h' = data_words h \<and> may_transfer h'"
    and "case r of Inl (e, h') \<Rightarrow> length h' \<le> length h + 300008
         | Inr h' \<Rightarrow> length h' \<le> length h + 300007"
proof -
  let ?P = "traced o8 o16"
  obtain b1 h1 where p1: "ata_poll ?P not_busy ATA_ERROR_TIMEOUT_LOOPS h = (b1, h1)" by fastforce
  note f1 = poll_traced[OF p1]
  define h2 where "h2 = ata_command ?P lba n cmd h1"
  obtain b3 h3 where p3: "ata_poll ?P not_busy ATA_ERROR_TIMEOUT_LOOPS h2 = (b3, h3)" by fastforce
  note f3 = poll_traced[OF p3]
  define h4 where "h4 = In8 ATA_REG_STATUS (o8 h3 ATA_REG_STATUS) # h3"
  obtain b5 h5 where p5: "ata_poll ?P data_request ATA_ERROR_TIMEOUT_LOOPS h4 = (b5, h5)" by fastforce
  note f5 = poll_traced[OF p5]
  have f2: "b1 \<Longrightarrow> (protocol_ok h1 \<longrightarrow> protocol_ok h2) \<and> data_words h2 = data_words h1 \<and>
      length h2 = length h1 + 6"
    using f1 by (intro command_traced) (auto simp: may_command_def h2_def)
  have r: "r = (if \<not> b1 then Inl (-2, h1) else if \<not> b3 then Inl (-2, h3)
      else if o8 h3 ATA_REG_STATUS AND ATA_SR_ERR \<noteq> 0
        then Inl (uint (o8 h4 ATA_REG_ERROR), In8 ATA_REG_ERROR (o8 h4 ATA_REG_ERROR) # h4)
      else if \<not> b5 then Inl (-2, h5) else Inr h5)"
    using assms(1) by (cases b1; cases b3; cases b5)
      (auto simp: ata_start_def p1 p3 p5 h2_def[symmetric] h4_def[symmetric])
  show "case r of
      Inl (e, h') \<Rightarrow> protocol_ok h' \<and> data_words h' = data_words h \<and> e \<noteq> 0 \<or>
        protocol_ok h' \<and> data_words h' = data_words h \<and> e = uint (o8 (tl h') ATA_REG_ERROR)
    | Inr h' \<Rightarrow> protocol_ok h' \<and> data_words h' = data_words h \<and> may_transfer h'"
    using f1 f2 f3 f5 assms(2) unfolding r by (auto simp: h4_def may_transfer_def)
  show "case r of Inl (e, h') \<Rightarrow> length h' \<le> length h + 300008
         | Inr h' \<Rightarrow> length h' \<le> length h + 300007"
    using f1 f2 f3 f5 unfolding r by (auto simp: h4_def ATA_ERROR_TIMEOUT_LOOPS_def)
qed

lemma finish_traced:
  assumes "ata_finish (traced o8 o16) h = (e, h')" and "protocol_ok h"
  shows "protocol_ok h'" and "data_words h' = data_words h" and "length h' \<le> length h + 200003"
proof -
  let ?P = "traced o8 o16"
  obtain b1 h1 where p1: "ata_poll ?P not_busy ATA_ERROR_TIMEOUT_LOOPS h = (b1, h1)" by fastforce
  note f1 = poll_traced[OF p1]
  define h2 where "h2 = Out8 ATA_REG_COMMAND ATA_CMD_CACHE_FLUSH # h1"
  obtain b3 h3 where p3: "ata_poll ?P not_busy ATA_ERROR_TIMEOUT_LOOPS h2 = (b3, h3)" by fastforce
  note f3 = poll_traced[OF p3]
  have r: "(e, h') = (if \<not> b1 then (-2, h1) else if \<not> b3 then (-2, h3)
      else let h4 = In8 ATA_REG_STATUS (o8 h3 ATA_REG_STATUS) # h3 in
        if o8 h3 ATA_REG_STATUS AND ATA_SR_ERR \<noteq> 0
        then (uint (o8 h4 ATA_REG_ERROR), In8 ATA_REG_ERROR (o8 h4 ATA_REG_ERROR) # h4)
        else (0, h4))"
    using assms(1) by (simp add: ata_finish_def p1 p3 h2_def[symmetric] Let_def split: if_splits)
  show "protocol_ok h'" and "data_words h' = data_words h" and "length h' \<le> length h + 200003"
    using f1 f3 r assms(2)
    by (auto simp: h2_def may_command_def ATA_ERROR_TIMEOUT_LOOPS_def Let_def split: if_splits)
qed

lemma write_words_traced:
  "ata_write_words (traced o8 o16) buffer b n h = Some h' \<Longrightarrow> may_transfer h \<Longrightarrow> protocol_ok h \<Longrightarrow>
     protocol_ok h' \<and> data_words h' = data_words h + n \<and> length h' = length h + n"
proof (induction n arbitrary: b h)
  case 0
  then show ?case by simp
next
  case (Suc n)
  from Suc.prems(1) obtain w where
    w: "ata_write_words (traced o8 o16) buffer (b + 2) n (Out16 ATA_REG_DATA w # h) = Some h'"
    by (auto split: Option.bind_splits)
  from Suc.IH[OF w] Suc.prems show ?case by (auto simp: may_transfer_def)
qed

lemma read_words_traced:
  "ata_read_words (traced o8 o16) buffer b n h = Some (buffer', h') \<Longrightarrow> may_transfer h \<Longrightarrow>
     protocol_ok h \<Longrightarrow> protocol_ok h' \<and> data_words h' = data_words h + n \<and> length h' = length h + n"
proof (induction n arbitrary: b h buffer)
  case 0
  then show ?case by simp
next
  case (Suc n)
  from Suc.prems(1) obtain w b2 where
    w: "ata_read_words (traced o8 o16) b2 (b + 2) n (In16 ATA_REG_DATA w # h) = Some (buffer', h')"
    by (auto split: Option.bind_splits)
  from Suc.IH[OF w] Suc.prems show ?case by (auto simp: may_transfer_def)
qed

section \<open>Protocol and bound of a whole transfer\<close>

lemma sector_write_traced:
  assumes "ata_sector_write (traced o8 o16) lba n buffer h = Some (e, h')" and "protocol_ok h"
  shows "protocol_ok h' \<and> data_words h' \<in> {data_words h, data_words h + unat n * 256} \<and>
         length h' \<le> length h + 500010 + unat n * 256"
proof (cases "ata_start (traced o8 o16) lba n ATA_CMD_WRITE_PIO h")
  case (Inl a)
  then show ?thesis using assms start_traced[OF Inl assms(2)]
    by (auto simp: ata_sector_write_def)
next
  case (Inr h1)
  with assms(1) obtain h2 where
    w: "ata_write_words (traced o8 o16) buffer 0 (unat n * (ata_sector_size div 2)) h1 = Some h2"
    and f: "ata_finish (traced o8 o16) h2 = (e, h')"
    by (auto simp: ata_sector_write_def split: Option.bind_splits)
  note s = start_traced[OF Inr assms(2)]
  have w': "protocol_ok h2" "data_words h2 = data_words h1 + unat n * 256"
      "length h2 = length h1 + unat n * 256"
    using write_words_traced[OF w] s(1) by (auto simp: ata_sector_size_def)
  show ?thesis using finish_traced[OF f w'(1)] w' s by auto
qed

lemma sector_read_traced:
  assumes "ata_sector_read (traced o8 o16) lba n buffer h = Some (e, buffer', h')" and "protocol_ok h"
  shows "protocol_ok h' \<and> data_words h' \<in> {data_words h, data_words h + unat n * 256} \<and>
         length h' \<le> length h + 500010 + unat n * 256"
proof (cases "ata_start (traced o8 o16) lba n ATA_CMD_READ_PIO h")
  case (Inl a)
  then show ?thesis using assms start_traced[OF Inl assms(2)]
    by (auto simp: ata_sector_read_def)
next
  case (Inr h1)
  with assms(1) obtain h2 b2 where
    w: "ata_read_words (traced o8 o16) buffer 0 (unat n * (ata_sector_size div 2)) h1 = Some (b2, h2)"
    and f: "ata_finish (traced o8 o16) h2 = (e, h')"
    by (auto simp: ata_sector_read_def split: Option.bind_splits prod.splits)
  note s = start_traced[OF Inr assms(2)]
  have w': "protocol_ok h2" "data_words h2 = data_words h1 + unat n * 256"
      "length h2 = length h1 + unat n * 256"
    using read_words_traced[OF w] s(1) by (auto simp: ata_sector_size_def)
  show ?thesis using finish_traced[OF f w'(1)] w' s by auto
qed

section \<open>A drive that stays busy\<close>

lemma poll_never:
  "(\<And>d. \<not> ok (fst (inb P ATA_REG_STATUS d))) \<Longrightarrow>
     ata_poll P ok n d = (False, ((\<lambda>d. snd (inb P ATA_REG_STATUS d)) ^^ n) d)"
proof (induction n arbitrary: d)
  case 0
  then show ?case by simp
next
  case (Suc n)
  from Suc.prems[of d] Suc.IH[OF Suc.prems] show ?case
    by (cases "inb P ATA_REG_STATUS d") (simp add: funpow_Suc_right del: funpow.simps)
qed

section \<open>Properties\<close>

lemma write_words_total:
  "b + 2 * n \<le> length buffer \<Longrightarrow> \<exists>d'. ata_write_words P buffer b n d = Some d'"
  by (induction n arbitrary: b d) auto

lemma read_words_total:
  "b + 2 * n \<le> length buffer \<Longrightarrow>
     \<exists>buffer' d'. ata_read_words P buffer b n d = Some (buffer', d') \<and> length buffer' = length buffer"
proof (induction n arbitrary: b d buffer)
  case 0
  then show ?case by simp
next
  case (Suc n)
  obtain w d1 where w: "inw P ATA_REG_DATA d = (w, d1)" by fastforce
  have "\<exists>buffer' d'. ata_read_words P (buffer[b := ucast w, b + 1 := ucast (drop_bit 8 w)]) (b + 2) n d1
      = Some (buffer', d') \<and> length buffer' = length buffer"
    using Suc.IH[of "b + 2" "buffer[b := ucast w, b + 1 := ucast (drop_bit 8 w)]" d1] Suc.prems by simp
  then show ?case using Suc.prems w by simp
qed

lemma sector_write_total:
  assumes "512 * unat n \<le> length buffer"
  shows "\<exists>e d'. ata_sector_write P lba n buffer d = Some (e, d')"
proof (cases "ata_start P lba n ATA_CMD_WRITE_PIO d")
  case (Inl a)
  then show ?thesis by (cases a) (simp add: ata_sector_write_def)
next
  case (Inr d1)
  obtain d2 where "ata_write_words P buffer 0 (unat n * 256) d1 = Some d2"
    using write_words_total[of 0 "unat n * 256" buffer P d1] assms by auto
  then show ?thesis using Inr by (cases "ata_finish P d2") (simp add: ata_sector_write_def ata_sector_size_def)
qed

lemma sector_read_total:
  assumes "512 * unat n \<le> length buffer"
  shows "\<exists>e buffer' d'. ata_sector_read P lba n buffer d = Some (e, buffer', d')"
proof (cases "ata_start P lba n ATA_CMD_READ_PIO d")
  case (Inl a)
  then show ?thesis by (cases a) (simp add: ata_sector_read_def)
next
  case (Inr d1)
  obtain b d2 where "ata_read_words P buffer 0 (unat n * 256) d1 = Some (b, d2)"
    using read_words_total[of 0 "unat n * 256" buffer P d1] assms by auto
  then show ?thesis using Inr by (cases "ata_finish P d2") (simp add: ata_sector_read_def ata_sector_size_def)
qed

text \<open>C32. Whatever the hardware answers, \<open>ata_sector_write\<close> returns when its buffer is long enough, after at most
  500010 + 256 * sector_count port accesses; it writes a command only after it saw the busy flag
  clear, moves data only after it saw a data request, and transfers all words of the sectors or none.\<close>

theorem ata_write_protocol:
  assumes "512 * unat n \<le> length buffer" and "protocol_ok h"
  shows "\<exists>e h'. ata_sector_write (traced o8 o16) lba n buffer h = Some (e, h') \<and> protocol_ok h' \<and>
    data_words h' \<in> {data_words h, data_words h + unat n * 256} \<and>
    length h' \<le> length h + 500010 + unat n * 256"
  using sector_write_total[OF assms(1), of "traced o8 o16" lba h] sector_write_traced[OF _ assms(2)] by blast

theorem ata_write_protocol_witness:
  "\<exists>e h'. ata_sector_write (traced (\<lambda>_ _. 0x48) (\<lambda>_ _. 7)) 5 1 (replicate 512 1) [] = Some (e, h') \<and>
     protocol_ok h' \<and> data_words h' \<in> {0, 256} \<and> length h' \<le> 500266"
  using ata_write_protocol[of 1 "replicate 512 1" "[]" "\<lambda>_ _. 0x48" "\<lambda>_ _. 7" 5] by simp

text \<open>The same for \<open>ata_sector_read\<close>.\<close>

lemma ata_read_protocol:
  assumes "512 * unat n \<le> length buffer" and "protocol_ok h"
  shows "\<exists>e buffer' h'. ata_sector_read (traced o8 o16) lba n buffer h = Some (e, buffer', h') \<and>
    protocol_ok h' \<and> data_words h' \<in> {data_words h, data_words h + unat n * 256} \<and>
    length h' \<le> length h + 500010 + unat n * 256"
  using sector_read_total[OF assms(1), of "traced o8 o16" lba h] sector_read_traced[OF _ assms(2)] by blast

lemma ata_read_protocol_witness:
  "\<exists>e buffer' h'. ata_sector_read (traced (\<lambda>_ _. 0x48) (\<lambda>_ _. 7)) 5 1 (replicate 512 1) []
     = Some (e, buffer', h') \<and>
     protocol_ok h' \<and> data_words h' \<in> {0, 256} \<and> length h' \<le> 500266"
  using ata_read_protocol[of 1 "replicate 512 1" "[]" "\<lambda>_ _. 0x48" "\<lambda>_ _. 7" 5] by simp

text \<open>C33. A drive that stays busy makes both transfers give up with -2, after 100000 reads of the status register and
  nothing else; the buffer is untouched.\<close>

theorem ata_busy_timeout:
  assumes "\<And>d. \<not> not_busy (fst (inb P ATA_REG_STATUS d))"
  shows "ata_sector_read P lba n buffer d
      = Some (-2, buffer, ((\<lambda>d. snd (inb P ATA_REG_STATUS d)) ^^ 100000) d) \<and>
    ata_sector_write P lba n buffer d = Some (-2, ((\<lambda>d. snd (inb P ATA_REG_STATUS d)) ^^ 100000) d)"
  using poll_never[where P = P and ok = not_busy and n = ATA_ERROR_TIMEOUT_LOOPS and d = d] assms
  by (simp add: ata_sector_read_def ata_sector_write_def ata_start_def ATA_ERROR_TIMEOUT_LOOPS_def)

theorem ata_busy_timeout_witness:
  "\<exists>h'. ata_sector_read (traced (\<lambda>_ _. 0x80) (\<lambda>_ _. 0)) 5 1 [1, 2, 3] [] = Some (-2, [1, 2, 3], h')"
  using ata_busy_timeout[of "traced (\<lambda>_ _. 0x80) (\<lambda>_ _. 0)" 5 1 "[1, 2, 3]" "[]"]
  by (simp add: not_busy_def)

end
