(* ===== verification/Fifo.thy ===== *)
theory Fifo
  imports KPrelude
begin

text \<open>
  The interface of a bounded first-in first-out buffer that drops what does not fit, as its clients
  rely on it, and what follows for any sequence of operations. \<open>Keyboard\<close> interprets it on the ring
  buffer of \<open>keyboard.c\<close>.
\<close>

datatype 'a fifo_op = Put 'a | Get

text \<open>
  Run a sequence of operations and record what was taken out and what was accepted, in order. An
  element counts as accepted when the buffer holds one more element after the operation.
\<close>

fun fifo_run ::
  "('a \<Rightarrow> 'q \<Rightarrow> 'q) \<Rightarrow> ('q \<Rightarrow> ('a \<times> 'q) option) \<Rightarrow> ('q \<Rightarrow> 'a list) \<Rightarrow> 'a fifo_op list \<Rightarrow> 'q
     \<Rightarrow> 'a list \<times> 'a list \<times> 'q" where
  "fifo_run put get items [] q = ([], [], q)"
| "fifo_run put get items (Put x # ops) q =
     (case fifo_run put get items ops (put x q) of (outs, ins, q') \<Rightarrow>
        (outs, (if length (items (put x q)) = Suc (length (items q)) then x # ins else ins), q'))"
| "fifo_run put get items (Get # ops) q =
     (case get q of
        None \<Rightarrow> fifo_run put get items ops q
      | Some (x, q1) \<Rightarrow> (case fifo_run put get items ops q1 of (outs, ins, q') \<Rightarrow> (x # outs, ins, q')))"

locale bounded_fifo =
  fixes put :: "'a \<Rightarrow> 'q \<Rightarrow> 'q"
    and get :: "'q \<Rightarrow> ('a \<times> 'q) option"
    and items :: "'q \<Rightarrow> 'a list"
    and inv :: "'q \<Rightarrow> bool"
    and cap :: nat
  assumes inv_put: "inv q \<Longrightarrow> inv (put x q)"
    and inv_get: "inv q \<Longrightarrow> get q = Some (x, q') \<Longrightarrow> inv q'"
    and items_put: "inv q \<Longrightarrow>
          items (put x q) = (if length (items q) < cap then items q @ [x] else items q)"
    and get_None: "inv q \<Longrightarrow> get q = None \<longleftrightarrow> items q = []"
    and get_Some: "inv q \<Longrightarrow> get q = Some (x, q') \<Longrightarrow> items q = x # items q'"
    and items_cap: "inv q \<Longrightarrow> length (items q) \<le> cap"
begin

lemma run_conserves:
  "inv q \<Longrightarrow> fifo_run put get items ops q = (outs, ins, q') \<Longrightarrow>
     inv q' \<and> items q @ ins = outs @ items q'"
proof (induction ops arbitrary: q outs ins q')
  case Nil
  then show ?case by simp
next
  case (Cons op ops)
  show ?case
  proof (cases op)
    case (Put x)
    obtain o1 i1 q1 where r: "fifo_run put get items ops (put x q) = (o1, i1, q1)"
      by (cases "fifo_run put get items ops (put x q)") auto
    have "inv q1 \<and> items (put x q) @ i1 = o1 @ items q1"
      using Cons.IH[OF inv_put[OF Cons.prems(1)] r] .
    with Cons.prems r Put show ?thesis
      by (auto simp: items_put split: if_splits)
  next
    case Get
    show ?thesis
    proof (cases "get q")
      case None
      with Cons Get show ?thesis by auto
    next
      case (Some p)
      then obtain x q1 where t: "get q = Some (x, q1)" by (cases p) auto
      obtain o2 i2 q2 where r: "fifo_run put get items ops q1 = (o2, i2, q2)"
        by (cases "fifo_run put get items ops q1") auto
      from Cons.IH[OF inv_get[OF Cons.prems(1) t] r] get_Some[OF Cons.prems(1) t]
      show ?thesis using Cons.prems Get t r by auto
    qed
  qed
qed

lemma put_room: "inv q \<Longrightarrow> length (items q) < cap \<Longrightarrow> items (put x q) = items q @ [x]"
  by (simp add: items_put)

lemma put_full: "inv q \<Longrightarrow> length (items q) = cap \<Longrightarrow> items (put x q) = items q"
  by (simp add: items_put)

end

end
