(* ===== verification/Keyboard.thy ===== *)
theory Keyboard
  imports Fifo
begin

text \<open>
  \<open>keyboard.c\<close>: the scancode table, the ring buffer between the keyboard interrupt (the producer)
  and the shell (the consumer), refined to a bounded FIFO, and the interleaving of an interrupt with
  the statements of a read that is in progress.
\<close>

section \<open>State and operations\<close>

definition BUFFER_SIZE :: u32 where
  "BUFFER_SIZE = 256"

text \<open>\<open>scancode_ascii\<close>: 58 entries are written out, C sets the other 70 to zero.\<close>

definition scancode_ascii :: bytes where
  "scancode_ascii =
     [0, 0] @ ascii ''1234567890-_'' @ [8, 0] @
     ascii ''qwertyuiop[]'' @ [10, 0] @
     ascii ''asdfghjkl;'' @ [0x27, 0x60, 0, 0x5C] @
     ascii ''zxcvbnm,./'' @ [0, 0x2A, 0, 0x20] @ replicate 70 0"

record kbd =
  kbuffer :: bytes
  head :: u32
  tail :: u32

definition kbd_init :: kbd where
  "kbd_init = \<lparr>kbuffer = replicate 256 0, head = 0, tail = 0\<rparr>"

text \<open>The end of \<open>click_on_keybord\<close>: store a character unless the ring is full.\<close>

definition kbd_put :: "u8 \<Rightarrow> kbd \<Rightarrow> kbd" where
  "kbd_put c k =
     (let next_head = (head k + 1) mod BUFFER_SIZE in
      if next_head = tail k then k
      else k\<lparr>kbuffer := (kbuffer k)[unat (head k) := c], head := next_head\<rparr>)"

text \<open>The handler; \<open>scancode\<close> is the byte that \<open>inb(0x60)\<close> returned.\<close>

definition click_on_keybord :: "u8 \<Rightarrow> kbd \<Rightarrow> kbd" where
  "click_on_keybord scancode k =
     (if scancode AND 0x80 \<noteq> 0 then k
      else if 128 \<le> scancode then k
      else let c = scancode_ascii ! unat scancode in
        if c = 0 then k else kbd_put c k)"

text \<open>The result, what \<open>*char_output_pointer\<close> holds afterwards, and the new state.\<close>

definition read_kyboard_from_main :: "u8 \<Rightarrow> kbd \<Rightarrow> int \<times> u8 \<times> kbd" where
  "read_kyboard_from_main out k =
     (if head k = tail k then (0, out, k)
      else (1, kbuffer k ! unat (tail k), k\<lparr>tail := (tail k + 1) mod BUFFER_SIZE\<rparr>))"

section \<open>The ring as a queue\<close>

definition kbd_inv :: "kbd \<Rightarrow> bool" where
  "kbd_inv k \<longleftrightarrow> length (kbuffer k) = 256 \<and> unat (head k) < 256 \<and> unat (tail k) < 256"

definition kbd_count :: "kbd \<Rightarrow> nat" where
  "kbd_count k = (unat (head k) + 256 - unat (tail k)) mod 256"

definition kbd_items :: "kbd \<Rightarrow> u8 list" where
  "kbd_items k = map (\<lambda>i. kbuffer k ! ((unat (tail k) + i) mod 256)) [0..<kbd_count k]"

definition kbd_get :: "kbd \<Rightarrow> (u8 \<times> kbd) option" where
  "kbd_get k = (case read_kyboard_from_main 0 k of (n, c, k') \<Rightarrow> if n = 0 then None else Some (c, k'))"

lemma length_scancode_ascii: "length scancode_ascii = 128"
  by (simp add: scancode_ascii_def ascii_def)

lemma unat_succ_mod: "unat (h :: u32) < 256 \<Longrightarrow> unat ((h + 1) mod BUFFER_SIZE) = (unat h + 1) mod 256"
proof -
  assume h: "unat h < 256"
  then have "unat (h + 1) = unat h + 1"
    by (simp add: unat_word_ariths)
  then show ?thesis
    by (simp add: unat_mod BUFFER_SIZE_def)
qed

lemma unat_succ_mod_less [simp]: "unat ((h + 1) mod BUFFER_SIZE :: u32) < 256"
  by (simp add: unat_mod BUFFER_SIZE_def)

lemma mod_succ: "h < 256 \<Longrightarrow> Suc h mod 256 = (if h = 255 then 0 else Suc h)"
  by simp

lemma kbd_count_eq:
  "kbd_inv k \<Longrightarrow> kbd_count k = (if unat (tail k) \<le> unat (head k) then unat (head k) - unat (tail k)
     else unat (head k) + 256 - unat (tail k))"
  by (auto simp: kbd_count_def kbd_inv_def mod_if)

lemma length_kbd_items [simp]: "length (kbd_items k) = kbd_count k"
  by (simp add: kbd_items_def)

lemma nth_kbd_items:
  "i < kbd_count k \<Longrightarrow> kbd_items k ! i = kbuffer k ! ((unat (tail k) + i) mod 256)"
  by (simp add: kbd_items_def)

lemma kbd_count_less: "kbd_count k \<le> 255"
  unfolding kbd_count_def by (simp add: less_Suc_eq_le[symmetric])

lemma kbd_init_inv [simp]: "kbd_inv kbd_init"
  by (simp add: kbd_inv_def kbd_init_def)

lemma kbd_put_inv: "kbd_inv k \<Longrightarrow> kbd_inv (kbd_put c k)"
  by (simp add: kbd_inv_def kbd_put_def Let_def)

lemma kbd_full_iff:
  assumes "kbd_inv k"
  shows "(head k + 1) mod BUFFER_SIZE = tail k \<longleftrightarrow> kbd_count k = 255"
proof -
  have "(head k + 1) mod BUFFER_SIZE = tail k \<longleftrightarrow> (unat (head k) + 1) mod 256 = unat (tail k)"
    using assms by (simp add: word_unat_eq_iff unat_succ_mod kbd_inv_def)
  also have "\<dots> \<longleftrightarrow> kbd_count k = 255"
    using assms by (simp add: kbd_count_eq mod_succ kbd_inv_def) linarith
  finally show ?thesis .
qed

lemma kbd_put_items:
  assumes inv: "kbd_inv k"
  shows "kbd_items (kbd_put c k)
    = (if length (kbd_items k) < 255 then kbd_items k @ [c] else kbd_items k)"
proof (cases "kbd_count k = 255")
  case True
  then show ?thesis using inv by (simp add: kbd_put_def kbd_full_iff Let_def)
next
  case False
  let ?k = "kbd_put c k" and ?n = "kbd_count k"
  have k': "?k = k\<lparr>kbuffer := (kbuffer k)[unat (head k) := c], head := (head k + 1) mod BUFFER_SIZE\<rparr>"
    using False inv by (simp add: kbd_put_def kbd_full_iff Let_def)
  have lt: "?n < 255" using False kbd_count_less[of k] by linarith
  have inv': "kbd_inv ?k" using inv by (rule kbd_put_inv)
  have hd': "unat (head ?k) = (if unat (head k) = 255 then 0 else Suc (unat (head k)))"
    using inv by (simp add: k' unat_succ_mod kbd_inv_def mod_succ)
  have "tail ?k = tail k" by (simp add: k')
  then have cnt: "kbd_count ?k = Suc ?n"
    using inv inv' lt hd' by (auto simp: kbd_count_eq kbd_inv_def split: if_splits)
  have pos: "(unat (tail k) + i) mod 256 = unat (head k) \<longleftrightarrow> i = ?n" if "i \<le> ?n" for i
    using that inv lt by (auto simp: kbd_count_eq kbd_inv_def mod_if split: if_splits)
  have "kbd_items ?k = kbd_items k @ [c]"
  proof (rule nth_equalityI)
    fix i assume "i < length (kbd_items ?k)"
    then have i: "i < Suc ?n" by (simp add: cnt)
    let ?p = "(unat (tail k) + i) mod 256"
    have "kbd_items ?k ! i = (kbuffer k)[unat (head k) := c] ! ?p"
      using i by (simp add: nth_kbd_items cnt) (simp add: k')
    also have "\<dots> = (if i = ?n then c else kbuffer k ! ?p)"
    proof -
      have "unat (head k) = ?p \<longleftrightarrow> i = ?n" using pos[of i] i by auto
      then show ?thesis using inv by (simp only: nth_update kbd_inv_def simp_thms)
    qed
    also have "\<dots> = (kbd_items k @ [c]) ! i"
      using i by (auto simp: nth_append nth_kbd_items less_Suc_eq)
    finally show "kbd_items ?k ! i = (kbd_items k @ [c]) ! i" .
  qed (simp add: cnt)
  with lt show ?thesis by simp
qed

lemma kbd_empty_iff: "kbd_inv k \<Longrightarrow> head k = tail k \<longleftrightarrow> kbd_items k = []"
proof -
  assume "kbd_inv k"
  then have "head k = tail k \<longleftrightarrow> kbd_count k = 0"
    by (auto simp: word_unat_eq_iff kbd_count_eq kbd_inv_def split: if_splits)
  then show ?thesis by (metis length_0_conv length_kbd_items)
qed

lemma kbd_tail_inv: "kbd_inv k \<Longrightarrow> kbd_inv (k\<lparr>tail := (tail k + 1) mod BUFFER_SIZE\<rparr>)"
  by (simp add: kbd_inv_def)

lemma kbd_read_cons:
  assumes inv: "kbd_inv k" and ne: "head k \<noteq> tail k"
  shows "kbd_items k = kbuffer k ! unat (tail k) # kbd_items (k\<lparr>tail := (tail k + 1) mod BUFFER_SIZE\<rparr>)"
proof -
  let ?k = "k\<lparr>tail := (tail k + 1) mod BUFFER_SIZE\<rparr>"
  have "unat (head k) \<noteq> unat (tail k)" using ne by (simp add: word_unat_eq_iff)
  then have cnt: "kbd_count k = Suc (kbd_count ?k)"
    using inv kbd_tail_inv[OF inv] by (simp add: kbd_count_eq unat_succ_mod mod_succ kbd_inv_def) linarith
  show ?thesis
  proof (rule nth_equalityI)
    fix i assume "i < length (kbd_items k)"
    then show "kbd_items k ! i = (kbuffer k ! unat (tail k) # kbd_items ?k) ! i"
      using inv cnt
      by (cases i) (auto simp: nth_kbd_items unat_succ_mod kbd_inv_def mod_simps)
  qed (simp add: cnt)
qed

section \<open>Reading while interrupts arrive\<close>

text \<open>
  A call of \<open>read_kyboard_from_main\<close> is three accesses to the shared variables: the comparison of
  \<open>head\<close> and \<open>tail\<close>, the load of \<open>buffer[tail]\<close> and the store to \<open>tail\<close>. The keyboard interrupt runs
  to completion, but may do so between any two of them. \<open>taken\<close> and \<open>accepted\<close> record the characters
  that calls returned and that interrupts stored.
\<close>

datatype read_pc = Read_idle | Read_checked | Read_loaded u8

record ksys =
  kring :: kbd
  rpc :: read_pc
  taken :: "u8 list"
  accepted :: "u8 list"

definition ksys_init :: ksys where
  "ksys_init = \<lparr>kring = kbd_init, rpc = Read_idle, taken = [], accepted = []\<rparr>"

inductive kstep :: "ksys \<Rightarrow> ksys \<Rightarrow> bool" where
  irq: "kstep s (s\<lparr>kring := click_on_keybord sc (kring s),
          accepted := (if head (click_on_keybord sc (kring s)) = head (kring s) then accepted s
                       else accepted s @ [scancode_ascii ! unat sc])\<rparr>)"
| check_empty: "rpc s = Read_idle \<Longrightarrow> head (kring s) = tail (kring s) \<Longrightarrow> kstep s s"
| check: "rpc s = Read_idle \<Longrightarrow> head (kring s) \<noteq> tail (kring s) \<Longrightarrow>
    kstep s (s\<lparr>rpc := Read_checked\<rparr>)"
| load: "rpc s = Read_checked \<Longrightarrow>
    kstep s (s\<lparr>rpc := Read_loaded (kbuffer (kring s) ! unat (tail (kring s)))\<rparr>)"
| advance: "rpc s = Read_loaded c \<Longrightarrow>
    kstep s (s\<lparr>kring := (kring s)\<lparr>tail := (tail (kring s) + 1) mod BUFFER_SIZE\<rparr>,
      rpc := Read_idle, taken := taken s @ [c]\<rparr>)"

inductive kreach :: "ksys \<Rightarrow> bool" where
  init: "kreach ksys_init"
| step: "kreach s \<Longrightarrow> kstep s t \<Longrightarrow> kreach t"

definition ksys_inv :: "ksys \<Rightarrow> bool" where
  "ksys_inv s \<longleftrightarrow> kbd_inv (kring s) \<and> accepted s = taken s @ kbd_items (kring s) \<and>
     (case rpc s of Read_idle \<Rightarrow> True
      | Read_checked \<Rightarrow> kbd_items (kring s) \<noteq> []
      | Read_loaded c \<Rightarrow> kbd_items (kring s) \<noteq> [] \<and> hd (kbd_items (kring s)) = c)"

interpretation kbd: bounded_fifo kbd_put kbd_get kbd_items kbd_inv 255
proof unfold_locales
  fix q :: kbd and x q'
  assume inv: "kbd_inv q"
  show "kbd_inv (kbd_put x q)" using inv by (rule kbd_put_inv)
  show "kbd_items (kbd_put x q) = (if length (kbd_items q) < 255 then kbd_items q @ [x] else kbd_items q)"
    using inv by (rule kbd_put_items)
  show "(kbd_get q = None) = (kbd_items q = [])"
    using kbd_empty_iff[OF inv] by (simp add: kbd_get_def read_kyboard_from_main_def)
  show "length (kbd_items q) \<le> 255" by (simp add: kbd_count_less)
  assume t: "kbd_get q = Some (x, q')"
  then show "kbd_inv q'"
    using inv by (auto simp: kbd_get_def read_kyboard_from_main_def kbd_tail_inv split: if_splits)
  from t show "kbd_items q = x # kbd_items q'"
    using kbd_read_cons[OF inv]
    by (auto simp: kbd_get_def read_kyboard_from_main_def split: if_splits)
qed

lemma click_cases:
  "click_on_keybord sc k = k \<or>
   (click_on_keybord sc k = kbd_put (scancode_ascii ! unat sc) k \<and> scancode_ascii ! unat sc \<noteq> 0)"
  by (simp add: click_on_keybord_def Let_def)

lemma click_inv: "kbd_inv k \<Longrightarrow> kbd_inv (click_on_keybord sc k)"
  using click_cases[of sc k] by (auto simp: kbd_put_inv)

lemma kbd_put_head:
  "kbd_inv k \<Longrightarrow> head (kbd_put c k) = head k \<longleftrightarrow> kbd_put c k = k"
proof -
  assume inv: "kbd_inv k"
  have "(head k + 1) mod BUFFER_SIZE \<noteq> head k"
    using inv by (auto simp: word_unat_eq_iff unat_succ_mod kbd_inv_def mod_succ split: if_splits)
  moreover have "k\<lparr>kbuffer := b, head := h\<rparr> \<noteq> k" if "h \<noteq> head k" for b h
    using that by (cases k) simp
  ultimately show ?thesis by (auto simp: kbd_put_def Let_def)
qed

lemma click_items:
  assumes "kbd_inv k"
  shows "kbd_items (click_on_keybord sc k)
    = (if head (click_on_keybord sc k) = head k then kbd_items k
       else kbd_items k @ [scancode_ascii ! unat sc])"
proof (cases "click_on_keybord sc k = k")
  case True
  then show ?thesis by simp
next
  case False
  then have c: "click_on_keybord sc k = kbd_put (scancode_ascii ! unat sc) k"
    using click_cases[of sc k] by auto
  have "kbd_put d k = k" if "kbd_count k = 255" for d
    using that kbd_full_iff[OF assms] by (simp add: kbd_put_def Let_def)
  with False c have "kbd_count k \<noteq> 255" by auto
  with kbd_count_less[of k] have "length (kbd_items k) < 255" by simp
  moreover have "head (click_on_keybord sc k) \<noteq> head k"
    using False unfolding c kbd_put_head[OF assms] .
  ultimately show ?thesis by (simp only: c kbd.put_room[OF assms] if_False)
qed

inductive_cases kstepE: "kstep s t"

lemma kstep_inv:
  assumes "kstep s t" and inv: "ksys_inv s"
  shows "ksys_inv t"
  using assms(1)
proof cases
  case (irq sc)
  have "kbd_items (kring t) \<noteq> [] \<and> hd (kbd_items (kring t)) = hd (kbd_items (kring s))"
    if "kbd_items (kring s) \<noteq> []"
    using that inv click_items[of "kring s" sc] irq by (auto simp: ksys_inv_def)
  with inv irq click_items[of "kring s" sc] show ?thesis
    by (auto simp: ksys_inv_def click_inv split: read_pc.splits)
next
  case (advance c)
  have "head (kring s) \<noteq> tail (kring s)"
    using inv advance kbd_empty_iff[of "kring s"] by (auto simp: ksys_inv_def)
  with inv advance kbd_read_cons[of "kring s"] show ?thesis
    by (auto simp: ksys_inv_def kbd_tail_inv)
qed (use inv kbd_empty_iff[of "kring s"] kbd_read_cons[of "kring s"] in \<open>auto simp: ksys_inv_def\<close>)

lemma kreach_inv: "kreach s \<Longrightarrow> ksys_inv s"
proof (induction rule: kreach.induct)
  case init
  show ?case by (simp add: ksys_inv_def ksys_init_def kbd_items_def kbd_count_def kbd_init_def kbd_inv_def)
next
  case (step s t)
  then show ?case by (blast intro: kstep_inv)
qed

section \<open>Properties\<close>

text \<open>C24. The ring buffer of \<open>keyboard.c\<close> is a queue of at most 255 characters: a key press appends its character
  when there is room and is dropped when there is none, a release and a key without a character
  change nothing, and a read takes the oldest character or returns 0 and leaves its output alone.\<close>

theorem keyboard_is_queue:
  assumes "kbd_inv k"
  shows "kbd_inv (click_on_keybord sc k) \<and>
    kbd_items (click_on_keybord sc k) =
      (if unat sc < 128 \<and> scancode_ascii ! unat sc \<noteq> 0 \<and> length (kbd_items k) < 255
       then kbd_items k @ [scancode_ascii ! unat sc] else kbd_items k) \<and>
    (case read_kyboard_from_main out k of (n, c, k') \<Rightarrow> kbd_inv k' \<and>
      (if kbd_items k = [] then n = 0 \<and> c = out \<and> k' = k
       else n = 1 \<and> kbd_items k = c # kbd_items k'))"
proof (intro conjI)
  show "kbd_inv (click_on_keybord sc k)" using assms by (rule click_inv)
  have neg: "sc AND 0x80 \<noteq> 0 \<longleftrightarrow> \<not> unat sc < 128"
  proof -
    have "bit sc 7 \<longleftrightarrow> 128 \<le> unat sc"
    proof -
      have "unat sc < 256" using unsigned_less[of sc] by simp
      then have "unat sc div 128 < 2" by linarith
      moreover have "bit sc 7 \<longleftrightarrow> bit (unat sc) 7" by (simp add: bit_unsigned_iff)
      moreover have "bit (unat sc) 7 \<longleftrightarrow> odd (unat sc div 128)" by (simp add: bit_iff_odd)
      ultimately show ?thesis by (cases "unat sc < 128") (auto simp: div_if)
    qed
    moreover have "sc AND 0x80 = (if bit sc 7 then 0x80 else 0)"
    proof (rule bit_word_eqI)
      fix n assume "n < LENGTH(8)"
      then have "n \<in> {0, 1, 2, 3, 4, 5, 6, 7}" by auto
      then show "bit (sc AND 0x80) n = bit (if bit sc 7 then 0x80 else 0 :: u8) n"
        by (auto simp: bit_and_iff bit_0)
    qed
    ultimately show ?thesis by auto
  qed
  have big: "128 \<le> sc \<longleftrightarrow> \<not> unat sc < 128" by (simp add: word_le_nat_alt not_less)
  show "kbd_items (click_on_keybord sc k) =
      (if unat sc < 128 \<and> scancode_ascii ! unat sc \<noteq> 0 \<and> length (kbd_items k) < 255
       then kbd_items k @ [scancode_ascii ! unat sc] else kbd_items k)"
    using kbd_put_items[OF assms] neg big by (simp add: click_on_keybord_def Let_def)
  show "case read_kyboard_from_main out k of (n, c, k') \<Rightarrow> kbd_inv k' \<and>
      (if kbd_items k = [] then n = 0 \<and> c = out \<and> k' = k
       else n = 1 \<and> kbd_items k = c # kbd_items k')"
    using kbd_read_cons[OF assms] kbd_empty_iff[OF assms] kbd_tail_inv[OF assms] assms
    by (auto simp: read_kyboard_from_main_def)
qed

theorem keyboard_is_queue_witness:
  "kbd_items (click_on_keybord 0x1E kbd_init) = [97] \<and> kbd_items (click_on_keybord 0x9E kbd_init) = []"
proof -
  have "scancode_ascii ! 30 = 97" by (simp add: scancode_ascii_def ascii_def)
  moreover have "kbd_items kbd_init = []" by (simp add: kbd_items_def kbd_count_def kbd_init_def)
  ultimately show ?thesis
    using keyboard_is_queue[OF kbd_init_inv, of "0x1E"] keyboard_is_queue[OF kbd_init_inv, of "0x9E"]
    by simp
qed

text \<open>C25. Interrupts may arrive between any two memory accesses of a read: in every reachable state, the characters
  that reads returned followed by those still in the buffer are exactly the accepted ones, in order.\<close>

theorem keyboard_no_loss:
  assumes "kreach s"
  shows "accepted s = taken s @ kbd_items (kring s)"
  using kreach_inv[OF assms] by (simp add: ksys_inv_def)

lemma keyboard_run:
  "\<exists>s. kreach s \<and> accepted s = [97, 98] \<and> taken s = [97]"
proof -
  let ?k1 = "click_on_keybord 0x1E kbd_init"
  let ?k2 = "click_on_keybord 0x30 ?k1"
  have k1: "?k1 = kbd_init\<lparr>kbuffer := (kbuffer kbd_init)[0 := 97], head := 1\<rparr>"
    by (simp add: click_on_keybord_def kbd_put_def kbd_init_def scancode_ascii_def ascii_def BUFFER_SIZE_def Let_def)
  have k2: "?k2 = ?k1\<lparr>kbuffer := (kbuffer ?k1)[1 := 98], head := 2\<rparr>"
    unfolding k1
    by (simp add: click_on_keybord_def kbd_put_def kbd_init_def scancode_ascii_def ascii_def BUFFER_SIZE_def Let_def)
  let ?s1 = "ksys_init\<lparr>kring := ?k1, accepted := [97]\<rparr>"
  let ?s2 = "?s1\<lparr>rpc := Read_checked\<rparr>"
  let ?s3 = "?s2\<lparr>kring := ?k2, accepted := [97, 98]\<rparr>"
  have sc: "scancode_ascii ! 30 = 97" "scancode_ascii ! 48 = 98"
    by (simp_all add: scancode_ascii_def ascii_def)
  have "kstep ksys_init ?s1"
    using kstep.irq[of ksys_init "0x1E"] k1 sc by (simp add: ksys_init_def kbd_init_def)
  moreover have "kstep ?s1 ?s2"
    by (rule kstep.check) (simp_all add: ksys_init_def k1, simp add: kbd_init_def)
  moreover have "kstep ?s2 ?s3"
  proof -
    have "head ?k2 = 2" by (subst k2) simp
    moreover have "head ?k1 = 1" by (subst k1) simp
    ultimately have "head ?k2 \<noteq> head ?k1" by simp
    then show ?thesis using kstep.irq[of ?s2 "0x30"] sc by (simp add: ksys_init_def)
  qed
  moreover have "kstep ?s3 (?s3\<lparr>rpc := Read_loaded 97\<rparr>)"
  proof -
    have "kbuffer ?k2 ! unat (tail ?k2) = 97"
      by (subst (1 2) k2, subst (1 2 3) k1) (simp add: kbd_init_def)
    then show ?thesis using kstep.load[of ?s3] by (simp del: fun_upd_apply)
  qed
  moreover have "kstep (?s3\<lparr>rpc := Read_loaded 97\<rparr>) (?s3\<lparr>rpc := Read_idle, taken := [97],
      kring := ?k2\<lparr>tail := (tail ?k2 + 1) mod BUFFER_SIZE\<rparr>\<rparr>)"
    using kstep.advance[of "?s3\<lparr>rpc := Read_loaded 97\<rparr>" 97] by (simp add: ksys_init_def)
  ultimately have "kreach (?s3\<lparr>rpc := Read_idle, taken := [97],
      kring := ?k2\<lparr>tail := (tail ?k2 + 1) mod BUFFER_SIZE\<rparr>\<rparr>)"
    using kreach.init kreach.step by blast
  then show ?thesis by fastforce
qed

theorem keyboard_no_loss_witness:
  "\<exists>s. kreach s \<and> taken s = [97] \<and> kbd_items (kring s) = [98]"
proof -
  obtain s where "kreach s" "accepted s = [97, 98]" "taken s = [97]" using keyboard_run by blast
  then show ?thesis using keyboard_no_loss[of s] by auto
qed

end
