(* ===== verification/Interrupts.thy ===== *)
theory Interrupts
  imports Keyboard
begin

text \<open>
  \<open>pic.c\<close>, \<open>idt.c\<close> and \<open>gdt.c\<close>: the interrupt controllers, the descriptor tables and the C part of interrupt
  handling. A function that only writes to ports is the list of its \<open>outb\<close> calls; the entry points
  of \<open>isr.asm\<close> are addresses given as parameters, and the instructions \<open>lgdt\<close> and \<open>lidt\<close> are the pointers
  they load. The 8259A chips follow their data sheet.
\<close>

type_synonym port_writes = "(u16 \<times> u8) list"

section \<open>Interrupt controllers\<close>

abbreviation PIC1_COMMAND :: u16 where "PIC1_COMMAND \<equiv> 0x20"
abbreviation PIC1_DATA :: u16 where "PIC1_DATA \<equiv> 0x21"
abbreviation PIC2_COMMAND :: u16 where "PIC2_COMMAND \<equiv> 0xA0"
abbreviation PIC2_DATA :: u16 where "PIC2_DATA \<equiv> 0xA1"
abbreviation ICW1_INIT :: u8 where "ICW1_INIT \<equiv> 0x10"
abbreviation ICW1_ICW4 :: u8 where "ICW1_ICW4 \<equiv> 0x01"
abbreviation ICW4_8086 :: u8 where "ICW4_8086 \<equiv> 0x01"

definition io_wait :: port_writes where
  "io_wait = [(0x80, 0)]"

definition pic_remap :: port_writes where
  "pic_remap =
     [(PIC1_COMMAND, ICW1_INIT OR ICW1_ICW4)] @ io_wait @ [(PIC2_COMMAND, ICW1_INIT OR ICW1_ICW4)] @ io_wait @
     [(PIC1_DATA, 32)] @ io_wait @ [(PIC2_DATA, 40)] @ io_wait @
     [(PIC1_DATA, 4)] @ io_wait @ [(PIC2_DATA, 2)] @ io_wait @
     [(PIC1_DATA, ICW4_8086)] @ io_wait @ [(PIC2_DATA, ICW4_8086)] @ io_wait @
     [(PIC1_DATA, 0), (PIC2_DATA, 0)]"

definition pic_send_eoi :: "u8 \<Rightarrow> port_writes" where
  "pic_send_eoi irq = (if 8 \<le> irq then [(PIC2_COMMAND, 0x20)] else []) @ [(PIC1_COMMAND, 0x20)]"

section \<open>The 8259A\<close>

text \<open>
  A chip counts the initialisation words it still expects in \<open>icw\<close>: after the first one, the vector
  offset, the cascade wiring and, when announced, the mode; otherwise a data write is the mask. A command 0x20 is a non-specific end of
  interrupt: it clears the highest-priority line in service.
\<close>

record pic_chip =
  icw :: nat
  with_icw4 :: bool
  vector :: u8
  cascade :: u8
  mode :: u8
  mask_reg :: u8
  in_service :: "nat set"

definition chip_command :: "u8 \<Rightarrow> pic_chip \<Rightarrow> pic_chip" where
  "chip_command v c =
     (if v AND 0x10 \<noteq> 0 then c\<lparr>icw := 1, with_icw4 := v AND 1 \<noteq> 0, mask_reg := 0, in_service := {}\<rparr>
      else if v = 0x20 then c\<lparr>in_service := in_service c - {Min (in_service c)}\<rparr>
      else c)"

definition chip_data :: "u8 \<Rightarrow> pic_chip \<Rightarrow> pic_chip" where
  "chip_data v c =
     (if icw c = 1 then c\<lparr>vector := v, icw := 2\<rparr>
      else if icw c = 2 then c\<lparr>cascade := v, icw := (if with_icw4 c then 3 else 0)\<rparr>
      else if icw c = 3 then c\<lparr>mode := v, icw := 0\<rparr>
      else c\<lparr>mask_reg := v\<rparr>)"

fun pics_write :: "u16 \<times> u8 \<Rightarrow> pic_chip \<times> pic_chip \<Rightarrow> pic_chip \<times> pic_chip" where
  "pics_write (port, v) (m, s) =
     (if port = PIC1_COMMAND then (chip_command v m, s)
      else if port = PIC1_DATA then (chip_data v m, s)
      else if port = PIC2_COMMAND then (m, chip_command v s)
      else if port = PIC2_DATA then (m, chip_data v s)
      else (m, s))"

definition pics_run :: "port_writes \<Rightarrow> pic_chip \<times> pic_chip \<Rightarrow> pic_chip \<times> pic_chip" where
  "pics_run ws c = fold pics_write ws c"

text \<open>Line \<open>k\<close> of the 16 goes into service: the lines from 8 come through line 2 of the master.\<close>

definition pics_raise :: "nat \<Rightarrow> pic_chip \<times> pic_chip \<Rightarrow> pic_chip \<times> pic_chip" where
  "pics_raise k c =
     (if k < 8 then ((fst c)\<lparr>in_service := insert k (in_service (fst c))\<rparr>, snd c)
      else ((fst c)\<lparr>in_service := insert 2 (in_service (fst c))\<rparr>, (snd c)\<lparr>in_service := insert (k - 8) (in_service (snd c))\<rparr>))"

definition pics_vector :: "nat \<Rightarrow> pic_chip \<times> pic_chip \<Rightarrow> nat" where
  "pics_vector k c = (if k < 8 then unat (vector (fst c)) + k else unat (vector (snd c)) + (k - 8))"

definition pic_reset :: pic_chip where
  "pic_reset = \<lparr>icw = 0, with_icw4 = False, vector = 8, cascade = 0, mode = 0, mask_reg = 0xFF, in_service = {}\<rparr>"

lemma pics_run_append: "pics_run (xs @ ys) c = pics_run ys (pics_run xs c)"
  by (simp add: pics_run_def)

section \<open>Global descriptor table\<close>

record gdt_entry =
  limit_low :: u16
  base_low :: u16
  base_mid :: u8
  access :: u8
  granularity :: u8
  base_high :: u8

record table_ptr =
  limit :: u16
  base :: u64

definition gdt :: "gdt_entry list" where
  "gdt =
     [\<lparr>limit_low = 0, base_low = 0, base_mid = 0, access = 0, granularity = 0, base_high = 0\<rparr>,
      \<lparr>limit_low = 0xFFFF, base_low = 0, base_mid = 0, access = 0x9A, granularity = 0xAF, base_high = 0\<rparr>,
      \<lparr>limit_low = 0xFFFF, base_low = 0, base_mid = 0, access = 0x92, granularity = 0xAF, base_high = 0\<rparr>]"

text \<open>The packed layout of an entry in memory.\<close>

definition gdt_entry_bytes :: "gdt_entry \<Rightarrow> bytes" where
  "gdt_entry_bytes e = le_bytes 2 (limit_low e) @ le_bytes 2 (base_low e) @
     [base_mid e, access e, granularity e, base_high e]"

text \<open>\<open>gdtp\<close>, which \<open>gdt_init\<close> loads; \<open>addr\<close> is the address of \<open>gdt\<close>.\<close>

definition gdt_init :: "u64 \<Rightarrow> table_ptr" where
  "gdt_init addr = \<lparr>limit = of_nat (length (concat (map gdt_entry_bytes gdt))) - 1, base = addr\<rparr>"

section \<open>Interrupt descriptor table\<close>

record idt_entry =
  offset_low :: u16
  selector :: u16
  ist :: u8
  type_attr :: u8
  offset_mid :: u16
  offset_high :: u32
  zero_word :: u32

definition idt_zero :: idt_entry where
  "idt_zero = \<lparr>offset_low = 0, selector = 0, ist = 0, type_attr = 0, offset_mid = 0, offset_high = 0, zero_word = 0\<rparr>"

definition idt_entry_bytes :: "idt_entry \<Rightarrow> bytes" where
  "idt_entry_bytes e = le_bytes 2 (offset_low e) @ le_bytes 2 (selector e) @ [ist e, type_attr e] @
     le_bytes 2 (offset_mid e) @ le_bytes 4 (offset_high e) @ le_bytes 4 (zero_word e)"

definition idt_set_gate :: "u8 \<Rightarrow> u64 \<Rightarrow> u16 \<Rightarrow> u8 \<Rightarrow> idt_entry list \<Rightarrow> idt_entry list" where
  "idt_set_gate num handler sel flags idt =
     idt[unat num := \<lparr>offset_low = ucast (handler AND 0xFFFF), selector = sel, ist = 0, type_attr = flags,
       offset_mid = ucast (drop_bit 16 handler AND 0xFFFF),
       offset_high = ucast (drop_bit 32 handler AND 0xFFFFFFFF), zero_word = 0\<rparr>]"

text \<open>The 48 calls in order: gates 0 to 31 for \<open>isr0\<close> to \<open>isr31\<close>, 32 to 47 for \<open>irq0\<close> to \<open>irq15\<close>.\<close>

definition idt_init ::
  "(nat \<Rightarrow> u64) \<Rightarrow> (nat \<Rightarrow> u64) \<Rightarrow> u64 \<Rightarrow> idt_entry list \<Rightarrow> table_ptr \<times> idt_entry list" where
  "idt_init isr irq addr idt =
     (let idtp = \<lparr>limit = of_nat (length (concat (map idt_entry_bytes idt))) - 1, base = addr\<rparr>;
          idt = fold (\<lambda>k. idt_set_gate (of_nat k) (isr k) 0x08 0x8E) [0..<32] idt;
          idt = fold (\<lambda>k. idt_set_gate (of_nat (32 + k)) (irq k) 0x08 0x8E) [0..<16] idt
      in (idtp, idt))"

text \<open>The handler that the processor runs: the three parts of the offset put together.\<close>

definition gate_offset :: "idt_entry \<Rightarrow> u64" where
  "gate_offset e = ucast (offset_low e) OR push_bit 16 (ucast (offset_mid e)) OR push_bit 32 (ucast (offset_high e))"

definition gate_for :: "idt_entry \<Rightarrow> u64 \<Rightarrow> bool" where
  "gate_for e handler \<longleftrightarrow> gate_offset e = handler \<and> selector e = 0x08 \<and> ist e = 0 \<and> type_attr e = 0x8E"

section \<open>The handler of hardware interrupts\<close>

text \<open>
  \<open>scancode\<close> is what port 0x60 holds. The results are the keyboard buffer and the writes to the
  controllers.
\<close>

definition irq_handler :: "u64 \<Rightarrow> u8 \<Rightarrow> kbd \<Rightarrow> kbd \<times> port_writes" where
  "irq_handler int_num scancode k =
     (if int_num = 33 then click_on_keybord scancode k else k, pic_send_eoi (ucast int_num - 32))"

section \<open>Lemmas\<close>

lemma length_idt_entry_bytes [simp]: "length (idt_entry_bytes e) = 16"
  by (simp add: idt_entry_bytes_def)

lemma length_gdt_entry_bytes [simp]: "length (gdt_entry_bytes e) = 8"
  by (simp add: gdt_entry_bytes_def)

lemma length_concat_const: "(\<And>x. x \<in> set xs \<Longrightarrow> length (f x) = n) \<Longrightarrow> length (concat (map f xs)) = n * length xs"
  by (induction xs) auto

lemma length_idt_set_gate [simp]: "length (idt_set_gate n h s f idt) = length idt"
  by (simp add: idt_set_gate_def)

lemma low_masks: "(0xFFFF :: u64) = mask 16" "(0xFFFFFFFF :: u64) = mask 32"
  by (simp_all add: mask_eq_exp_minus_1)

lemma offset_parts:
  fixes h :: u64
  shows "ucast (ucast (h AND 0xFFFF) :: u16) OR push_bit 16 (ucast (ucast (drop_bit 16 h AND 0xFFFF) :: u16)) OR
    push_bit 32 (ucast (ucast (drop_bit 32 h AND 0xFFFFFFFF) :: u32)) = h"
proof (rule bit_word_eqI)
  fix n assume n: "n < LENGTH(64)"
  then consider "n < 16" | "16 \<le> n" "n < 32" | "32 \<le> n" "n < 64" by fastforce
  then show "bit (ucast (ucast (h AND 0xFFFF) :: u16) OR push_bit 16 (ucast (ucast (drop_bit 16 h AND 0xFFFF) :: u16)) OR
    push_bit 32 (ucast (ucast (drop_bit 32 h AND 0xFFFFFFFF) :: u32)) :: u64) n = bit h n"
    unfolding low_masks by cases (auto simp: bit_simps)
qed

lemma nth_idt_set_gate:
  "k < length idt \<Longrightarrow> idt_set_gate n h s f idt ! k =
     (if k = unat n then \<lparr>offset_low = ucast (h AND 0xFFFF), selector = s, ist = 0, type_attr = f,
       offset_mid = ucast (drop_bit 16 h AND 0xFFFF),
       offset_high = ucast (drop_bit 32 h AND 0xFFFFFFFF), zero_word = 0\<rparr> else idt ! k)"
  by (auto simp: idt_set_gate_def nth_update)

lemma gate_offset_set:
  "unat n < length idt \<Longrightarrow> gate_offset (idt_set_gate n h s f idt ! unat n) = h"
  by (simp add: nth_idt_set_gate gate_offset_def offset_parts)

lemma gate_for_set:
  "k < length idt \<Longrightarrow> k = unat n \<Longrightarrow> gate_for (idt_set_gate n h 0x08 0x8E idt ! k) h"
  by (simp add: nth_idt_set_gate gate_for_def gate_offset_def offset_parts)

text \<open>A run of \<open>idt_set_gate\<close> calls for consecutive vectors.\<close>

lemma gates_run:
  assumes "a + n \<le> 256" "length idt = 256"
  shows "length (fold (\<lambda>k. idt_set_gate (of_nat (a + k)) (h k) s f) [0..<n] idt) = 256 \<and>
    (\<forall>k < 256. fold (\<lambda>k. idt_set_gate (of_nat (a + k)) (h k) s f) [0..<n] idt ! k =
      (if a \<le> k \<and> k < a + n then idt_set_gate (of_nat k) (h (k - a)) s f idt ! k else idt ! k))"
  using assms(1)
proof (induction n)
  case 0
  then show ?case using assms(2) by auto
next
  case (Suc n)
  have u: "unat (of_nat (a + n) :: u8) = a + n"
    using Suc.prems by (simp add: unat_of_nat del: of_nat_add)
  have v: "unat (of_nat k :: u8) = k" if "k < 256" for k using that by (simp add: unat_of_nat)
  show ?case
    using Suc by (auto simp: nth_idt_set_gate u v assms(2) less_Suc_eq simp del: of_nat_add)
qed

lemma idt_init_gates:
  assumes "length idt = 256"
  shows "let (p, t) = idt_init isr irq addr idt in
    limit p = 4095 \<and> base p = addr \<and> length t = 256 \<and>
    (\<forall>k < 32. gate_for (t ! k) (isr k)) \<and> (\<forall>k < 16. gate_for (t ! (32 + k)) (irq k)) \<and>
    (\<forall>k < 256. 48 \<le> k \<longrightarrow> t ! k = idt ! k)"
proof -
  define t1 where "t1 = fold (\<lambda>k. idt_set_gate (of_nat k) (isr k) 0x08 0x8E) [0..<32] idt"
  define t2 where "t2 = fold (\<lambda>k. idt_set_gate (of_nat (32 + k)) (irq k) 0x08 0x8E) [0..<16] t1"
  have t1: "length t1 = 256" "k < 256 \<Longrightarrow> t1 ! k =
      (if k < 32 then idt_set_gate (of_nat k) (isr k) 0x08 0x8E idt ! k else idt ! k)" for k
    using gates_run[of 0 32 idt isr] assms by (auto simp: t1_def)
  have t2: "length t2 = 256" "k < 256 \<Longrightarrow> t2 ! k =
      (if 32 \<le> k \<and> k < 48 then idt_set_gate (of_nat k) (irq (k - 32)) 0x08 0x8E t1 ! k else t1 ! k)" for k
    using gates_run[of 32 16 t1 irq] t1(1) by (auto simp: t2_def)
  have u: "unat (of_nat k :: u8) = k" if "k < 256" for k using that by (simp add: unat_of_nat)
  have "length (concat (map idt_entry_bytes idt)) = 4096"
    using length_concat_const[of idt idt_entry_bytes 16] assms by simp
  then have r: "idt_init isr irq addr idt = (\<lparr>limit = 4095, base = addr\<rparr>, t2)"
    by (simp add: idt_init_def t1_def t2_def Let_def)
  have "gate_for (t2 ! k) (isr k)" if "k < 32" for k
    using that t2(2)[of k] t1(2)[of k] gate_for_set[of k idt "of_nat k" "isr k"] assms u[of k] by simp
  moreover have "gate_for (t2 ! (32 + k)) (irq k)" if "k < 16" for k
    using that t2(2)[of "32 + k"] gate_for_set[of "32 + k" t1 "of_nat (32 + k)" "irq k"] t1(1) u[of "32 + k"]
    by (simp del: of_nat_add)
  moreover have "t2 ! k = idt ! k" if "48 \<le> k" "k < 256" for k using that t2(2)[of k] t1(2)[of k] by simp
  ultimately show ?thesis using t2(1) by (simp add: r)
qed

section \<open>Properties\<close>

text \<open>After \<open>idt_init\<close> the loaded pointer spans the whole table, the vectors 0 to 31 run \<open>isr0\<close> to \<open>isr31\<close>, the
  vectors 32 to 47 run \<open>irq0\<close> to \<open>irq15\<close>, all through the kernel code selector as present ring-0 interrupt gates,
  and no other gate changes; the handler address is split over three fields and put together again.\<close>

lemma idt_init_vectors:
  assumes "length idt = 256"
  shows "let (p, t) = idt_init isr irq addr idt in
    limit p = 4095 \<and> base p = addr \<and> length t = 256 \<and>
    (\<forall>k < 32. gate_for (t ! k) (isr k)) \<and> (\<forall>k < 16. gate_for (t ! (32 + k)) (irq k)) \<and>
    (\<forall>k < 256. 48 \<le> k \<longrightarrow> t ! k = idt ! k)"
  by (rule idt_init_gates[OF assms])

lemma idt_init_vectors_witness:
  "gate_for (snd (idt_init (\<lambda>k. 0xFFFFFFFF80001000 + of_nat k) (\<lambda>k. 0xFFFFFFFF80002000) 0 (replicate 256 idt_zero)) ! 33)
     0xFFFFFFFF80002000"
proof -
  have "\<forall>k < 16. gate_for (snd (idt_init (\<lambda>k. 0xFFFFFFFF80001000 + of_nat k) (\<lambda>k. 0xFFFFFFFF80002000) 0
      (replicate 256 idt_zero)) ! (32 + k)) 0xFFFFFFFF80002000"
    using idt_init_vectors[of "replicate 256 idt_zero" "\<lambda>k. 0xFFFFFFFF80001000 + of_nat k" "\<lambda>k. 0xFFFFFFFF80002000" 0]
    by (simp add: Let_def case_prod_beta)
  from spec[OF this, of 1] show ?thesis by simp
qed

text \<open>A descriptor of a present ring-0 segment: 64-bit code, or writable data.\<close>

definition kernel_code :: "gdt_entry \<Rightarrow> bool" where
  "kernel_code e \<longleftrightarrow> access e AND 0xF8 = 0x98 \<and> granularity e AND 0x60 = 0x20"

definition kernel_data :: "gdt_entry \<Rightarrow> bool" where
  "kernel_data e \<longleftrightarrow> access e AND 0xFA = 0x92"

text \<open>The two selectors that \<open>load_gdt\<close> and the interrupt gates use lie inside the limit that \<open>gdt_init\<close>
  loads; selector 0x08 is a present ring-0 64-bit code segment, selector 0x10 a present ring-0 writable data segment.\<close>

lemma gdt_selectors:
  "limit (gdt_init addr) = 23 \<and> base (gdt_init addr) = addr \<and>
   kernel_code (gdt ! (0x08 div 8)) \<and> kernel_data (gdt ! (0x10 div 8)) \<and>
   0x10 + 7 \<le> unat (limit (gdt_init addr))"
  by (simp add: gdt_init_def gdt_def kernel_code_def kernel_data_def)

text \<open>From any state of the two controllers, \<open>pic_remap\<close> completes the initialisation of both, unmasks
  every line and maps line \<open>k\<close> of the 16 to vector \<open>32 + k\<close>, above the processor's exceptions.\<close>

lemma pic_remap_vectors:
  "let c = pics_run pic_remap (m, s) in
     icw (fst c) = 0 \<and> icw (snd c) = 0 \<and> mask_reg (fst c) = 0 \<and> mask_reg (snd c) = 0 \<and>
     cascade (fst c) = 4 \<and> cascade (snd c) = 2 \<and> mode (fst c) = 1 \<and> mode (snd c) = 1 \<and>
     in_service (fst c) = {} \<and> in_service (snd c) = {} \<and>
     (\<forall>k < 16. pics_vector k c = 32 + k)"
  by (auto simp: pics_run_def pic_remap_def io_wait_def chip_command_def chip_data_def Let_def pics_vector_def)

lemma pic_remap_vectors_witness:
  "pics_vector 1 (pics_run pic_remap (pic_reset, pic_reset)) = 33"
  using pic_remap_vectors[of pic_reset pic_reset] by (simp add: Let_def)

text \<open>A hardware interrupt other than the timer is acknowledged exactly: when line \<open>k\<close> of idle controllers
  goes into service and \<open>irq_handler\<close> runs with the number that the stub pushes, the controllers are idle again,
  and the keyboard buffer receives the scancode for line 1 and is untouched for every other line.\<close>

lemma irq_acknowledged:
  assumes "1 \<le> k" "k < 16" "in_service (fst c) = {}" "in_service (snd c) = {}"
  shows "let (kb', out) = irq_handler (32 + of_nat k) scancode kb in
    kb' = (if k = 1 then click_on_keybord scancode kb else kb) \<and> pics_run out (pics_raise k c) = c"
proof -
  have u: "unat (32 + of_nat k :: u64) = 32 + k" using assms(2) by (simp add: unat_word_ariths unat_of_nat)
  have n: "(32 + of_nat k :: u64) = 33 \<longleftrightarrow> k = 1" using u by (simp add: word_unat_eq_iff)
  have i: "(ucast (32 + of_nat k :: u64) :: u8) - 32 = of_nat k"
  proof -
    have "(ucast (32 + of_nat k :: u64) :: u8) = of_nat (32 + k)"
      using u by (metis of_nat_unat)
    then show ?thesis by simp
  qed
  have le: "8 \<le> (of_nat k :: u8) \<longleftrightarrow> 8 \<le> k" using assms(2) by (simp add: word_le_nat_alt unat_of_nat)
  obtain m s where c: "c = (m, s)" by (cases c)
  have "m\<lparr>in_service := {}\<rparr> = m" "s\<lparr>in_service := {}\<rparr> = s" using assms(3,4) by (simp_all add: c)
  then show ?thesis
    using assms by (simp add: irq_handler_def n i pic_send_eoi_def le pics_run_def pics_raise_def c chip_command_def)
qed

lemma irq_acknowledged_witness:
  "pics_run (snd (irq_handler 44 0 kbd_init)) (pics_raise 12 (pic_reset, pic_reset)) = (pic_reset, pic_reset)"
  using irq_acknowledged[of 12 "(pic_reset, pic_reset)" 0 kbd_init] by (simp add: pic_reset_def case_prod_beta)

end
