(* ===== verification/Sched.thy ===== *)
theory Sched
  imports Interrupts
begin

text \<open>
  The timer and scheduler of \<open>pit.c\<close> and the task functions of \<open>main.c\<close>: the task table, the first stack frame of a
  task, round-robin switching in the timer interrupt, and sleeping. The stacks are a store of 64-bit words; their address, the
  addresses of entry functions and the effect of \<open>hlt\<close> are parameters.
\<close>

section \<open>State\<close>

definition max_tasks :: nat where
  "max_tasks = 16"

record task =
  t_rsp :: u64
  t_active :: u64
  t_name :: bytes
  t_run_path :: bytes

record sched =
  tasks :: "task list"
  task_count :: u64
  current_task_id :: u64
  tick_count :: u64
  stack_mem :: "u64 \<Rightarrow> u64"
  eoi_out :: port_writes

definition task_stack_size :: u64 where
  "task_stack_size = 16777216"

definition zero_task :: task where
  "zero_task = \<lparr>t_rsp = 0, t_active = 0, t_name = replicate 32 0, t_run_path = replicate 1024 0\<rparr>"

section \<open>Timer\<close>

definition PIT_BASE_FREQUENCY :: u32 where
  "PIT_BASE_FREQUENCY = 1193182"

text \<open>\<open>None\<close> is the division by zero.\<close>

definition pit_init :: "u32 \<Rightarrow> port_writes option" where
  "pit_init frequency_hz =
     (if frequency_hz = 0 then None
      else
        let divisor = PIT_BASE_FREQUENCY div frequency_hz
        in Some [(0x43, 0x36), (0x40, ucast (divisor AND 0xFF)), (0x40, ucast (drop_bit 8 divisor AND 0xFF))])"

definition pit_get_ticks :: "sched \<Rightarrow> u64" where
  "pit_get_ticks s = tick_count s"

text \<open>
  \<open>do { id = (id + 1) % task_count; } while (!tasks[id].active);\<close> A loop that never ends is \<open>None\<close>,
  like an access outside the table.
\<close>

partial_function (option) next_active :: "task list \<Rightarrow> u64 \<Rightarrow> u64 \<Rightarrow> u64 option" where
  "next_active ts n cur = do {
     let cur = (cur + 1) mod n;
     t \<leftarrow> peek ts (unat cur);
     if t_active t = 0 then next_active ts n cur else Some cur }"

definition schedule :: "u64 \<Rightarrow> sched \<Rightarrow> (u64 \<times> sched) option" where
  "schedule current_rsp s =
     (if task_count s = 0 then Some (current_rsp, s)
      else do {
        let s = s\<lparr>tick_count := tick_count s + 1, eoi_out := eoi_out s @ pic_send_eoi 0\<rparr>;
        t \<leftarrow> peek (tasks s) (unat (current_task_id s));
        let s = s\<lparr>tasks := (tasks s)[unat (current_task_id s) := t\<lparr>t_rsp := current_rsp\<rparr>]\<rparr>;
        cur \<leftarrow> next_active (tasks s) (task_count s) (current_task_id s);
        let s = s\<lparr>current_task_id := cur\<rparr>;
        t \<leftarrow> peek (tasks s) (unat cur);
        Some (t_rsp t, s) })"

text \<open>\<open>hlt\<close> is what happens until the next interrupt has been served.\<close>

partial_function (option) sleep_until :: "(sched \<Rightarrow> sched) \<Rightarrow> u64 \<Rightarrow> sched \<Rightarrow> sched option" where
  "sleep_until hlt target s =
     (if pit_get_ticks s < target then sleep_until hlt target (hlt s) else Some s)"

definition sleep_ticks :: "(sched \<Rightarrow> sched) \<Rightarrow> u64 \<Rightarrow> sched \<Rightarrow> sched option" where
  "sleep_ticks hlt ticks s = (let start = pit_get_ticks s; target = start + ticks in sleep_until hlt target s)"

definition sleep_ms :: "(sched \<Rightarrow> sched) \<Rightarrow> u64 \<Rightarrow> sched \<Rightarrow> sched option" where
  "sleep_ms hlt ms s = (let ticks = (ms * 100) div 1000 in sleep_ticks hlt ticks s)"

section \<open>Tasks\<close>

text \<open>\<open>*(--sp) = v\<close> on a stack of \<open>sz\<close> bytes from address \<open>stack\<close>.\<close>

definition push_word :: "u64 \<Rightarrow> u64 \<Rightarrow> u64 \<Rightarrow> u64 \<times> (u64 \<Rightarrow> u64) \<Rightarrow> (u64 \<times> (u64 \<Rightarrow> u64)) option" where
  "push_word stack sz v spm =
     (let sp = fst spm - 8 in
      if stack \<le> sp \<and> unat sp + 8 \<le> unat stack + unat sz then Some (sp, (snd spm)(sp := v)) else None)"

fun push_words :: "u64 \<Rightarrow> u64 \<Rightarrow> u64 list \<Rightarrow> u64 \<times> (u64 \<Rightarrow> u64) \<Rightarrow> (u64 \<times> (u64 \<Rightarrow> u64)) option" where
  "push_words stack sz [] spm = Some spm"
| "push_words stack sz (v # vs) spm = do {
     spm \<leftarrow> push_word stack sz v spm;
     push_words stack sz vs spm }"

text \<open>The 22 words that \<open>task_create\<close> pushes, from the top of the stack down.\<close>

definition first_frame :: "u64 \<Rightarrow> u64 \<Rightarrow> u64 list" where
  "first_frame stack_top entry = [0, stack_top, 0x202, 0x08, entry, 0, 32] @ replicate 15 0"

definition task_create :: "nat \<Rightarrow> u64 \<Rightarrow> u64 \<Rightarrow> u64 \<Rightarrow> sched \<Rightarrow> sched option" where
  "task_create t stack stack_size entry s = do {
     let stack_top = (stack + stack_size) AND NOT 0xF;
     (sp, m) \<leftarrow> push_words stack stack_size (first_frame stack_top entry) (stack_top, stack_mem s);
     tk \<leftarrow> peek (tasks s) t;
     Some (s\<lparr>stack_mem := m, tasks := (tasks s)[t := tk\<lparr>t_rsp := sp, t_active := 1\<rparr>]\<rparr>) }"

text \<open>
  The loop over the 32 bytes of the name. After the NUL nothing is stored; the loop still reads the bytes behind it, whose
  values do not matter.
\<close>

fun copy_name_from :: "cstring \<Rightarrow> nat \<Rightarrow> nat \<Rightarrow> bool \<Rightarrow> bytes \<Rightarrow> bytes" where
  "copy_name_from name i 0 ou dst = dst"
| "copy_name_from name i (Suc n) ou dst =
     copy_name_from name (i + 1) n (ou \<or> cat name i = 0) (if \<not> ou then dst[i := cat name i] else dst)"

definition copy_task_name :: "nat \<Rightarrow> cstring \<Rightarrow> sched \<Rightarrow> sched option" where
  "copy_task_name idx name s = do {
     t \<leftarrow> peek (tasks s) idx;
     Some (s\<lparr>tasks := (tasks s)[idx := t\<lparr>t_name := copy_name_from name 0 32 False (t_name t)\<rparr>]\<rparr>) }"

definition task_stack :: "u64 \<Rightarrow> u64 \<Rightarrow> u64" where
  "task_stack stacks idx = stacks + idx * task_stack_size"

definition set_run_path :: "nat \<Rightarrow> cstring \<Rightarrow> sched \<Rightarrow> sched option" where
  "set_run_path idx run_path s = do {
     t \<leftarrow> peek (tasks s) idx;
     let n = min (length run_path) 1023;
     let p = copy_into (t_run_path t) 0 run_path n;
     Some (s\<lparr>tasks := (tasks s)[idx := t\<lparr>t_run_path := p[n := 0]\<rparr>]\<rparr>) }"

definition creat_task_path :: "u64 \<Rightarrow> u64 \<Rightarrow> cstring \<Rightarrow> cstring \<Rightarrow> sched \<Rightarrow> sched option" where
  "creat_task_path stacks run_task run_path name s =
     (if of_nat max_tasks \<le> task_count s then Some s
      else do {
        let idx = unat (task_count s);
        s \<leftarrow> copy_task_name idx name s;
        s \<leftarrow> set_run_path idx run_path s;
        s \<leftarrow> task_create idx (task_stack stacks (task_count s)) task_stack_size run_task s;
        Some (s\<lparr>task_count := task_count s + 1\<rparr>) })"

definition creat_task_func :: "u64 \<Rightarrow> u64 \<Rightarrow> cstring \<Rightarrow> sched \<Rightarrow> sched option" where
  "creat_task_func stacks entry name s =
     (if of_nat max_tasks \<le> task_count s then Some s
      else do {
        let idx = unat (task_count s);
        s \<leftarrow> copy_task_name idx name s;
        s \<leftarrow> set_run_path idx [] s;
        s \<leftarrow> task_create idx (task_stack stacks (task_count s)) task_stack_size entry s;
        Some (s\<lparr>task_count := task_count s + 1\<rparr>) })"

text \<open>The interrupt of \<open>int $32\<close> runs \<open>schedule\<close>; the task is never resumed.\<close>

definition task_exit :: "u64 \<Rightarrow> sched \<Rightarrow> (u64 \<times> sched) option" where
  "task_exit current_rsp s = do {
     t \<leftarrow> peek (tasks s) (unat (current_task_id s));
     let s = s\<lparr>tasks := (tasks s)[unat (current_task_id s) := t\<lparr>t_active := 0\<rparr>]\<rparr>;
     schedule current_rsp s }"

text \<open>The comparison of two names of the same length: any mismatch sets \<open>ou\<close>.\<close>

definition names_differ :: "bytes \<Rightarrow> cstring \<Rightarrow> nat \<Rightarrow> bool" where
  "names_differ tname name len = fold (\<lambda>i2 ou. if tname ! i2 \<noteq> cat name i2 \<and> \<not> ou then True else ou) [0..<len] False"

fun delet_from :: "nat \<Rightarrow> nat \<Rightarrow> cstring \<Rightarrow> sched \<Rightarrow> sched option" where
  "delet_from i 0 name s = Some s"
| "delet_from i (Suc n) name s = do {
     t \<leftarrow> peek (tasks s) i;
     TN_lenght \<leftarrow> cstrlen (t_name t);
     if TN_lenght \<noteq> length name then delet_from (i + 1) n name s
     else if names_differ (t_name t) name TN_lenght then delet_from (i + 1) n name s
     else Some (s\<lparr>tasks := (tasks s)[i := t\<lparr>t_active := 0\<rparr>]\<rparr>) }"

definition delet_task :: "cstring \<Rightarrow> sched \<Rightarrow> sched option" where
  "delet_task name s =
     (if of_nat max_tasks \<le> task_count s then Some s
      else delet_from 0 (unat (task_count s)) name s)"

text \<open>The end of \<open>kmain\<close> before the timer starts: the two tasks of the kernel.\<close>

definition start_tasks :: "u64 \<Rightarrow> u64 \<Rightarrow> u64 \<Rightarrow> sched \<Rightarrow> (port_writes \<times> u64 \<times> sched) option" where
  "start_tasks stacks shell_entry counter_entry s = do {
     s \<leftarrow> creat_task_func stacks shell_entry (ascii ''shell'') s;
     s \<leftarrow> creat_task_func stacks counter_entry (ascii ''counter'') s;
     let s = s\<lparr>current_task_id := 0\<rparr>;
     out \<leftarrow> pit_init 100;
     t \<leftarrow> peek (tasks s) 0;
     Some (out, t_rsp t, s) }"

section \<open>Well-formed states\<close>

definition task_ok :: "task \<Rightarrow> bool" where
  "task_ok t \<longleftrightarrow> length (t_name t) = 32 \<and> length (t_run_path t) = 1024"

definition sched_ok :: "sched \<Rightarrow> bool" where
  "sched_ok s \<longleftrightarrow> length (tasks s) = 16 \<and> (\<forall>t \<in> set (tasks s). task_ok t) \<and> unat (task_count s) \<le> 16 \<and>
     (if task_count s = 0 then current_task_id s = 0 else unat (current_task_id s) < unat (task_count s))"

definition runnable :: "sched \<Rightarrow> nat \<Rightarrow> bool" where
  "runnable s i \<longleftrightarrow> i < unat (task_count s) \<and> t_active (tasks s ! i) \<noteq> 0"

lemma sched_ok_update:
  "sched_ok s \<Longrightarrow> task_ok t \<Longrightarrow> sched_ok (s\<lparr>tasks := (tasks s)[i := t]\<rparr>)"
  by (auto simp: sched_ok_def dest!: set_update_subset_insert[THEN subsetD])

lemma sched_ok_task: "sched_ok s \<Longrightarrow> i < 16 \<Longrightarrow> task_ok (tasks s ! i)"
  by (simp add: sched_ok_def)

section \<open>Scheduling\<close>

lemma unat_next:
  "unat cur < unat n \<Longrightarrow> unat n \<le> 16 \<Longrightarrow> unat ((cur + 1) mod n :: u64) = Suc (unat cur) mod unat n"
  by (simp add: unat_mod unat_word_ariths)

lemma next_active_found:
  assumes "unat cur < unat n" "unat n \<le> 16" "unat n \<le> length ts"
    "t_active (ts ! ((unat cur + Suc k) mod unat n)) \<noteq> 0"
    "\<forall>j < k. t_active (ts ! ((unat cur + Suc j) mod unat n)) = 0"
  shows "\<exists>c. next_active ts n cur = Some c \<and> unat c = (unat cur + Suc k) mod unat n"
  using assms
proof (induction k arbitrary: cur)
  case 0
  have "unat ((cur + 1) mod n) < unat n" using 0(1) by (simp add: unat_next[OF 0(1,2)])
  then have "unat ((cur + 1) mod n) < length ts" using 0(3) by (rule less_le_trans)
  then show ?case using 0 by (subst next_active.simps) (simp add: unat_next Let_def)
next
  case (Suc k)
  let ?c = "(cur + 1) mod n"
  have u: "unat ?c = Suc (unat cur) mod unat n" using Suc.prems(1,2) by (rule unat_next)
  have lt: "unat ?c < unat n" using Suc.prems(1) by (simp add: u)
  have shift: "(unat ?c + Suc j) mod unat n = (unat cur + Suc (Suc j)) mod unat n" for j
    by (simp only: u mod_add_left_eq) simp
  have "\<exists>c. next_active ts n ?c = Some c \<and> unat c = (unat ?c + Suc k) mod unat n"
    using lt Suc.prems by (intro Suc.IH) (auto simp only: shift Suc_less_eq)
  then obtain c where c: "next_active ts n ?c = Some c" "unat c = (unat cur + Suc (Suc k)) mod unat n"
    by (auto simp only: shift)
  have "t_active (ts ! unat ?c) = 0" using Suc.prems(5)[rule_format, of 0] by (simp add: u)
  then have "next_active ts n cur = next_active ts n ?c"
    using lt Suc.prems(3) by (subst next_active.simps) (simp add: Let_def)
  then show ?case using c by simp
qed

lemma next_active_sound:
  assumes "next_active ts n cur = Some c"
  shows "unat c < length ts \<and> t_active (ts ! unat c) \<noteq> 0 \<and> (\<exists>k. c = k mod n)"
proof (rule next_active.raw_induct[of "\<lambda>ts n cur c. unat c < length ts \<and> t_active (ts ! unat c) \<noteq> 0 \<and> (\<exists>k. c = k mod n)",
      OF _ assms], goal_cases)
  case (1 f ts n cur c)
  from 1(2) show ?case
    using 1(1) by (auto simp: Let_def peek_def bind_eq_Some_conv split: if_splits)
qed

lemma next_active_diverges:
  assumes "0 < n" "unat n \<le> length ts" "\<forall>i < unat n. t_active (ts ! i) = 0"
  shows "next_active ts n cur = None"
proof (cases "next_active ts n cur")
  case (Some c)
  from next_active_sound[OF this] obtain k where c: "t_active (ts ! unat c) \<noteq> 0" "c = k mod n" by blast
  have "unat c < unat n" using assms(1) by (simp add: c(2) unat_mod word_less_nat_alt)
  with assms(3) c(1) show ?thesis by blast
qed

text \<open>How many steps the loop takes from a state: the least \<open>k\<close> such that the task \<open>k + 1\<close> places further runs.\<close>

definition turn :: "sched \<Rightarrow> nat" where
  "turn s = (LEAST k. runnable s ((unat (current_task_id s) + Suc k) mod unat (task_count s)))"

definition next_task :: "sched \<Rightarrow> nat" where
  "next_task s = (unat (current_task_id s) + Suc (turn s)) mod unat (task_count s)"

lemma ring_reach:
  assumes "cur < n" "i < (n :: nat)"
  obtains k where "k < n" "(cur + Suc k) mod n = i"
proof (cases "cur < i")
  case True
  then show ?thesis using assms that[of "i - Suc cur"] by simp
next
  case False
  then have "cur + Suc (n + i - Suc cur) = i + n" using assms by simp
  then show ?thesis using assms False that[of "n + i - Suc cur"] by simp
qed

lemma turn_runnable:
  assumes "sched_ok s" "runnable s i"
  shows "runnable s (next_task s)" "j < turn s \<Longrightarrow> \<not> runnable s ((unat (current_task_id s) + Suc j) mod unat (task_count s))"
    "(unat (current_task_id s) + Suc k) mod unat (task_count s) = i \<Longrightarrow> turn s \<le> k"
proof -
  let ?P = "\<lambda>k. runnable s ((unat (current_task_id s) + Suc k) mod unat (task_count s))"
  have lt: "i < unat (task_count s)" using assms(2) by (simp add: runnable_def)
  then have "unat (current_task_id s) < unat (task_count s)" using assms(1) by (auto simp: sched_ok_def split: if_splits)
  from ring_reach[OF this lt] obtain k0 where "(unat (current_task_id s) + Suc k0) mod unat (task_count s) = i" .
  then have "?P k0" using assms(2) by simp
  then have "?P (turn s)" unfolding turn_def by (rule LeastI)
  then show "runnable s (next_task s)" by (simp add: next_task_def)
  show "j < turn s \<Longrightarrow> \<not> runnable s ((unat (current_task_id s) + Suc j) mod unat (task_count s))"
    unfolding turn_def by (rule not_less_Least)
  show "turn s \<le> k" if "(unat (current_task_id s) + Suc k) mod unat (task_count s) = i"
    unfolding turn_def by (rule Least_le) (use that assms(2) in simp)
qed

lemma schedule_effect:
  assumes ok: "sched_ok s" and run: "runnable s i"
  shows "\<exists>s'. schedule r s = Some (t_rsp (tasks s' ! next_task s), s') \<and> sched_ok s' \<and>
    unat (current_task_id s') = next_task s \<and> task_count s' = task_count s \<and>
    tasks s' = (tasks s)[unat (current_task_id s) := (tasks s ! unat (current_task_id s))\<lparr>t_rsp := r\<rparr>] \<and>
    tick_count s' = tick_count s + 1 \<and> eoi_out s' = eoi_out s @ pic_send_eoi 0 \<and> stack_mem s' = stack_mem s"
proof -
  let ?cur = "unat (current_task_id s)" and ?n = "unat (task_count s)"
  let ?ts = "(tasks s)[?cur := (tasks s ! ?cur)\<lparr>t_rsp := r\<rparr>]"
  have n0: "task_count s \<noteq> 0" using run by (auto simp: runnable_def)
  have b: "?cur < ?n" "?n \<le> 16" "length (tasks s) = 16" using ok n0 by (simp_all add: sched_ok_def)
  have act: "t_active (?ts ! j) = t_active (tasks s ! j)" for j using b by (cases "j = ?cur") (simp_all add: nth_update)
  have rn: "runnable s ((?cur + Suc j) mod ?n) \<longleftrightarrow> t_active (tasks s ! ((?cur + Suc j) mod ?n)) \<noteq> 0" for j
    using b(1) by (simp add: runnable_def)
  have nt: "next_task s < ?n" using turn_runnable(1)[OF ok run] by (simp add: runnable_def)
  obtain c where c: "next_active ?ts (task_count s) (current_task_id s) = Some c" "unat c = next_task s"
    using next_active_found[of "current_task_id s" "task_count s" ?ts "turn s"] b turn_runnable(1,2)[OF ok run]
    by (auto simp only: act rn next_task_def length_list_update)
  have tok: "task_ok ((tasks s ! ?cur)\<lparr>t_rsp := r\<rparr>)"
    using sched_ok_task[OF ok, of ?cur] b by (simp add: task_ok_def)
  have "sched_ok (s\<lparr>tasks := ?ts\<rparr>)" by (rule sched_ok_update[OF ok tok])
  then show ?thesis
    using b n0 c nt by (simp add: schedule_def Let_def sched_ok_def)
qed

lemma schedule_diverges:
  assumes "sched_ok s" "task_count s \<noteq> 0" "\<forall>i. \<not> runnable s i"
  shows "schedule r s = None"
proof -
  let ?cur = "unat (current_task_id s)"
  let ?ts = "(tasks s)[?cur := (tasks s ! ?cur)\<lparr>t_rsp := r\<rparr>]"
  have b: "?cur < 16" "length (tasks s) = 16" "unat (task_count s) \<le> 16" using assms(1,2) by (auto simp: sched_ok_def)
  have "t_active (?ts ! j) = t_active (tasks s ! j)" for j using b by (cases "j = ?cur") (simp_all add: nth_update)
  then have "next_active ?ts (task_count s) (current_task_id s) = None"
    using assms(2,3) b by (intro next_active_diverges) (auto simp: runnable_def word_gt_0 simp del: word_neq_0_conv)
  then show ?thesis using assms(2) b by (simp add: schedule_def Let_def)
qed

section \<open>Creating tasks\<close>

lemma unat_align16: "unat (x AND NOT 0xF :: u64) = unat x div 16 * 16"
proof -
  have m: "(0xF :: u64) = mask 4" by (simp add: mask_eq_exp_minus_1)
  have eq: "x AND NOT 0xF = push_bit 4 (drop_bit 4 x)"
    unfolding m by (rule bit_word_eqI) (auto simp: bit_simps)
  have "unat x div 16 * 16 < 2 ^ 64"
    using unsigned_less[of x, where 'a = nat] by (intro le_less_trans[OF div_times_less_eq_dividend]) simp
  then have "unat (push_bit 4 (drop_bit 4 x)) = unat x div 16 * 16"
    by (simp only: unsigned_push_bit_eq unsigned_drop_bit_eq) (simp add: push_bit_eq_mult drop_bit_eq_div take_bit_eq_mod)
  then show ?thesis by (simp only: eq)
qed

lemma push_words_effect:
  assumes "unat stack + 8 * length vs \<le> unat sp" "unat sp \<le> unat stack + unat sz"
  shows "\<exists>m'. push_words stack sz vs (sp, m) = Some (sp - of_nat (8 * length vs), m') \<and>
    (\<forall>j < length vs. m' (sp - of_nat (8 * length vs) + of_nat (8 * j)) = rev vs ! j) \<and>
    (\<forall>a. unat a < unat sp - 8 * length vs \<or> unat sp \<le> unat a \<longrightarrow> m' a = m a)"
  using assms
proof (induction vs arbitrary: sp m)
  case Nil
  then show ?case by simp
next
  case (Cons v vs)
  let ?n = "length vs"
  have u1: "unat (sp - 8) = unat sp - 8"
  proof -
    have "(8 :: u64) \<le> sp" using Cons.prems(1) by (simp add: word_le_nat_alt)
    then show ?thesis by (simp add: unat_sub)
  qed
  have p1: "push_word stack sz v (sp, m) = Some (sp - 8, m(sp - 8 := v))"
    using Cons.prems by (simp add: push_word_def Let_def u1 word_le_nat_alt)
  have "unat stack + 8 * ?n \<le> unat (sp - 8)" "unat (sp - 8) \<le> unat stack + unat sz" using Cons.prems u1 by auto
  from Cons.IH[OF this, of "m(sp - 8 := v)"] obtain m' where
    m': "push_words stack sz vs (sp - 8, m(sp - 8 := v)) = Some (sp - 8 - of_nat (8 * ?n), m')"
      "\<forall>j < ?n. m' (sp - 8 - of_nat (8 * ?n) + of_nat (8 * j)) = rev vs ! j"
      "\<forall>a. unat a < unat (sp - 8) - 8 * ?n \<or> unat (sp - 8) \<le> unat a \<longrightarrow> m' a = (m(sp - 8 := v)) a"
    by blast
  have e: "sp - 8 - of_nat (8 * ?n) = sp - of_nat (8 * length (v # vs))" by simp
  have top: "m' (sp - 8) = v" using m'(3)[rule_format, of "sp - 8"] by simp
  have "m' (sp - of_nat (8 * length (v # vs)) + of_nat (8 * j)) = rev (v # vs) ! j" if "j < length (v # vs)" for j
  proof (cases "j = ?n")
    case True
    then show ?thesis using top by (simp add: nth_append)
  next
    case False
    then show ?thesis using that m'(2)[unfolded e] by (simp add: nth_append)
  qed
  moreover have "m' a = m a" if "unat a < unat sp - 8 * length (v # vs) \<or> unat sp \<le> unat a" for a
  proof -
    have "a \<noteq> sp - 8" using that Cons.prems(1) u1 by auto
    moreover have "unat a < unat (sp - 8) - 8 * ?n \<or> unat (sp - 8) \<le> unat a" using that u1 by auto
    ultimately show ?thesis using m'(3)[rule_format, of a] by simp
  qed
  ultimately show ?case using p1 m'(1) e by auto
qed

text \<open>The 22 words of a new task in the order of increasing addresses, as \<open>jump_to_task\<close> and the end of \<open>irq0\<close> pop them.\<close>

definition popped_frame :: "u64 \<Rightarrow> u64 \<Rightarrow> u64 list" where
  "popped_frame entry stack_top = replicate 15 0 @ [32, 0, entry, 0x08, 0x202, stack_top, 0]"

lemma rev_first_frame: "rev (first_frame st entry) = popped_frame entry st"
  by (simp add: first_frame_def popped_frame_def)

lemma length_first_frame: "length (first_frame st entry) = 22"
  by (simp add: first_frame_def)

text \<open>The top of the stack of task \<open>idx\<close>, and the frame that lies under it.\<close>

definition stack_top_of :: "u64 \<Rightarrow> nat \<Rightarrow> u64" where
  "stack_top_of stacks idx = (task_stack stacks (of_nat idx) + task_stack_size) AND NOT 0xF"

definition frame_at :: "(u64 \<Rightarrow> u64) \<Rightarrow> u64 \<Rightarrow> u64 list \<Rightarrow> bool" where
  "frame_at m sp ws \<longleftrightarrow> (\<forall>j < length ws. m (sp + of_nat (8 * j)) = ws ! j)"

definition stacks_ok :: "u64 \<Rightarrow> bool" where
  "stacks_ok stacks \<longleftrightarrow> unat stacks + 16 * 16777216 < 2 ^ 64"

lemma unat_task_stack:
  assumes "stacks_ok stacks" "idx < 16"
  shows "unat (task_stack stacks (of_nat idx)) = unat stacks + idx * 16777216"
    "unat (stack_top_of stacks idx) = (unat stacks + Suc idx * 16777216) div 16 * 16"
proof -
  have "unat (of_nat idx * task_stack_size :: u64) = idx * 16777216"
    using assms(2) by (simp add: task_stack_size_def unat_word_ariths unat_of_nat)
  moreover have "unat stacks + idx * 16777216 < 2 ^ 64" using assms by (simp add: stacks_ok_def)
  ultimately show t: "unat (task_stack stacks (of_nat idx)) = unat stacks + idx * 16777216"
    by (simp add: task_stack_def unat_word_ariths)
  have "unat (task_stack stacks (of_nat idx) + task_stack_size) = unat stacks + Suc idx * 16777216"
    using assms t by (simp add: unat_word_ariths task_stack_size_def stacks_ok_def)
  then show "unat (stack_top_of stacks idx) = (unat stacks + Suc idx * 16777216) div 16 * 16"
    by (simp only: stack_top_of_def unat_align16)
qed

lemma task_create_effect:
  assumes "stacks_ok stacks" "idx < 16" "idx < length (tasks s)"
  shows "\<exists>m. task_create idx (task_stack stacks (of_nat idx)) task_stack_size entry s =
      Some (s\<lparr>stack_mem := m, tasks := (tasks s)[idx := (tasks s ! idx)\<lparr>t_rsp := stack_top_of stacks idx - 176, t_active := 1\<rparr>]\<rparr>) \<and>
    frame_at m (stack_top_of stacks idx - 176) (popped_frame entry (stack_top_of stacks idx)) \<and>
    (\<forall>a. unat a < unat stacks + idx * 16777216 \<or> unat stacks + Suc idx * 16777216 \<le> unat a \<longrightarrow> m a = stack_mem s a)"
proof -
  let ?stack = "task_stack stacks (of_nat idx)" and ?top = "stack_top_of stacks idx"
  note u = unat_task_stack[OF assms(1,2)]
  have top: "unat ?stack + 8 * 22 \<le> unat ?top" "unat ?top \<le> unat ?stack + unat task_stack_size"
    using div_mult_mod_eq[of "unat stacks + Suc idx * 16777216" 16] mod_less_divisor[of 16 "unat stacks + Suc idx * 16777216"]
    unfolding u by (simp_all add: task_stack_size_def)
  obtain m where m: "push_words ?stack task_stack_size (first_frame ?top entry) (?top, stack_mem s) = Some (?top - 176, m)"
      "\<forall>j < 22. m (?top - 176 + of_nat (8 * j)) = popped_frame entry ?top ! j"
      "\<forall>a. unat a < unat ?top - 176 \<or> unat ?top \<le> unat a \<longrightarrow> m a = stack_mem s a"
    using push_words_effect[of ?stack "first_frame ?top entry" ?top task_stack_size "stack_mem s",
      unfolded length_first_frame rev_first_frame, OF top] by auto
  have "m a = stack_mem s a" if "unat a < unat stacks + idx * 16777216 \<or> unat stacks + Suc idx * 16777216 \<le> unat a" for a
    using that m(3) top by (auto simp: u(1) task_stack_size_def)
  moreover have "frame_at m (?top - 176) (popped_frame entry ?top)"
    using m(2) by (simp add: frame_at_def popped_frame_def)
  moreover have "task_create idx ?stack task_stack_size entry s =
      Some (s\<lparr>stack_mem := m, tasks := (tasks s)[idx := (tasks s ! idx)\<lparr>t_rsp := ?top - 176, t_active := 1\<rparr>]\<rparr>)"
    unfolding task_create_def Let_def stack_top_of_def[symmetric] m(1) using assms(3) by simp
  ultimately show ?thesis by blast
qed

lemma copy_name_after_nul: "copy_name_from name i n True dst = dst"
  by (induction n arbitrary: i dst) simp_all

lemma length_copy_name [simp]: "length (copy_name_from name i n ou dst) = length dst"
  by (induction n arbitrary: i ou dst) simp_all

lemma nth_copy_name:
  "is_cstring name \<Longrightarrow> i \<le> length name \<Longrightarrow> k < length dst \<Longrightarrow> copy_name_from name i n False dst ! k =
     (if i \<le> k \<and> k < i + n \<and> k \<le> length name then cat name k else dst ! k)"
proof (induction n arbitrary: i dst)
  case 0
  then show ?case by auto
next
  case (Suc n)
  show ?case
  proof (cases "i = length name")
    case True
    then show ?thesis using Suc.prems by (auto simp: copy_name_after_nul nth_update)
  next
    case False
    then have lt: "Suc i \<le> length name" using Suc.prems(2) by simp
    then have nz: "cat name i \<noteq> 0"
      using is_cstring_cat[OF Suc.prems(1), of i] by (simp del: cat_nth)
    with lt show ?thesis
      using Suc.IH[of "i + 1" "dst[i := cat name i]"] Suc.prems by (auto simp: nth_update)
  qed
qed

lemma cstr_of_copy_name:
  assumes "is_cstring name" "length dst = 32"
  shows "length name < 32 \<Longrightarrow> cstr_of (copy_name_from name 0 32 False dst) = name"
    and "length name < 32 \<Longrightarrow> 0 \<in> set (copy_name_from name 0 32 False dst)"
    and "32 \<le> length name \<Longrightarrow> copy_name_from name 0 32 False dst = take 32 name"
proof -
  let ?d = "copy_name_from name 0 32 False dst"
  note n = nth_copy_name[OF assms(1), of 0 _ dst 32]
  assume "length name < 32"
  then have d: "?d = name @ 0 # drop (Suc (length name)) dst"
    using assms(2) by (intro nth_equalityI) (auto simp: n nth_append nth_Cons' less_Suc_eq_le)
  show "cstr_of ?d = name" unfolding d by (rule cstr_of_terminated[OF assms(1)])
  show "0 \<in> set ?d" unfolding d by simp
next
  assume "32 \<le> length name"
  then show "copy_name_from name 0 32 False dst = take 32 name"
    using assms(2) by (intro nth_equalityI) (auto simp: nth_copy_name[OF assms(1)])
qed

lemma set_path_text:
  assumes "is_cstring run_path" "length dst = 1024"
  shows "cstr_of ((copy_into dst 0 run_path (min (length run_path) 1023))[min (length run_path) 1023 := 0]) = take 1023 run_path"
proof -
  let ?n = "min (length run_path) 1023"
  have "(copy_into dst 0 run_path ?n)[?n := 0] = take ?n run_path @ 0 # drop (Suc ?n) dst"
    using assms(2) by (subst copy_into_eq) (auto simp: list_update_append simp flip: Cons_nth_drop_Suc)
  moreover have "take ?n run_path = take 1023 run_path" by (simp add: min_def)
  ultimately show ?thesis using assms(1) by simp
qed

definition new_task :: "u64 \<Rightarrow> u64 \<Rightarrow> cstring \<Rightarrow> cstring \<Rightarrow> task \<Rightarrow> nat \<Rightarrow> task" where
  "new_task stacks entry run_path name t idx =
     \<lparr>t_rsp = stack_top_of stacks idx - 176, t_active = 1, t_name = copy_name_from name 0 32 False (t_name t),
      t_run_path = (copy_into (t_run_path t) 0 run_path (min (length run_path) 1023))[min (length run_path) 1023 := 0]\<rparr>"

lemma creat_task_func_eq: "creat_task_func stacks entry name s = creat_task_path stacks entry [] name s"
  by (simp add: creat_task_func_def creat_task_path_def)

lemma creat_task_full: "16 \<le> unat (task_count s) \<Longrightarrow> creat_task_path stacks entry run_path name s = Some s"
  by (simp add: creat_task_path_def max_tasks_def word_le_nat_alt)

lemma creat_task_effect:
  assumes "sched_ok s" "stacks_ok stacks" "unat (task_count s) < 16"
  shows "let n = unat (task_count s) in
    \<exists>s'. creat_task_path stacks entry run_path name s = Some s' \<and> sched_ok s' \<and> unat (task_count s') = Suc n \<and>
      tasks s' = (tasks s)[n := new_task stacks entry run_path name (tasks s ! n) n] \<and>
      current_task_id s' = current_task_id s \<and> tick_count s' = tick_count s \<and> eoi_out s' = eoi_out s \<and>
      frame_at (stack_mem s') (stack_top_of stacks n - 176) (popped_frame entry (stack_top_of stacks n)) \<and>
      (\<forall>a. unat a < unat stacks + n * 16777216 \<or> unat stacks + Suc n * 16777216 \<le> unat a \<longrightarrow>
        stack_mem s' a = stack_mem s a)"
proof -
  define n where "n = unat (task_count s)"
  have len: "length (tasks s) = 16" "n < 16" and tok: "task_ok (tasks s ! n)"
    using assms(1,3) sched_ok_task[OF assms(1), of n] by (simp_all add: sched_ok_def n_def)
  have w: "of_nat n = task_count s" by (simp add: n_def)
  define ts where "ts = (tasks s)[n := (tasks s ! n)\<lparr>t_name := copy_name_from name 0 32 False (t_name (tasks s ! n)),
      t_run_path := (copy_into (t_run_path (tasks s ! n)) 0 run_path (min (length run_path) 1023))[min (length run_path) 1023 := 0]\<rparr>]"
  have lts: "n < length (tasks (s\<lparr>tasks := ts\<rparr>))" using len by (simp add: ts_def)
  obtain m where m: "task_create n (task_stack stacks (task_count s)) task_stack_size entry (s\<lparr>tasks := ts\<rparr>) =
      Some (s\<lparr>stack_mem := m, tasks := ts[n := (ts ! n)\<lparr>t_rsp := stack_top_of stacks n - 176, t_active := 1\<rparr>]\<rparr>)"
    "frame_at m (stack_top_of stacks n - 176) (popped_frame entry (stack_top_of stacks n))"
    "\<forall>a. unat a < unat stacks + n * 16777216 \<or> unat stacks + Suc n * 16777216 \<le> unat a \<longrightarrow> m a = stack_mem s a"
    using task_create_effect[OF assms(2) len(2) lts, of entry] by (auto simp: w)
  have ts': "ts[n := (ts ! n)\<lparr>t_rsp := stack_top_of stacks n - 176, t_active := 1\<rparr>] =
      (tasks s)[n := new_task stacks entry run_path name (tasks s ! n) n]"
    using len by (cases "tasks s ! n") (simp add: ts_def new_task_def)
  have "task_ok (new_task stacks entry run_path name (tasks s ! n) n)"
    using tok by (simp add: task_ok_def new_task_def)
  then have ok: "sched_ok (s\<lparr>tasks := (tasks s)[n := new_task stacks entry run_path name (tasks s ! n) n]\<rparr>)"
    by (rule sched_ok_update[OF assms(1)])
  have u: "unat (task_count s + 1) = Suc n" using len(2) by (simp add: n_def unat_word_ariths)
  then have c: "task_count s + 1 \<noteq> 0" by auto
  have cur: "unat (current_task_id s) < Suc n" using assms(1) by (auto simp: sched_ok_def n_def split: if_splits)
  have run: "creat_task_path stacks entry run_path name s =
      Some (s\<lparr>stack_mem := m, tasks := (tasks s)[n := new_task stacks entry run_path name (tasks s ! n) n],
        task_count := task_count s + 1\<rparr>)"
    using len m(1) assms(3) by (simp add: creat_task_path_def max_tasks_def word_le_nat_alt copy_task_name_def set_run_path_def
        Let_def ts' flip: n_def ts_def)
  show ?thesis
    using ok m(2,3) u c cur len by (simp add: run Let_def sched_ok_def flip: n_def)
qed

section \<open>Deleting tasks\<close>

lemma names_differ_iff: "names_differ b name len \<longleftrightarrow> (\<exists>i < len. b ! i \<noteq> cat name i)"
  by (induction len) (auto simp: names_differ_def less_Suc_eq)

lemma names_equal:
  assumes "length (cstr_of b) = length name"
  shows "\<not> names_differ b name (length (cstr_of b)) \<longleftrightarrow> cstr_of b = name"
proof -
  have "cstr_of b = take (length (cstr_of b)) b"
    unfolding cstr_of_def by (rule takeWhile_eq_take)
  then have n: "i < length name \<Longrightarrow> cstr_of b ! i = b ! i" for i using assms by (metis nth_take)
  have "cstr_of b = name \<longleftrightarrow> (\<forall>i < length name. cstr_of b ! i = name ! i)"
    using assms by (simp add: list_eq_iff_nth_eq[of "cstr_of b" name])
  then show ?thesis by (simp add: names_differ_iff assms n)
qed

definition has_name :: "sched \<Rightarrow> cstring \<Rightarrow> nat \<Rightarrow> bool" where
  "has_name s name i \<longleftrightarrow> cstr_of (t_name (tasks s ! i)) = name"

definition names_terminated :: "sched \<Rightarrow> bool" where
  "names_terminated s \<longleftrightarrow> (\<forall>i < unat (task_count s). 0 \<in> set (t_name (tasks s ! i)))"

definition stop_task :: "nat \<Rightarrow> sched \<Rightarrow> sched" where
  "stop_task i s = s\<lparr>tasks := (tasks s)[i := (tasks s ! i)\<lparr>t_active := 0\<rparr>]\<rparr>"

lemma delet_from_effect:
  assumes "\<forall>j < i + n. 0 \<in> set (t_name (tasks s ! j))" "i + n \<le> length (tasks s)"
  shows "delet_from i n name s =
    Some (case List.find (has_name s name) [i..<i + n] of None \<Rightarrow> s | Some j \<Rightarrow> stop_task j s)"
  using assms
proof (induction n arbitrary: i)
  case 0
  then show ?case by simp
next
  case (Suc n)
  have up: "[i..<i + Suc n] = i # [Suc i..<Suc i + n]" by (simp add: upt_rec)
  let ?b = "t_name (tasks s ! i)"
  have pk: "peek (tasks s) i = Some (tasks s ! i)" using Suc.prems(2) by simp
  have len: "cstrlen ?b = Some (length (cstr_of ?b))" using Suc.prems(1) by (simp add: cstrlen_def)
  have "delet_from (Suc i) n name s =
      Some (case List.find (has_name s name) [Suc i..<Suc i + n] of None \<Rightarrow> s | Some j \<Rightarrow> stop_task j s)"
    by (rule Suc.IH) (use Suc.prems in auto)
  note IH = this
  show ?case
  proof (cases "has_name s name i")
    case True
    then have b: "cstr_of ?b = name" by (simp add: has_name_def)
    have "\<not> names_differ ?b name (length name)" using names_equal[of ?b name] b by simp
    then show ?thesis unfolding up using True by (simp add: pk len b stop_task_def)
  next
    case False
    then have "cstr_of ?b \<noteq> name" by (simp add: has_name_def)
    then have "length (cstr_of ?b) = length name \<Longrightarrow> names_differ ?b name (length name)"
      using names_equal[of ?b name] by auto
    then have "delet_from i (Suc n) name s = delet_from (Suc i) n name s" by (simp add: pk len)
    then show ?thesis unfolding up using False IH by simp
  qed
qed

section \<open>Steps\<close>

text \<open>
  What happens to the scheduler in a running system, with the addresses of the stacks: a timer interrupt,
  creation and deletion of tasks by the shell, and the exit of the current task.
\<close>

inductive sched_step :: "u64 \<Rightarrow> sched \<Rightarrow> sched \<Rightarrow> bool" for stacks where
  timer: "schedule r s = Some (r', s') \<Longrightarrow> sched_step stacks s s'"
| creat_path: "creat_task_path stacks entry run_path name s = Some s' \<Longrightarrow> sched_step stacks s s'"
| creat_func: "creat_task_func stacks entry name s = Some s' \<Longrightarrow> sched_step stacks s s'"
| delete: "delet_task name s = Some s' \<Longrightarrow> sched_step stacks s s'"
| exit: "task_exit r s = Some (r', s') \<Longrightarrow> sched_step stacks s s'"

lemma schedule_ok: "sched_ok s \<Longrightarrow> schedule r s = Some (r', s') \<Longrightarrow> sched_ok s' \<and> task_count s' = task_count s"
proof (cases "task_count s = 0")
  case True
  then show "sched_ok s \<Longrightarrow> schedule r s = Some (r', s') \<Longrightarrow> ?thesis" by (simp add: schedule_def)
next
  case False
  assume ok: "sched_ok s" and some: "schedule r s = Some (r', s')"
  have "\<exists>i. runnable s i"
  proof (rule ccontr)
    assume "\<nexists>i. runnable s i"
    then show False using schedule_diverges[OF ok False, of r] some by simp
  qed
  then obtain i where "runnable s i" ..
  from schedule_effect[OF ok this, of r] some show ?thesis by auto
qed

lemma stop_task_ok: "sched_ok s \<Longrightarrow> i < 16 \<Longrightarrow> sched_ok (stop_task i s)"
  unfolding stop_task_def by (rule sched_ok_update) (auto simp: sched_ok_def task_ok_def)

lemma delet_from_ok: "sched_ok s \<Longrightarrow> delet_from i n name s = Some s' \<Longrightarrow> sched_ok s'"
proof (induction n arbitrary: i)
  case 0
  then show ?case by simp
next
  case (Suc n)
  from Suc.prems(2) obtain l where i: "i < length (tasks s)" "cstrlen (t_name (tasks s ! i)) = Some l"
    by (auto simp: peek_def bind_eq_Some_conv split: if_splits)
  with Suc.prems(1) have "i < 16" by (simp add: sched_ok_def)
  then show ?case
    using Suc i stop_task_ok[OF Suc.prems(1), of i] by (auto simp: stop_task_def split: if_splits)
qed

lemma task_count_cases: "sched_ok s \<Longrightarrow> unat (task_count s) < 16 \<or> 16 \<le> unat (task_count s)"
  by arith

lemma sched_step_ok:
  assumes "sched_step stacks s s'" "sched_ok s" "stacks_ok stacks"
  shows "sched_ok s'"
  using assms(1)
proof cases
  case (timer r r')
  then show ?thesis using schedule_ok[OF assms(2)] by blast
next
  case (creat_path entry run_path name)
  then show ?thesis
    using creat_task_effect[OF assms(2,3), of entry run_path name] creat_task_full[of s stacks entry run_path name]
      task_count_cases[OF assms(2)] assms(2) by (auto simp: Let_def)
next
  case (creat_func entry name)
  then show ?thesis
    using creat_task_effect[OF assms(2,3), of entry "[]" name] creat_task_full[of s stacks entry "[]" name]
      task_count_cases[OF assms(2)] assms(2) by (auto simp: Let_def creat_task_func_eq)
next
  case (delete name)
  then show ?thesis using delet_from_ok[OF assms(2)] assms(2) by (auto simp: delet_task_def split: if_splits)
next
  case (exit r r')
  then obtain t where t: "peek (tasks s) (unat (current_task_id s)) = Some t"
    "schedule r (stop_task (unat (current_task_id s)) s) = Some (r', s')"
    by (auto simp: task_exit_def bind_eq_Some_conv stop_task_def peek_def Let_def split: if_splits)
  then have "unat (current_task_id s) < 16" using assms(2) by (auto simp: peek_def sched_ok_def split: if_splits)
  then show ?thesis using schedule_ok[OF stop_task_ok[OF assms(2)] t(2)] by blast
qed

end
