(* ===== verification/SchedProps.thy ===== *)
theory SchedProps
  imports Sched
begin

text \<open>
  What the scheduler promises: the order of tasks, fairness, when it returns, the first switch to a new task, deletion,
  the invariant of all its operations, and the timer.
\<close>

section \<open>Fairness\<close>

text \<open>A sequence of timer interrupts with the stack pointers that they save.\<close>

fun timer_run :: "u64 list \<Rightarrow> sched \<Rightarrow> sched option" where
  "timer_run [] s = Some s"
| "timer_run (r # rs) s = do { (r', s) \<leftarrow> schedule r s; timer_run rs s }"

lemma runnable_saved:
  assumes "tasks s' = (tasks s)[c := (tasks s ! c)\<lparr>t_rsp := r\<rparr>]" "task_count s' = task_count s"
  shows "runnable s' i \<longleftrightarrow> runnable s i"
proof -
  have "t_active (tasks s' ! i) = t_active (tasks s ! i)"
    unfolding assms(1) by (cases "c < length (tasks s)"; cases "i = c") (simp_all add: nth_update)
  then show ?thesis by (simp add: runnable_def assms(2))
qed

lemma reach_task:
  assumes "sched_ok s" "runnable s i" "(unat (current_task_id s) + Suc d) mod unat (task_count s) = i"
    "d < length rs"
  shows "\<exists>j s'. 1 \<le> j \<and> j \<le> Suc d \<and> timer_run (take j rs) s = Some s' \<and> unat (current_task_id s') = i"
  using assms
proof (induction d arbitrary: s rs rule: less_induct)
  case (less d)
  obtain r rs' where rs: "rs = r # rs'" using less.prems(4) by (cases rs) auto
  from schedule_effect[OF less.prems(1,2), of r] obtain s' where
    s': "schedule r s = Some (t_rsp (tasks s' ! next_task s), s')" "sched_ok s'"
      "unat (current_task_id s') = next_task s" "task_count s' = task_count s"
      "tasks s' = (tasks s)[unat (current_task_id s) := (tasks s ! unat (current_task_id s))\<lparr>t_rsp := r\<rparr>]"
    by blast
  have le: "turn s \<le> d" using turn_runnable(3)[OF less.prems(1,2)] less.prems(3) .
  show ?case
  proof (cases "turn s = d")
    case True
    then have "unat (current_task_id s') = i" using less.prems(3) s'(3) by (simp add: next_task_def)
    then show ?thesis using s'(1) rs by (intro exI[of _ 1] exI[of _ s']) simp
  next
    case False
    define d' where "d' = d - Suc (turn s)"
    have d': "d' < d" "turn s + Suc d' = d" using le False by (simp_all add: d'_def)
    have "(unat (current_task_id s') + Suc d') mod unat (task_count s')
        = (unat (current_task_id s) + Suc (turn s) + Suc d') mod unat (task_count s)"
      by (simp only: s' next_task_def mod_add_left_eq)
    also have "\<dots> = (unat (current_task_id s) + Suc d) mod unat (task_count s)"
      by (simp only: d'(2)[symmetric] add.assoc add_Suc_right add_Suc)
    also note less.prems(3)
    finally obtain j t where "1 \<le> j" "j \<le> Suc d'" "timer_run (take j rs') s' = Some t" "unat (current_task_id t) = i"
      using less.IH[OF d'(1) s'(2), of rs'] runnable_saved[OF s'(5,4)] less.prems(2,4) d' rs by auto
    then show ?thesis
      using d' s'(1) rs by (intro exI[of _ "Suc j"] exI[of _ t]) simp
  qed
qed

section \<open>Sleeping\<close>

lemma ticks_grow:
  assumes "\<And>m. tick_count ((hlt ^^ m) s) < target \<Longrightarrow> \<exists>k. tick_count ((hlt ^^ m) s) < tick_count ((hlt ^^ (m + k)) s)"
    and "v \<le> unat target"
  shows "\<exists>m. v \<le> unat (tick_count ((hlt ^^ m) s))"
  using assms(2)
proof (induction v)
  case 0
  then show ?case by simp
next
  case (Suc v)
  then obtain m where m: "v \<le> unat (tick_count ((hlt ^^ m) s))" by auto
  show ?case
  proof (cases "Suc v \<le> unat (tick_count ((hlt ^^ m) s))")
    case True
    then show ?thesis by blast
  next
    case False
    then have "tick_count ((hlt ^^ m) s) < target" using Suc.prems by (simp add: word_less_nat_alt)
    from assms(1)[OF this] obtain k where "tick_count ((hlt ^^ m) s) < tick_count ((hlt ^^ (m + k)) s)" ..
    then show ?thesis using m by (intro exI[of _ "m + k"]) (simp add: word_less_nat_alt)
  qed
qed

lemma sleep_until_runs:
  assumes "\<forall>j < m. tick_count ((hlt ^^ j) s) < target" "target \<le> tick_count ((hlt ^^ m) s)"
  shows "sleep_until hlt target s = Some ((hlt ^^ m) s)"
  using assms
proof (induction m arbitrary: s)
  case 0
  then show ?case by (subst sleep_until.simps) (auto simp: pit_get_ticks_def)
next
  case (Suc m)
  have "\<forall>j < m. tick_count ((hlt ^^ j) (hlt s)) < target"
    using Suc.prems(1) by (metis Suc_mono funpow_Suc_right comp_apply)
  moreover have "target \<le> tick_count ((hlt ^^ m) (hlt s))"
    using Suc.prems(2) by (simp add: funpow_swap1)
  ultimately have "sleep_until hlt target (hlt s) = Some ((hlt ^^ m) (hlt s))" by (rule Suc.IH)
  moreover have "tick_count s < target" using Suc.prems(1)[rule_format, of 0] by simp
  ultimately show ?case by (subst sleep_until.simps) (simp add: pit_get_ticks_def funpow_swap1)
qed

lemma unat_Suc_word': "unat (x :: u64) < 8 \<Longrightarrow> unat (x + 1) = unat x + 1"
  by (simp add: unat_word_ariths)

section \<open>Properties\<close>

text \<open>A table of three tasks, the second one stopped, with the first one running.\<close>

definition demo_sched :: sched where
  "demo_sched = \<lparr>tasks = [zero_task\<lparr>t_rsp := 0x1000, t_active := 1\<rparr>, zero_task, zero_task\<lparr>t_rsp := 0x3000, t_active := 1\<rparr>]
     @ replicate 13 zero_task, task_count = 3, current_task_id = 0, tick_count = 5, stack_mem = (\<lambda>a. 0), eoi_out = []\<rparr>"

lemma demo_sched_ok: "sched_ok demo_sched"
  by (simp add: sched_ok_def demo_sched_def task_ok_def zero_task_def)

lemma demo_runnable: "runnable demo_sched i \<longleftrightarrow> i = 0 \<or> i = 2"
proof (cases "i < 3")
  case True
  then consider "i = 0" | "i = 1" | "i = 2" by linarith
  then show ?thesis by cases (simp_all add: runnable_def demo_sched_def zero_task_def)
next
  case False
  then show ?thesis by (auto simp: runnable_def demo_sched_def)
qed

lemma demo_names: "names_terminated demo_sched"
proof -
  have "0 \<in> set (t_name (tasks demo_sched ! i))" if "i < 3" for i
  proof -
    from that consider "i = 0" | "i = 1" | "i = 2" by linarith
    then show ?thesis by cases (simp_all add: demo_sched_def zero_task_def)
  qed
  then show ?thesis by (simp add: names_terminated_def) (simp add: demo_sched_def)
qed

text \<open>C20. When some task is active, the timer interrupt returns the saved stack pointer of the next active task in
  cyclic order: the one it picks is active, no task between the interrupted one and it is, the interrupted task keeps the stack pointer it was
  interrupted with, nothing else of the table changes, and the interrupt is acknowledged once.\<close>

theorem schedule_round_robin:
  assumes "sched_ok s" "runnable s i"
  shows "\<exists>s' k. schedule r s = Some (t_rsp (tasks s' ! unat (current_task_id s')), s') \<and> sched_ok s' \<and>
    unat (current_task_id s') = (unat (current_task_id s) + Suc k) mod unat (task_count s) \<and>
    runnable s (unat (current_task_id s')) \<and>
    (\<forall>j < k. \<not> runnable s ((unat (current_task_id s) + Suc j) mod unat (task_count s))) \<and>
    tasks s' = (tasks s)[unat (current_task_id s) := (tasks s ! unat (current_task_id s))\<lparr>t_rsp := r\<rparr>] \<and>
    task_count s' = task_count s \<and> tick_count s' = tick_count s + 1 \<and> eoi_out s' = eoi_out s @ [(PIC1_COMMAND, 0x20)]"
proof -
  obtain s' where s': "schedule r s = Some (t_rsp (tasks s' ! next_task s), s')" "sched_ok s'"
      "unat (current_task_id s') = next_task s" "task_count s' = task_count s"
      "tasks s' = (tasks s)[unat (current_task_id s) := (tasks s ! unat (current_task_id s))\<lparr>t_rsp := r\<rparr>]"
      "tick_count s' = tick_count s + 1" "eoi_out s' = eoi_out s @ pic_send_eoi 0"
    using schedule_effect[OF assms, of r] by blast
  show ?thesis
    using s' turn_runnable(1,2)[OF assms]
    by (intro exI[of _ s'] exI[of _ "turn s"]) (simp add: next_task_def pic_send_eoi_def)
qed

theorem schedule_round_robin_witness:
  "\<exists>s'. schedule 0x1F80 demo_sched = Some (t_rsp (tasks s' ! unat (current_task_id s')), s') \<and>
     runnable demo_sched (unat (current_task_id s')) \<and> tick_count s' = 6"
proof -
  have "runnable demo_sched 0" "tick_count demo_sched = 5" by (simp add: demo_runnable, simp add: demo_sched_def)
  with schedule_round_robin[OF demo_sched_ok, of 0 "0x1F80"] show ?thesis by auto
qed

text \<open>C21. Round robin is fair: whatever stack pointers are saved, an active task is the current one after at most as
  many timer interrupts as there are tasks.\<close>

theorem schedule_fair:
  assumes "sched_ok s" "runnable s i" "length rs = unat (task_count s)"
  shows "\<exists>j s'. 1 \<le> j \<and> j \<le> unat (task_count s) \<and> timer_run (take j rs) s = Some s' \<and> unat (current_task_id s') = i"
proof -
  have i: "i < unat (task_count s)" using assms(2) by (simp add: runnable_def)
  then have "unat (current_task_id s) < unat (task_count s)" using assms(1) by (auto simp: sched_ok_def split: if_splits)
  from ring_reach[OF this i] obtain d where
    d: "d < unat (task_count s)" "(unat (current_task_id s) + Suc d) mod unat (task_count s) = i" .
  from reach_task[OF assms(1,2) d(2), of rs] d(1) assms(3) show ?thesis by fastforce
qed

theorem schedule_fair_witness:
  "\<exists>j s'. j \<le> 3 \<and> timer_run (take j [0x10, 0x20, 0x30]) demo_sched = Some s' \<and> unat (current_task_id s') = 2"
  using schedule_fair[OF demo_sched_ok, of 2 "[0x10, 0x20, 0x30]"] by (auto simp: demo_runnable) (auto simp: demo_sched_def)

text \<open>C22. With tasks in the table, the timer interrupt returns exactly when some task is active: if every task has been
  stopped, the search for the next one never ends.\<close>

theorem schedule_returns_iff:
  assumes "sched_ok s" "task_count s \<noteq> 0"
  shows "(\<exists>res. schedule r s = Some res) \<longleftrightarrow> (\<exists>i. runnable s i)"
  using schedule_diverges[OF assms, of r] schedule_effect[OF assms(1), of _ r] by (metis option.distinct(1))

theorem schedule_returns_iff_witness:
  "schedule 0 (demo_sched\<lparr>tasks := replicate 16 zero_task\<rparr>) = None"
proof -
  let ?s = "demo_sched\<lparr>tasks := replicate 16 zero_task\<rparr>"
  have "sched_ok ?s" "task_count ?s \<noteq> 0" by (simp_all add: sched_ok_def demo_sched_def task_ok_def zero_task_def)
  from schedule_returns_iff[OF this, of 0] have "\<nexists>res. schedule 0 ?s = Some res"
    by (auto simp: runnable_def demo_sched_def zero_task_def)
  then show ?thesis by (cases "schedule 0 ?s") auto
qed

text \<open>A new task is ready to run: in a table that is not full, \<open>creat_task_func\<close> adds one active entry with the given
  name, leaves every other entry and every word outside the new task's own stack alone, and stores at its saved stack pointer the 22 words that
  the switch pops: 15 zero registers, the two skipped words, and a return frame for the entry function
  in the kernel code segment with interrupts enabled and the aligned top of its stack.\<close>

lemma creat_task_ready:
  assumes "sched_ok s" "stacks_ok stacks" "unat (task_count s) < 16" "is_cstring name" "length name < 32"
  shows "let n = unat (task_count s); stack_top = stack_top_of stacks n in
    \<exists>s'. creat_task_func stacks entry name s = Some s' \<and> sched_ok s' \<and> unat (task_count s') = Suc n \<and>
      runnable s' n \<and> has_name s' name n \<and>
      (\<forall>i. i \<noteq> n \<longrightarrow> tasks s' ! i = tasks s ! i) \<and>
      frame_at (stack_mem s') (t_rsp (tasks s' ! n))
        (replicate 15 0 @ [32, 0, entry, 0x08, 0x202, stack_top, 0]) \<and> unat stack_top mod 16 = 0 \<and>
      (\<forall>a. unat a < unat stacks + n * 16777216 \<or> unat stacks + Suc n * 16777216 \<le> unat a \<longrightarrow>
        stack_mem s' a = stack_mem s a)"
proof -
  define n where "n = unat (task_count s)"
  have n: "n < 16" "length (tasks s) = 16" "length (t_name (tasks s ! n)) = 32"
    using assms(1,3) sched_ok_task[OF assms(1), of n] by (simp_all add: n_def sched_ok_def task_ok_def)
  obtain s' where s': "creat_task_path stacks entry [] name s = Some s'" "sched_ok s'" "unat (task_count s') = Suc n"
      "tasks s' = (tasks s)[n := new_task stacks entry [] name (tasks s ! n) n]"
      "frame_at (stack_mem s') (stack_top_of stacks n - 176) (popped_frame entry (stack_top_of stacks n))"
      "\<forall>a. unat a < unat stacks + n * 16777216 \<or> unat stacks + Suc n * 16777216 \<le> unat a \<longrightarrow>
        stack_mem s' a = stack_mem s a"
    using creat_task_effect[OF assms(1-3), of entry "[]" name] unfolding n_def Let_def by blast
  have t: "tasks s' ! n = new_task stacks entry [] name (tasks s ! n) n" using n by (simp add: s'(4))
  have "has_name s' name n"
    using cstr_of_copy_name(1)[OF assms(4) n(3) assms(5)] by (simp add: has_name_def t new_task_def)
  moreover have "runnable s' n" by (simp add: runnable_def s'(3) t new_task_def)
  moreover have "tasks s' ! i = tasks s ! i" if "i \<noteq> n" for i using that by (simp add: s'(4))
  moreover have "unat (stack_top_of stacks n) mod 16 = 0" using unat_task_stack(2)[OF assms(2) n(1)] by simp
  moreover have "frame_at (stack_mem s') (t_rsp (tasks s' ! n))
      (replicate 15 0 @ [32, 0, entry, 0x08, 0x202, stack_top_of stacks n, 0])"
    using s'(5) by (simp add: t new_task_def popped_frame_def)
  ultimately show ?thesis
    unfolding Let_def n_def[symmetric] creat_task_func_eq using s'(1,2,3,6) by (intro exI[of _ s']) simp
qed

lemma creat_task_ready_witness:
  "\<exists>s'. creat_task_func 0x100000 0xFFFF1234 (ascii ''shell'') demo_sched = Some s' \<and> runnable s' 3 \<and>
     has_name s' (ascii ''shell'') 3 \<and> stack_mem s' (t_rsp (tasks s' ! 3) + 136) = 0xFFFF1234"
proof -
  have n: "unat (task_count demo_sched) = 3" by (simp add: demo_sched_def)
  have "is_cstring (ascii ''shell'')" "length (ascii ''shell'') < 32" by (simp_all add: is_cstring_def ascii_def)
  from creat_task_ready[OF demo_sched_ok, of "0x100000", unfolded n Let_def, OF _ _ this, of "0xFFFF1234"]
  obtain s' where s': "creat_task_func 0x100000 0xFFFF1234 (ascii ''shell'') demo_sched = Some s'" "runnable s' 3"
      "has_name s' (ascii ''shell'') 3" "frame_at (stack_mem s') (t_rsp (tasks s' ! 3))
        (replicate 15 0 @ [32, 0, 0xFFFF1234, 0x08, 0x202, stack_top_of 0x100000 3, 0])"
    by (auto simp: stacks_ok_def)
  have "(replicate 15 0 @ [32, 0, 0xFFFF1234, 0x08, 0x202, stack_top_of 0x100000 3, 0]) ! 17 = (0xFFFF1234 :: u64)"
    by (simp add: nth_append)
  then have "stack_mem s' (t_rsp (tasks s' ! 3) + of_nat (8 * 17)) = 0xFFFF1234"
    using s'(4)[unfolded frame_at_def, rule_format, of 17] by simp
  with s' show ?thesis by auto
qed

text \<open>Deleting a task by name, when all names are terminated and the table is not full, stops the first task of that
  name and nothing else, and does nothing when there is none; when the table holds 16 tasks it does
  nothing even if a task has the name.\<close>

lemma delet_task_first:
  assumes "sched_ok s" "names_terminated s"
  shows "delet_task name s = Some (if unat (task_count s) = 16 then s
    else case List.find (has_name s name) [0..<unat (task_count s)] of None \<Rightarrow> s | Some j \<Rightarrow> stop_task j s)"
proof -
  have "unat (task_count s) \<le> 16" "length (tasks s) = 16" using assms(1) by (simp_all add: sched_ok_def)
  moreover have "(of_nat max_tasks \<le> task_count s) \<longleftrightarrow> 16 \<le> unat (task_count s)"
    by (simp add: max_tasks_def word_le_nat_alt)
  ultimately show ?thesis
    using delet_from_effect[of 0 "unat (task_count s)" s name] assms(2)
    by (auto simp: delet_task_def names_terminated_def)
qed

lemma delet_task_first_witness:
  "delet_task [] demo_sched = Some (stop_task 0 demo_sched)"
proof -
  from delet_task_first[OF demo_sched_ok demo_names, of "[]"] show ?thesis
    by (simp add: demo_sched_def has_name_def zero_task_def cstr_of_def upt_rec)
qed

text \<open>C40. A name of 32 bytes or more is stored without its terminator, and from then on deleting a task runs over the
  end of that name: \<open>delet_task\<close> reads outside the array for every name that no earlier task has.\<close>

theorem long_name_breaks_delete:
  assumes "sched_ok s" "stacks_ok stacks" "unat (task_count s) < 15" "names_terminated s"
    "is_cstring long_name" "32 \<le> length long_name"
    "List.find (has_name s name) [0..<unat (task_count s)] = None"
  shows "\<exists>s'. creat_task_func stacks entry long_name s = Some s' \<and> delet_task name s' = None"
proof -
  define n where "n = unat (task_count s)"
  have n: "n < 15" "length (tasks s) = 16" "length (t_name (tasks s ! n)) = 32"
    using assms(1,3) sched_ok_task[OF assms(1), of n] by (simp_all add: n_def sched_ok_def task_ok_def)
  have lt: "unat (task_count s) < 16" using assms(3) by simp
  obtain s' where s': "creat_task_path stacks entry [] long_name s = Some s'" "sched_ok s'" "unat (task_count s') = Suc n"
      "tasks s' = (tasks s)[n := new_task stacks entry [] long_name (tasks s ! n) n]"
    using creat_task_effect[OF assms(1,2) lt, of entry "[]" long_name] unfolding n_def Let_def by blast
  have "t_name (tasks s' ! n) = take 32 long_name"
    using cstr_of_copy_name(3)[OF assms(5) n(3) assms(6)] n by (simp add: s'(4) new_task_def)
  then have bad: "cstrlen (t_name (tasks s' ! n)) = None"
    using assms(5) by (auto simp: cstrlen_def is_cstring_def dest: in_set_takeD)
  have before: "tasks s' ! i = tasks s ! i" if "i < n" for i using that by (simp add: s'(4))
  have "delet_from i (Suc n - i) name s' = None" if "i \<le> n" for i
    using that
  proof (induction rule: inc_induct)
    case base
    then show ?case using bad n by (simp add: s'(4))
  next
    case (step i)
    let ?b = "t_name (tasks s ! i)"
    have "0 \<in> set ?b" using assms(4) step.hyps by (simp add: names_terminated_def n_def)
    then have len: "cstrlen ?b = Some (length (cstr_of ?b))" by (simp add: cstrlen_def)
    have "cstr_of ?b \<noteq> name" using assms(7) step.hyps by (auto simp: find_None_iff n_def has_name_def)
    then have "length (cstr_of ?b) = length name \<Longrightarrow> names_differ ?b name (length name)"
      using names_equal[of ?b name] by auto
    moreover have "peek (tasks s') i = Some (tasks s ! i)" using before[of i] step.hyps n by (simp add: s'(4))
    moreover have "Suc n - i = Suc (Suc n - Suc i)" using step.hyps by simp
    ultimately show ?case using step.IH len by simp
  qed
  from this[of 0] have "delet_from 0 (Suc n) name s' = None" by simp
  moreover have "\<not> of_nat max_tasks \<le> task_count s'" using s'(3) n by (simp add: max_tasks_def word_le_nat_alt)
  ultimately show ?thesis using s' by (simp add: delet_task_def creat_task_func_eq)
qed

theorem long_name_breaks_delete_witness:
  "\<exists>s'. creat_task_func 0x100000 0 (replicate 32 97) demo_sched = Some s' \<and> delet_task (ascii ''zz'') s' = None"
proof (rule long_name_breaks_delete[OF demo_sched_ok _ _ demo_names])
  have "\<not> has_name demo_sched (ascii ''zz'') i" if "i < 3" for i
  proof -
    from that consider "i = 0" | "i = 1" | "i = 2" by linarith
    then show ?thesis by cases (simp_all add: has_name_def demo_sched_def zero_task_def cstr_of_def ascii_def)
  qed
  then show "List.find (has_name demo_sched (ascii ''zz'')) [0..<unat (task_count demo_sched)] = None"
    by (auto simp: find_None_iff) (simp add: demo_sched_def)
qed (simp_all add: stacks_ok_def is_cstring_def, simp add: demo_sched_def)

text \<open>Creation never leaves the table: a full table is left alone, otherwise the next entry is filled.\<close>

lemma creat_task_total:
  assumes "sched_ok s" "stacks_ok stacks"
  shows "\<exists>t. creat_task_path stacks entry run_path name s = Some t \<and> sched_ok t \<and>
    (if unat (task_count s) = 16 then t = s
     else unat (task_count t) = Suc (unat (task_count s)) \<and> tasks t = (tasks s)[unat (task_count s) :=
       new_task stacks entry run_path name (tasks s ! unat (task_count s)) (unat (task_count s))])"
proof (cases "unat (task_count s) = 16")
  case True
  then show ?thesis using creat_task_full[of s stacks entry run_path name] assms(1) by simp
next
  case False
  then have "unat (task_count s) < 16" using assms(1) by (simp add: sched_ok_def)
  from creat_task_effect[OF assms this, of entry run_path name] show ?thesis using False by (auto simp: Let_def)
qed

lemma task_exit_returns:
  assumes "sched_ok s" "task_count s \<noteq> 0"
  shows "task_exit r s \<noteq> None \<longleftrightarrow> (\<exists>i. i \<noteq> unat (current_task_id s) \<and> runnable s i)"
proof -
  let ?c = "unat (current_task_id s)" and ?s = "stop_task (unat (current_task_id s)) s"
  have c: "?c < 16" "length (tasks s) = 16" using assms by (auto simp: sched_ok_def)
  have ex: "task_exit r s = schedule r ?s"
    using c by (simp add: task_exit_def stop_task_def)
  have ok: "sched_ok ?s" "task_count ?s \<noteq> 0" using stop_task_ok[OF assms(1) c(1)] assms(2) by (simp_all add: stop_task_def)
  have run: "runnable ?s i \<longleftrightarrow> i \<noteq> ?c \<and> runnable s i" for i
    using c by (auto simp: runnable_def stop_task_def nth_list_update)
  show ?thesis
  proof (cases "\<exists>i. runnable ?s i")
    case True
    then obtain i where "runnable ?s i" ..
    from schedule_effect[OF ok(1) this, of r] True show ?thesis unfolding ex run by auto
  next
    case False
    then show ?thesis using schedule_diverges[OF ok, of r] unfolding ex run by auto
  qed
qed

lemma delet_task_total:
  assumes "sched_ok s" "names_terminated s"
  shows "\<exists>t. delet_task name s = Some t \<and> sched_ok t \<and> task_count t = task_count s"
proof (cases "16 \<le> unat (task_count s)")
  case True
  then have "delet_task name s = Some s" by (simp add: delet_task_def max_tasks_def word_le_nat_alt)
  then show ?thesis using assms(1) by simp
next
  case False
  have b: "unat (task_count s) \<le> length (tasks s)" using assms(1) by (simp add: sched_ok_def)
  have d: "delet_task name s = delet_from 0 (unat (task_count s)) name s"
    using False by (simp add: delet_task_def max_tasks_def word_le_nat_alt)
  have "delet_from 0 (unat (task_count s)) name s =
      Some (case List.find (has_name s name) [0..<unat (task_count s)] of None \<Rightarrow> s | Some j \<Rightarrow> stop_task j s)"
    using delet_from_effect[of 0 "unat (task_count s)" s name] assms(2) b by (simp add: names_terminated_def)
  then obtain t where t: "delet_task name s = Some t" "t = s \<or> (\<exists>j. t = stop_task j s)"
    unfolding d by (cases "List.find (has_name s name) [0..<unat (task_count s)]") auto
  have "sched_ok t" using delet_from_ok[OF assms(1)] t(1) unfolding d by blast
  then show ?thesis using t by (auto simp: stop_task_def)
qed

text \<open>C23. In every state that timer interrupts, creation, deletion and exits of tasks can reach, the task table is well
  formed (16 entries with names of 32 and paths of 1024 bytes, at most 16 of them in use, the current task one of those) and
  the next operation stays inside it. Both creating functions return and keep the table well formed: with 16 tasks they change
  nothing, with fewer they fill the next entry and count it. Deletion returns and keeps the count as long as every stored name
  is terminated, and when there is a current task, its exit returns if and only if another task is active.\<close>

theorem sched_invariant:
  assumes "(sched_step stacks)\<^sup>*\<^sup>* s s'" "sched_ok s" "stacks_ok stacks"
  defines "n \<equiv> unat (task_count s')"
  shows "sched_ok s' \<and>
    (\<forall>entry run_path name. \<exists>t. creat_task_path stacks entry run_path name s' = Some t \<and> sched_ok t \<and>
      (if n = 16 then t = s' else unat (task_count t) = Suc n \<and>
        tasks t = (tasks s')[n := new_task stacks entry run_path name (tasks s' ! n) n])) \<and>
    (\<forall>entry name. \<exists>t. creat_task_func stacks entry name s' = Some t \<and> sched_ok t \<and>
      (if n = 16 then t = s' else unat (task_count t) = Suc n \<and>
        tasks t = (tasks s')[n := new_task stacks entry [] name (tasks s' ! n) n])) \<and>
    (\<forall>name. names_terminated s' \<longrightarrow> (\<exists>t. delet_task name s' = Some t \<and> sched_ok t \<and> task_count t = task_count s')) \<and>
    (\<forall>r. n \<noteq> 0 \<longrightarrow> (task_exit r s' \<noteq> None \<longleftrightarrow> (\<exists>i. i \<noteq> unat (current_task_id s') \<and> runnable s' i)))"
proof -
  from assms(1) have ok: "sched_ok s'"
    using assms(2,3) by (induction rule: rtranclp_induct) (auto intro: sched_step_ok)
  have "\<exists>t. creat_task_func stacks entry name s' = Some t \<and> sched_ok t \<and>
      (if n = 16 then t = s' else unat (task_count t) = Suc n \<and>
        tasks t = (tasks s')[n := new_task stacks entry [] name (tasks s' ! n) n])" for entry name
    unfolding n_def creat_task_func_eq by (rule creat_task_total[OF ok assms(3)])
  moreover have "task_exit r s' \<noteq> None \<longleftrightarrow> (\<exists>i. i \<noteq> unat (current_task_id s') \<and> runnable s' i)" if "n \<noteq> 0" for r
    by (rule task_exit_returns[OF ok]) (use that in \<open>auto simp: n_def\<close>)
  ultimately show ?thesis
    using ok creat_task_total[OF ok assms(3)] delet_task_total[OF ok] unfolding n_def by blast
qed

theorem sched_invariant_witness:
  "\<exists>s' t. (sched_step 0x100000)\<^sup>*\<^sup>* demo_sched s' \<and> sched_ok s' \<and> s' \<noteq> demo_sched \<and>
    creat_task_func 0x100000 0 [97] s' = Some t \<and> unat (task_count t) = 4"
proof -
  obtain s' where s': "schedule 7 demo_sched = Some (t_rsp (tasks s' ! unat (current_task_id s')), s')" "tick_count s' = 6"
    "task_count s' = 3"
    using schedule_effect[OF demo_sched_ok, of 0 7] by (auto simp: demo_runnable) (auto simp: demo_sched_def)
  then have st: "(sched_step 0x100000)\<^sup>*\<^sup>* demo_sched s'" by (blast intro: sched_step.timer)
  have "s' \<noteq> demo_sched" using s'(2) by (auto simp: demo_sched_def)
  moreover have "stacks_ok 0x100000" by (simp add: stacks_ok_def)
  note inv = sched_invariant[OF st demo_sched_ok this]
  then obtain t where "creat_task_func 0x100000 0 [97] s' = Some t" "unat (task_count t) = 4"
    unfolding s'(3) by fastforce
  ultimately show ?thesis using st inv by blast
qed

text \<open>For a frequency from 19 Hz up to the base frequency, \<open>pit_init\<close> programs channel 0 with exactly the quotient
  of the base frequency, low byte first; a frequency of 0 divides by zero.\<close>

lemma pit_divisor:
  assumes "19 \<le> unat f" "unat f \<le> 1193182"
  shows "\<exists>lo hi. pit_init f = Some [(0x43, 0x36), (0x40, lo), (0x40, hi)] \<and>
    unat lo + 256 * unat hi = 1193182 div unat f \<and> pit_init 0 = None"
proof -
  define d where "d = PIT_BASE_FREQUENCY div f"
  have ud: "unat d = 1193182 div unat f" by (simp add: d_def PIT_BASE_FREQUENCY_def unat_div)
  have "1193182 div unat f \<le> 1193182 div 19" using assms(1) by (intro div_le_mono2) simp_all
  then have small: "unat d < 65536" by (simp add: ud)
  have m: "(0xFF :: u32) = mask 8" by (simp add: mask_eq_exp_minus_1)
  have "(ucast (d AND 0xFF) :: u8) = ucast d" "(ucast (drop_bit 8 d AND 0xFF) :: u8) = ucast (drop_bit 8 d)"
    unfolding m by (rule bit_word_eqI, simp add: bit_simps)+
  then have lo: "unat (ucast (d AND 0xFF) :: u8) = unat d mod 256"
    and hi: "unat (ucast (drop_bit 8 d AND 0xFF) :: u8) = unat d div 256"
    using small by (simp_all add: unsigned_ucast_eq unsigned_drop_bit_eq drop_bit_eq_div take_bit_eq_mod unat_div)
  have "f \<noteq> 0" using assms(1) by auto
  then show ?thesis
    using lo hi by (simp add: pit_init_def Let_def ud flip: d_def)
qed

lemma pit_divisor_witness:
  "\<exists>lo hi. pit_init 100 = Some [(0x43, 0x36), (0x40, lo), (0x40, hi)] \<and> unat lo + 256 * unat hi = 11931"
  using pit_divisor[of 100] by auto

text \<open>As long as the timer keeps advancing while the target has not been reached, \<open>sleep_ms\<close> returns, after at least
  a tenth of the milliseconds in timer ticks and no later than the first wake-up at which so many have passed.\<close>

lemma sleep_ms_duration:
  assumes "unat ms * 100 < 2 ^ 64" "unat (tick_count s) + unat ms div 10 < 2 ^ 64"
    "\<And>m. unat (tick_count ((hlt ^^ m) s)) < unat (tick_count s) + unat ms div 10 \<Longrightarrow>
      \<exists>k. tick_count ((hlt ^^ m) s) < tick_count ((hlt ^^ (m + k)) s)"
  shows "\<exists>m. sleep_ms hlt ms s = Some ((hlt ^^ m) s) \<and>
    unat (tick_count s) + unat ms div 10 \<le> unat (tick_count ((hlt ^^ m) s)) \<and>
    (\<forall>j < m. unat (tick_count ((hlt ^^ j) s)) < unat (tick_count s) + unat ms div 10)"
proof -
  let ?goal = "unat (tick_count s) + unat ms div 10"
  define target where "target = tick_count s + (ms * 100) div 1000"
  have "unat (ms * 100) = unat ms * 100" using assms(1) by (simp add: unat_word_ariths)
  then have "unat ((ms * 100) div 1000) = unat ms div 10" by (simp add: unat_div)
  then have target: "unat target = ?goal" using assms(2) by (simp add: target_def unat_word_ariths)
  have "\<exists>m. ?goal \<le> unat (tick_count ((hlt ^^ m) s))"
    using ticks_grow[of hlt s target ?goal] assms(3) by (simp add: target word_less_nat_alt)
  then obtain m where m: "?goal \<le> unat (tick_count ((hlt ^^ m) s))"
      "\<forall>j < m. \<not> ?goal \<le> unat (tick_count ((hlt ^^ j) s))"
    using exists_least_iff[of "\<lambda>m. ?goal \<le> unat (tick_count ((hlt ^^ m) s))"] by blast
  have "sleep_until hlt target s = Some ((hlt ^^ m) s)"
    by (rule sleep_until_runs) (use m in \<open>auto simp: word_less_nat_alt word_le_nat_alt target\<close>)
  then have "sleep_ms hlt ms s = Some ((hlt ^^ m) s)"
    by (simp add: sleep_ms_def sleep_ticks_def Let_def pit_get_ticks_def flip: target_def)
  then show ?thesis using m by (intro exI[of _ m]) (simp add: not_le)
qed

lemma sleep_ms_duration_witness:
  "\<exists>m. sleep_ms (\<lambda>s. s\<lparr>tick_count := tick_count s + 1\<rparr>) 35 demo_sched =
      Some (((\<lambda>s. s\<lparr>tick_count := tick_count s + 1\<rparr>) ^^ m) demo_sched) \<and>
    8 \<le> unat (tick_count (((\<lambda>s. s\<lparr>tick_count := tick_count s + 1\<rparr>) ^^ m) demo_sched))"
proof -
  let ?h = "\<lambda>s :: sched. s\<lparr>tick_count := tick_count s + 1\<rparr>"
  have t: "tick_count ((?h ^^ m) demo_sched) = 5 + of_nat m" for m
    by (induction m) (simp_all add: demo_sched_def)
  have u: "tick_count demo_sched = 5" by (simp add: demo_sched_def)
  have "\<exists>k. tick_count ((?h ^^ m) demo_sched) < tick_count ((?h ^^ (m + k)) demo_sched)"
    if "unat (tick_count ((?h ^^ m) demo_sched)) < unat (tick_count demo_sched) + unat (35 :: u64) div 10" for m
  proof -
    have "unat (5 + of_nat m :: u64) < 8" using that unfolding t u by simp
    then have "x < x + 1" if "x = (5 + of_nat m :: u64)" for x
      using that unat_Suc_word'[of x] by (simp only: word_less_nat_alt)
    then show ?thesis unfolding t by (intro exI[of _ 1]) (simp add: add.assoc)
  qed
  from sleep_ms_duration[of 35 demo_sched ?h, OF _ _ this] show ?thesis by (auto simp: u)
qed

end
