(* ===== verification/AtaDrive.thy ===== *)
theory AtaDrive
  imports Ata
begin

text \<open>
  A drive that follows the ATA register protocol, as an instance of the port parameter of \<open>Ata\<close>: it
  shows that the hypotheses the file system makes about \<open>ata.h\<close> are met by the driver on a drive that
  behaves as the ATA standard describes programmed I/O. A command keeps the drive busy (BSY) for
  \<open>dlatency\<close> status reads, and for a data command \<open>ddelay\<close> more status reads show neither BSY nor
  DRQ. As long as BSY is set the drive ignores every register write and the status register is what
  any register read returns; words move through the data port only while DRQ is set. A data block
  is one sector: after its 256 words the drive is busy again and requests the next block anew.
  The driver does not wait for that second request (\<open>ata.c:55\<close>, \<open>ata.c:99\<close>), so its transfers are
  correct for one sector, the only count \<open>fs.c\<close> uses; \<open>ata_second_sector_lost\<close> shows what a read of
  two sectors returns.
\<close>

section \<open>Words and bytes\<close>

fun words_of_bytes :: "bytes \<Rightarrow> u16 list" where
  "words_of_bytes (lo # hi # bs) = (ucast lo OR push_bit 8 (ucast hi)) # words_of_bytes bs"
| "words_of_bytes _ = []"

fun bytes_of_words :: "u16 list \<Rightarrow> bytes" where
  "bytes_of_words [] = []"
| "bytes_of_words (w # ws) = ucast w # ucast (drop_bit 8 w) # bytes_of_words ws"

lemma length_bytes_of_words [simp]: "length (bytes_of_words ws) = 2 * length ws"
  by (induction ws) simp_all

lemma bytes_of_words_append: "bytes_of_words (xs @ ys) = bytes_of_words xs @ bytes_of_words ys"
  by (induction xs) simp_all

lemma word_halves [simp]:
  "(ucast (ucast (lo :: u8) OR push_bit 8 (ucast (hi :: u8)) :: u16) :: u8) = lo"
  "(ucast (drop_bit 8 (ucast (lo :: u8) OR push_bit 8 (ucast (hi :: u8)) :: u16)) :: u8) = hi"
  by (rule bit_word_eqI, auto simp: bit_simps dest: bit_imp_le_length)+

lemma word_high_half [simp]:
  "(ucast (drop_bit 8 (ucast (lo :: u8)) OR drop_bit 8 (push_bit 8 (ucast (hi :: u8))) :: u16) :: u8) = hi"
  using word_halves(2)[of lo hi] by (simp only: drop_bit_or)

lemma length_words_of_bytes: "even (length bs) \<Longrightarrow> length (words_of_bytes bs) = length bs div 2"
  by (induction bs rule: words_of_bytes.induct) auto

lemma bytes_of_words_of_bytes: "even (length bs) \<Longrightarrow> bytes_of_words (words_of_bytes bs) = bs"
  by (induction bs rule: words_of_bytes.induct) auto

lemma words_of_bytes_append:
  "even (length xs) \<Longrightarrow> words_of_bytes (xs @ ys) = words_of_bytes xs @ words_of_bytes ys"
  by (induction xs rule: words_of_bytes.induct) auto

section \<open>The drive\<close>

datatype drive_phase = Ready | Sending "u16 list" | Receiving nat nat "u16 list"

record drive =
  dsectors :: "nat \<Rightarrow> bytes"
  dcap :: nat
  dident :: "u16 list"
  dlatency :: nat
  ddelay :: nat
  dbusy :: nat
  ddrq :: nat
  derror :: u8
  dcount :: u8
  dlba0 :: u8
  dlba1 :: u8
  dlba2 :: u8
  ddevsel :: u8
  dphase :: drive_phase

definition drive_lba :: "drive \<Rightarrow> nat" where
  "drive_lba dv = unat (ucast (dlba0 dv) OR push_bit 8 (ucast (dlba1 dv))
     OR push_bit 16 (ucast (dlba2 dv)) OR push_bit 24 (ucast (ddevsel dv AND 0x0F)) :: u32)"

definition drive_status :: "drive \<Rightarrow> u8" where
  "drive_status dv =
     (if 0 < dbusy dv then ATA_SR_BSY
      else if dphase dv \<noteq> Ready \<and> ddrq dv = 0 then 0x40 OR ATA_SR_DRQ
      else if derror dv \<noteq> 0 then 0x40 OR ATA_SR_ERR else 0x40)"

text \<open>A read of the status register lets time pass.\<close>

definition drive_tick :: "drive \<Rightarrow> drive" where
  "drive_tick dv =
     (if 0 < dbusy dv then dv\<lparr>dbusy := dbusy dv - 1\<rparr>
      else if dphase dv = Ready then dv else dv\<lparr>ddrq := ddrq dv - 1\<rparr>)"

definition drive_nsectors :: "drive \<Rightarrow> nat" where
  "drive_nsectors dv = (if dcount dv = 0 then 256 else unat (dcount dv))"

definition drive_command :: "u8 \<Rightarrow> drive \<Rightarrow> drive" where
  "drive_command cmd dv =
     (let lba = drive_lba dv; n = drive_nsectors dv; dv = dv\<lparr>dbusy := dlatency dv\<rparr> in
      if cmd = ATA_CMD_READ_PIO \<and> lba + n \<le> dcap dv then
        dv\<lparr>ddrq := ddelay dv, derror := 0,
           dphase := Sending (words_of_bytes (concat (map (dsectors dv) [lba..<lba + n])))\<rparr>
      else if cmd = ATA_CMD_WRITE_PIO \<and> lba + n \<le> dcap dv then
        dv\<lparr>ddrq := ddelay dv, derror := 0, dphase := Receiving lba (256 * n) []\<rparr>
      else if cmd = ATA_CMD_READ_PIO \<or> cmd = ATA_CMD_WRITE_PIO then
        dv\<lparr>derror := 0x10, dphase := Ready\<rparr>
      else if cmd = ATA_CMD_CACHE_FLUSH then dv\<lparr>derror := 0, dphase := Ready\<rparr>
      else if cmd = ATA_CMD_IDENTIFY then
        dv\<lparr>ddrq := ddelay dv, derror := 0, dlba1 := 0, dlba2 := 0, dphase := Sending (dident dv)\<rparr>
      else dv\<lparr>derror := 0x04, dphase := Ready\<rparr>)"

definition drive_commit :: "nat \<Rightarrow> u16 list \<Rightarrow> (nat \<Rightarrow> bytes) \<Rightarrow> nat \<Rightarrow> bytes" where
  "drive_commit lba ws f i =
     (if lba \<le> i \<and> i < lba + length ws div 256
      then bytes_of_words (take 256 (drop (256 * (i - lba)) ws)) else f i)"

definition drive_inb :: "u16 \<Rightarrow> drive \<Rightarrow> u8 \<times> drive" where
  "drive_inb p dv =
     (if p = ATA_REG_STATUS then (drive_status dv, drive_tick dv)
      else if 0 < dbusy dv then (drive_status dv, dv)
      else if p = ATA_REG_ERROR then (derror dv, dv)
      else if p = ATA_REG_LBA1 then (dlba1 dv, dv)
      else if p = ATA_REG_LBA2 then (dlba2 dv, dv)
      else (0, dv))"

definition drive_outb :: "u16 \<Rightarrow> u8 \<Rightarrow> drive \<Rightarrow> drive" where
  "drive_outb p v dv =
     (if 0 < dbusy dv then dv
      else if p = ATA_REG_SECCOUNT0 then dv\<lparr>dcount := v\<rparr>
      else if p = ATA_REG_LBA0 then dv\<lparr>dlba0 := v\<rparr>
      else if p = ATA_REG_LBA1 then dv\<lparr>dlba1 := v\<rparr>
      else if p = ATA_REG_LBA2 then dv\<lparr>dlba2 := v\<rparr>
      else if p = ATA_REG_HDDEVSEL then dv\<lparr>ddevsel := v\<rparr>
      else if p = ATA_REG_COMMAND then drive_command v dv
      else dv)"

text \<open>The data port works while DRQ is set; the end of a block of 256 words makes the drive busy.\<close>

definition drive_drq :: "drive \<Rightarrow> bool" where
  "drive_drq dv \<longleftrightarrow> dbusy dv = 0 \<and> ddrq dv = 0"

definition drive_inw :: "u16 \<Rightarrow> drive \<Rightarrow> u16 \<times> drive" where
  "drive_inw p dv =
     (case dphase dv of
        Sending (w # ws) \<Rightarrow>
          if p \<noteq> ATA_REG_DATA \<or> \<not> drive_drq dv then (0, dv)
          else if ws = [] then (w, dv\<lparr>dphase := Ready\<rparr>)
          else if 256 dvd length ws then
            (w, dv\<lparr>dphase := Sending ws, dbusy := dlatency dv, ddrq := ddelay dv\<rparr>)
          else (w, dv\<lparr>dphase := Sending ws\<rparr>)
      | _ \<Rightarrow> (0, dv))"

definition drive_outw :: "u16 \<Rightarrow> u16 \<Rightarrow> drive \<Rightarrow> drive" where
  "drive_outw p w dv =
     (case dphase dv of
        Receiving lba (Suc m) ws \<Rightarrow>
          if p \<noteq> ATA_REG_DATA \<or> \<not> drive_drq dv then dv
          else if m = 0 then
            dv\<lparr>dsectors := drive_commit lba (ws @ [w]) (dsectors dv), dphase := Ready, dbusy := dlatency dv\<rparr>
          else if 256 dvd m then
            dv\<lparr>dsectors := drive_commit lba (ws @ [w]) (dsectors dv), dphase := Receiving lba m (ws @ [w]),
               dbusy := dlatency dv, ddrq := ddelay dv\<rparr>
          else dv\<lparr>dphase := Receiving lba m (ws @ [w])\<rparr>
      | _ \<Rightarrow> dv)"

definition drive_ports :: "drive ports" where
  "drive_ports = \<lparr>inb = drive_inb, outb = drive_outb, inw = drive_inw, outw = drive_outw\<rparr>"

lemma drive_ports_sel [simp]:
  "inb drive_ports = drive_inb" "outb drive_ports = drive_outb"
  "inw drive_ports = drive_inw" "outw drive_ports = drive_outw"
  by (simp_all add: drive_ports_def)

definition drive_ok :: "drive \<Rightarrow> bool" where
  "drive_ok dv \<longleftrightarrow> dlatency dv < ATA_ERROR_TIMEOUT_LOOPS \<and> ddelay dv < ATA_ERROR_TIMEOUT_LOOPS \<and>
     dbusy dv < ATA_ERROR_TIMEOUT_LOOPS \<and> dcap dv \<le> 2 ^ 28 \<and> length (dident dv) = 256 \<and> (\<forall>i. length (dsectors dv i) = 512)"

section \<open>The driver on the drive\<close>

lemma status_bits [simp]:
  "not_busy 0x80 = False" "not_busy 0x40 = True" "not_busy 0x48 = True" "not_busy 0x41 = True"
  "data_request 0x48 = True" "data_request 0x40 = False"
  by (simp_all add: not_busy_def data_request_def)

lemma drive_status_not_busy [simp]: "not_busy (drive_status dv) \<longleftrightarrow> dbusy dv = 0"
  by (simp add: drive_status_def)

lemma drive_poll_busy:
  "dbusy dv < n \<Longrightarrow> ata_poll drive_ports not_busy n dv = (True, drive_tick (dv\<lparr>dbusy := 0\<rparr>))"
proof (induction n arbitrary: dv)
  case 0
  then show ?case by simp
next
  case (Suc n)
  show ?case
  proof (cases "dbusy dv = 0")
    case True
    then have eq: "dv\<lparr>dbusy := 0\<rparr> = dv" by (cases dv) simp
    show ?thesis unfolding eq using True by (simp add: drive_inb_def)
  next
    case False
    then have "dbusy (dv\<lparr>dbusy := dbusy dv - 1\<rparr>) < n" "n \<noteq> 0" using Suc.prems by auto
    from Suc.IH[OF this(1)] this(2) False show ?thesis by (simp add: drive_inb_def drive_tick_def)
  qed
qed

lemma drive_poll_drq:
  "dbusy dv = 0 \<Longrightarrow> dphase dv \<noteq> Ready \<Longrightarrow> derror dv = 0 \<Longrightarrow> ddrq dv < n \<Longrightarrow>
     ata_poll drive_ports data_request n dv = (True, dv\<lparr>ddrq := 0\<rparr>)"
proof (induction n arbitrary: dv)
  case 0
  then show ?case by simp
next
  case (Suc n)
  show ?case
  proof (cases "ddrq dv = 0")
    case True
    then have "dv\<lparr>ddrq := 0\<rparr> = dv" by (cases dv) simp
    with True Suc.prems show ?thesis by (simp add: drive_inb_def drive_status_def drive_tick_def)
  next
    case False
    then have "ddrq (dv\<lparr>ddrq := ddrq dv - 1\<rparr>) < n" "n \<noteq> 0" using Suc.prems by auto
    from Suc.IH[OF _ _ _ this(1)] this(2) False Suc.prems show ?thesis
      by (simp add: drive_inb_def drive_tick_def drive_status_def)
  qed
qed

lemma lba_bytes:
  assumes "unat (lba :: u32) < 2 ^ 28"
  shows "ucast (ucast lba :: u8) OR push_bit 8 (ucast (ucast (drop_bit 8 lba) :: u8))
     OR push_bit 16 (ucast (ucast (drop_bit 16 lba) :: u8))
     OR push_bit 24 (ucast ((ucast (0xE0 OR (drop_bit 24 lba AND 0x0F)) :: u8) AND 0x0F)) = lba"
proof -
  have m: "x AND 0x0F = take_bit 4 x" for x :: "'a::len word"
    by (simp add: take_bit_eq_mask mask_eq_exp_minus_1)
  have e0: "\<not> bit (0xE0 :: u32) n" if "n < 4" for n
  proof -
    from that have "n = 0 \<or> n = 1 \<or> n = 2 \<or> n = 3" by arith
    then show ?thesis by (elim disjE) simp_all
  qed
  have hi: "take_bit 4 (ucast (0xE0 OR take_bit 4 x :: u32) :: u8) = ucast (take_bit 4 x)" for x
    by (rule bit_word_eqI) (use e0 in \<open>auto simp: bit_simps\<close>)
  have small: "\<not> bit lba n" if "28 \<le> n" for n
  proof
    assume b: "bit lba n"
    then have "bit (unat lba) n" by (simp add: bit_unsigned_iff bit_imp_le_length)
    then have "2 ^ n \<le> unat lba" by (metis bit_iff_odd div_less even_zero not_le)
    moreover have "(2::nat) ^ 28 \<le> 2 ^ n" using that by (intro power_increasing) auto
    ultimately show False using assms by linarith
  qed
  then have "n < 28" if "bit lba n" for n
    using that not_le by blast
  then show ?thesis
    unfolding m hi by (intro bit_word_eqI) (fastforce simp: bit_simps)
qed

text \<open>The drive after the register writes of a transfer of \<open>n\<close> sectors at \<open>lba\<close>.\<close>

definition drive_regs :: "u32 \<Rightarrow> u8 \<Rightarrow> drive \<Rightarrow> drive" where
  "drive_regs lba n dv = dv\<lparr>ddevsel := ucast (0xE0 OR (drop_bit 24 lba AND 0x0F)), dcount := n,
     dlba0 := ucast lba, dlba1 := ucast (drop_bit 8 lba), dlba2 := ucast (drop_bit 16 lba)\<rparr>"

text \<open>The drive after a complete transfer.\<close>

definition drive_done :: "u32 \<Rightarrow> u8 \<Rightarrow> (nat \<Rightarrow> bytes) \<Rightarrow> drive \<Rightarrow> drive" where
  "drive_done lba n secs dv =
     (drive_regs lba n dv)\<lparr>dsectors := secs, dbusy := 0, ddrq := 0, derror := 0, dphase := Ready\<rparr>"

lemma drive_regs_sel [simp]:
  "dsectors (drive_regs lba n dv) = dsectors dv" "dcap (drive_regs lba n dv) = dcap dv"
  "dident (drive_regs lba n dv) = dident dv" "dlatency (drive_regs lba n dv) = dlatency dv"
  "ddelay (drive_regs lba n dv) = ddelay dv" "ddrq (drive_regs lba n dv) = ddrq dv"
  "dbusy (drive_regs lba n dv) = dbusy dv" "dphase (drive_regs lba n dv) = dphase dv"
  "dcount (drive_regs lba n dv) = n"
  by (simp_all add: drive_regs_def)

lemma drive_done_sel [simp]:
  "dsectors (drive_done lba n secs dv) = secs" "dcap (drive_done lba n secs dv) = dcap dv"
  "dident (drive_done lba n secs dv) = dident dv" "dlatency (drive_done lba n secs dv) = dlatency dv"
  "ddelay (drive_done lba n secs dv) = ddelay dv"
  "dbusy (drive_done lba n secs dv) = 0"
  by (simp_all add: drive_done_def)

lemma drive_lba_regs: "unat lba < 2 ^ 28 \<Longrightarrow> drive_lba (drive_regs lba n dv) = unat lba"
  by (simp add: drive_lba_def drive_regs_def lba_bytes)

lemma drive_command_eq:
  "dbusy dv = 0 \<Longrightarrow> ata_command drive_ports lba n cmd dv = drive_command cmd (drive_regs lba n dv)"
  by (simp add: ata_command_def drive_outb_def drive_regs_def Let_def)

lemma drive_finish:
  assumes "drive_ok dv" "dphase dv = Ready"
  shows "ata_finish drive_ports dv = (0, dv\<lparr>dbusy := 0, derror := 0\<rparr>)"
  using assms
  by (simp add: ata_finish_def drive_poll_busy drive_ok_def drive_outb_def drive_command_def
      Let_def drive_inb_def drive_status_def drive_tick_def)

lemma drive_finish_any:
  assumes "drive_ok dv"
  obtains d where "ata_finish drive_ports dv = (0, d)"
proof
  let ?d = "drive_command ATA_CMD_CACHE_FLUSH (drive_tick (dv\<lparr>dbusy := 0\<rparr>))"
  have "dbusy ?d = dlatency dv" "dphase ?d = Ready" "derror ?d = 0"
    by (simp_all add: drive_command_def Let_def drive_tick_def)
  then show "ata_finish drive_ports dv = (0, drive_tick (drive_tick (?d\<lparr>dbusy := 0\<rparr>)))"
    using assms drive_poll_busy[of dv] drive_poll_busy[of ?d]
    by (simp add: ata_finish_def drive_ok_def drive_outb_def drive_inb_def drive_status_def drive_tick_def)
qed

lemma drive_regs_tick:
  "(drive_regs lba n (drive_tick (dv\<lparr>dbusy := 0\<rparr>)))\<lparr>dbusy := b, ddrq := q\<rparr>
     = (drive_regs lba n dv)\<lparr>dbusy := b, ddrq := q\<rparr>"
  by (simp add: drive_regs_def drive_tick_def)

lemma drive_tick_sel [simp]:
  "dsectors (drive_tick dv) = dsectors dv" "dcap (drive_tick dv) = dcap dv"
  "dlatency (drive_tick dv) = dlatency dv" "ddelay (drive_tick dv) = ddelay dv"
  "dbusy (drive_tick dv) = dbusy dv - 1" "dphase (drive_tick dv) = dphase dv"
  "dident (drive_tick dv) = dident dv" "derror (drive_tick dv) = derror dv"
  by (simp_all add: drive_tick_def)

text \<open>A data command, from the register writes to the data request.\<close>

lemma drive_start:
  assumes ok: "drive_ok dv" and n: "n \<noteq> 0" and cap: "unat lba + unat n \<le> dcap dv"
  shows "ata_start drive_ports lba n ATA_CMD_READ_PIO dv = Inr ((drive_regs lba n dv)\<lparr>dbusy := 0,
           ddrq := 0, derror := 0, dphase := Sending (words_of_bytes
             (concat (map (dsectors dv) [unat lba..<unat lba + unat n])))\<rparr>)"
    and "ata_start drive_ports lba n ATA_CMD_WRITE_PIO dv = Inr ((drive_regs lba n dv)\<lparr>dbusy := 0,
           ddrq := 0, derror := 0, dphase := Receiving (unat lba) (256 * unat n) []\<rparr>)"
proof -
  have lba: "unat lba < 2 ^ 28"
    using ok n cap by (simp add: drive_ok_def word_unat_eq_iff)
  let ?dv = "drive_tick (dv\<lparr>dbusy := 0\<rparr>)"
  let ?d = "\<lambda>ph. (drive_regs lba n dv)\<lparr>dbusy := dlatency dv, ddrq := ddelay dv, derror := 0, dphase := ph\<rparr>"
  note regs = drive_lba_regs[OF lba, of n ?dv]
  have poll: "ata_poll drive_ports not_busy ATA_ERROR_TIMEOUT_LOOPS (?d ph) = (True, drive_tick ((?d ph)\<lparr>dbusy := 0\<rparr>))" for ph
    using ok drive_poll_busy[of "?d ph"] by (simp add: drive_ok_def)
  have "ata_start drive_ports lba n cmd dv = Inr ((drive_regs lba n dv)\<lparr>dbusy := 0, ddrq := 0, derror := 0, dphase := ph\<rparr>)"
    if ph: "ph \<noteq> Ready" and cmd: "drive_command cmd (drive_regs lba n ?dv) = ?d ph" for cmd ph
  proof -
    have "ata_poll drive_ports data_request ATA_ERROR_TIMEOUT_LOOPS (drive_tick (drive_tick ((?d ph)\<lparr>dbusy := 0\<rparr>)))
      = (True, (drive_regs lba n dv)\<lparr>dbusy := 0, ddrq := 0, derror := 0, dphase := ph\<rparr>)"
    proof -
      let ?e = "drive_tick (drive_tick ((?d ph)\<lparr>dbusy := 0\<rparr>))"
      have e: "dbusy ?e = 0" "dphase ?e \<noteq> Ready" "derror ?e = 0" "ddrq ?e \<le> ddelay dv"
        using ph by (simp_all add: drive_tick_def)
      have eq: "?e\<lparr>ddrq := 0\<rparr> = (drive_regs lba n dv)\<lparr>dbusy := 0, ddrq := 0, derror := 0, dphase := ph\<rparr>"
        using ph by (cases "drive_regs lba n dv") (simp add: drive_tick_def)
      have "ddelay dv < ATA_ERROR_TIMEOUT_LOOPS" using ok by (simp add: drive_ok_def)
      with e(4) have "ddrq ?e < ATA_ERROR_TIMEOUT_LOOPS" by (rule le_less_trans)
      from drive_poll_drq[OF e(1-3) this] show ?thesis unfolding eq .
    qed
    then show ?thesis
      using ok poll[of ph] ph drive_poll_busy[of dv]
      by (simp add: ata_start_def drive_ok_def drive_command_eq cmd drive_inb_def drive_status_def)
  qed
  note start = this
  have secs: "dsectors ?dv = dsectors dv" by simp
  show "ata_start drive_ports lba n ATA_CMD_READ_PIO dv = Inr ((drive_regs lba n dv)\<lparr>dbusy := 0,
           ddrq := 0, derror := 0, dphase := Sending (words_of_bytes
             (concat (map (dsectors dv) [unat lba..<unat lba + unat n])))\<rparr>)"
    using n cap by (intro start) (simp_all add: drive_command_def Let_def drive_nsectors_def regs drive_regs_tick)
  show "ata_start drive_ports lba n ATA_CMD_WRITE_PIO dv = Inr ((drive_regs lba n dv)\<lparr>dbusy := 0,
           ddrq := 0, derror := 0, dphase := Receiving (unat lba) (256 * unat n) []\<rparr>)"
    using n cap by (intro start) (simp_all add: drive_command_def Let_def drive_nsectors_def regs drive_regs_tick)
qed

text \<open>Within one block the data port hands over one word after the other.\<close>

lemma block_end: "n < 256 \<Longrightarrow> (256::nat) dvd n \<longleftrightarrow> n = 0"
  by (auto dest: dvd_imp_le)

lemma drive_inw_block:
  assumes "drive_drq dv" "length ws < 256"
  shows "drive_inw ATA_REG_DATA (dv\<lparr>dphase := Sending (w # ws)\<rparr>)
      = (w, dv\<lparr>dphase := (if ws = [] then Ready else Sending ws)\<rparr>)"
  using assms by (simp add: drive_inw_def drive_drq_def block_end)

lemma drive_read_words:
  "drive_drq dv \<Longrightarrow> length ws \<le> 256 \<Longrightarrow> b + 2 * length ws \<le> length buf \<Longrightarrow>
     ata_read_words drive_ports buf b (length ws)
       (dv\<lparr>dphase := (if ws = [] then Ready else Sending ws)\<rparr>)
     = Some (take b buf @ bytes_of_words ws @ drop (b + 2 * length ws) buf, dv\<lparr>dphase := Ready\<rparr>)"
proof (induction ws arbitrary: b buf)
  case Nil
  then show ?case by simp
next
  case (Cons w ws)
  let ?buf = "buf[b := ucast w, Suc b := ucast (drop_bit 8 w)]"
  have "b + 2 + 2 * length ws \<le> length ?buf" "length ws \<le> 256" using Cons.prems by simp_all
  note IH = Cons.IH[OF Cons.prems(1) this(2,1)]
  moreover have "take (b + 2) ?buf = take b buf @ [ucast w, ucast (drop_bit 8 w)]"
  proof -
    have "take (b + 2) buf = take b buf @ [buf ! b, buf ! Suc b]"
      using Cons.prems by (simp add: take_Suc_conv_app_nth)
    then show ?thesis using Cons.prems by (simp add: take_update_swap list_update_append)
  qed
  moreover have "drop (b + 2 + 2 * length ws) ?buf = drop (b + 2 * Suc (length ws)) buf"
    by simp
  ultimately show ?case using Cons.prems by (simp add: drive_inw_block)
qed

lemma drive_write_words:
  "drive_drq dv \<Longrightarrow> 0 < n \<Longrightarrow> n \<le> 256 \<Longrightarrow> b + 2 * n \<le> length buf \<Longrightarrow>
     ata_write_words drive_ports buf b n (dv\<lparr>dphase := Receiving lba n ws\<rparr>)
     = Some (dv\<lparr>dsectors := drive_commit lba (ws @ words_of_bytes (take (2 * n) (drop b buf))) (dsectors dv),
               dphase := Ready, dbusy := dlatency dv\<rparr>)"
proof (induction n arbitrary: b ws)
  case 0
  then show ?case by simp
next
  case (Suc n)
  let ?w = "ucast (buf ! b) OR push_bit 8 (ucast (buf ! Suc b)) :: u16"
  have d: "drop b buf = buf ! b # buf ! Suc b # drop (b + 2) buf"
    using Suc.prems Cons_nth_drop_Suc[of b buf] Cons_nth_drop_Suc[of "Suc b" buf] by simp
  have q: "drive_drq (dv\<lparr>dphase := Receiving lba (Suc n) ws\<rparr>)" using Suc.prems(1) by (simp add: drive_drq_def)
  show ?case
  proof (cases "n = 0")
    case True
    with Suc.prems d q show ?thesis by (simp add: drive_outw_def)
  next
    case False
    then have "ata_write_words drive_ports buf (b + 2) n (dv\<lparr>dphase := Receiving lba n (ws @ [?w])\<rparr>)
      = Some (dv\<lparr>dsectors := drive_commit lba ((ws @ [?w]) @ words_of_bytes (take (2 * n) (drop (b + 2) buf)))
           (dsectors dv), dphase := Ready, dbusy := dlatency dv\<rparr>)"
      using Suc.prems by (intro Suc.IH) auto
    with Suc.prems False d q show ?thesis by (simp add: drive_outw_def block_end)
  qed
qed

lemma drive_commit_one:
  "length ws = 256 \<Longrightarrow> drive_commit lba ws f = f(lba := bytes_of_words ws)"
  by (auto simp: drive_commit_def fun_eq_iff)

lemma drive_sector_read:
  assumes ok: "drive_ok dv" and cap: "unat lba < dcap dv" and len: "512 \<le> length buf"
  shows "ata_sector_read drive_ports lba 1 buf dv
    = Some (0, dsectors dv (unat lba) @ drop 512 buf, drive_done lba 1 (dsectors dv) dv)"
proof -
  let ?dv = "(drive_regs lba 1 dv)\<lparr>dbusy := 0, ddrq := 0, derror := 0\<rparr>"
  let ?ws = "words_of_bytes (dsectors dv (unat lba))"
  have lw: "length ?ws = 256" using ok by (simp add: drive_ok_def length_words_of_bytes)
  have "ata_read_words drive_ports buf 0 256 (?dv\<lparr>dphase := Sending ?ws\<rparr>)
      = Some (dsectors dv (unat lba) @ drop 512 buf, ?dv\<lparr>dphase := Ready\<rparr>)"
    using drive_read_words[of ?dv ?ws 0 buf] lw len ok
    by (cases "?ws = []") (auto simp: drive_drq_def drive_ok_def bytes_of_words_of_bytes)
  moreover have "drive_ok (?dv\<lparr>dphase := Ready\<rparr>)" using ok by (simp add: drive_ok_def)
  ultimately show ?thesis using ok cap
    by (simp add: ata_sector_read_def drive_start drive_finish drive_done_def drive_regs_def ata_sector_size_def)
qed

lemma drive_sector_write:
  assumes ok: "drive_ok dv" and cap: "unat lba < dcap dv" and len: "512 \<le> length buf"
  shows "ata_sector_write drive_ports lba 1 buf dv
    = Some (0, drive_done lba 1 ((dsectors dv)(unat lba := take 512 buf)) dv)"
proof -
  let ?dv = "(drive_regs lba 1 dv)\<lparr>dbusy := 0, ddrq := 0, derror := 0\<rparr>"
  let ?secs = "(dsectors dv)(unat lba := take 512 buf)"
  have "drive_commit (unat lba) (words_of_bytes (take 512 buf)) (dsectors dv) = ?secs"
    using len by (simp add: drive_commit_one length_words_of_bytes bytes_of_words_of_bytes)
  then have "ata_write_words drive_ports buf 0 256 (?dv\<lparr>dphase := Receiving (unat lba) 256 []\<rparr>)
    = Some (?dv\<lparr>dsectors := ?secs, dphase := Ready, dbusy := dlatency dv\<rparr>)"
    using drive_write_words[of ?dv 256 0 buf "unat lba" "[]"] len by (simp add: drive_drq_def)
  moreover have "drive_ok (?dv\<lparr>dsectors := ?secs, dphase := Ready, dbusy := dlatency dv\<rparr>)"
    using ok len by (simp add: drive_ok_def)
  ultimately show ?thesis using ok cap
    by (simp add: ata_sector_write_def drive_start drive_finish drive_done_def drive_regs_def ata_sector_size_def)
qed

lemma drive_done_ok: "drive_ok dv \<Longrightarrow> (\<And>i. length (secs i) = 512) \<Longrightarrow> drive_ok (drive_done lba n secs dv)"
  by (simp add: drive_ok_def ATA_ERROR_TIMEOUT_LOOPS_def)

section \<open>Properties\<close>

text \<open>The data port of a busy drive returns nothing, so a read without a wait stores zeros.\<close>

lemma busy_read_words:
  "0 < dbusy dv \<Longrightarrow> b + 2 * n \<le> length buf \<Longrightarrow>
     ata_read_words drive_ports buf b n dv = Some (take b buf @ replicate (2 * n) 0 @ drop (b + 2 * n) buf, dv)"
proof (induction n arbitrary: b buf)
  case 0
  then show ?case by simp
next
  case (Suc n)
  have w: "drive_inw ATA_REG_DATA dv = (0, dv)"
    using Suc.prems(1) by (simp add: drive_inw_def drive_drq_def split: drive_phase.split list.split)
  let ?buf = "buf[b := 0, Suc b := 0]"
  have "take (b + 2) ?buf = take b buf @ [0, 0]"
  proof -
    have "take (b + 2) buf = take b buf @ [buf ! b, buf ! Suc b]"
      using Suc.prems by (simp add: take_Suc_conv_app_nth)
    then show ?thesis using Suc.prems by (simp add: take_update_swap list_update_append)
  qed
  then show ?case using Suc.IH[of "b + 2" ?buf] Suc.prems w by simp
qed

lemma ata_read_words_append:
  "ata_read_words P buf b (m + n) d =
     (case ata_read_words P buf b m d of None \<Rightarrow> None
      | Some (buf1, d1) \<Rightarrow> ata_read_words P buf1 (b + 2 * m) n d1)"
  by (induction m arbitrary: buf b d) (auto split: prod.splits bind_splits option.splits)

text \<open>
  The first block of two: after its last word the drive is busy, and the driver reads on.
\<close>

lemma drive_read_first_block:
  "drive_drq dv \<Longrightarrow> ws \<noteq> [] \<Longrightarrow> length ws \<le> 256 \<Longrightarrow> b + 2 * length ws \<le> length buf \<Longrightarrow> length us = 256 \<Longrightarrow>
     ata_read_words drive_ports buf b (length ws) (dv\<lparr>dphase := Sending (ws @ us)\<rparr>)
     = Some (take b buf @ bytes_of_words ws @ drop (b + 2 * length ws) buf,
             dv\<lparr>dphase := Sending us, dbusy := dlatency dv, ddrq := ddelay dv\<rparr>)"
proof (induction ws arbitrary: b buf)
  case Nil
  then show ?case by simp
next
  case (Cons w ws)
  let ?buf = "buf[b := ucast w, Suc b := ucast (drop_bit 8 w)]"
  have step: "take (b + 2) ?buf = take b buf @ [ucast w, ucast (drop_bit 8 w)]"
  proof -
    have "take (b + 2) buf = take b buf @ [buf ! b, buf ! Suc b]"
      using Cons.prems by (simp add: take_Suc_conv_app_nth)
    then show ?thesis using Cons.prems by (simp add: take_update_swap list_update_append)
  qed
  have drq: "drive_drq (dv\<lparr>dphase := Sending (w # ws @ us)\<rparr>)" using Cons.prems(1) by (simp add: drive_drq_def)
  have whole: "?buf = take b buf @ [ucast w, ucast (drop_bit 8 w)] @ drop (b + 2) buf"
    using step append_take_drop_id[of "b + 2" ?buf] by simp
  show ?case
  proof (cases "ws = []")
    case True
    then show ?thesis using Cons.prems whole drq by (auto simp: drive_inw_def)
  next
    case False
    then have "\<not> 256 dvd length ws" using Cons.prems(3) by (auto simp: block_end)
    then have "\<not> 256 dvd length (ws @ us)" using Cons.prems(5) by (simp add: dvd_add_left_iff)
    then have "drive_inw ATA_REG_DATA (dv\<lparr>dphase := Sending (w # ws @ us)\<rparr>) = (w, dv\<lparr>dphase := Sending (ws @ us)\<rparr>)"
      using False drq by (simp add: drive_inw_def)
    moreover have "b + 2 + 2 * length ws \<le> length ?buf" "length ws \<le> 256" using Cons.prems by simp_all
    note IH = Cons.IH[OF Cons.prems(1) False this(2,1) Cons.prems(5)]
    moreover have "drop (b + 2 + 2 * length ws) ?buf = drop (b + 2 * Suc (length ws)) buf"
      by simp
    ultimately show ?thesis using Cons.prems step by simp
  qed
qed

text \<open>
  A read of two sectors from a drive that takes time for the second one: the function reports success
  and the second half of the buffer is zero, whatever the sector holds.
\<close>

lemma ata_second_sector_lost:
  assumes ok: "drive_ok dv" and cap: "unat lba + 2 \<le> dcap dv" and len: "length buf = 1024"
    and busy: "0 < dlatency dv"
  shows "\<exists>d. ata_sector_read drive_ports lba 2 buf dv
    = Some (0, dsectors dv (unat lba) @ replicate 512 0, d)"
proof -
  let ?dv = "(drive_regs lba 2 dv)\<lparr>dbusy := 0, ddrq := 0, derror := 0\<rparr>"
  let ?a = "words_of_bytes (dsectors dv (unat lba))" and ?b = "words_of_bytes (dsectors dv (Suc (unat lba)))"
  have even: "even (length (dsectors dv i))" and l512: "length (dsectors dv i) = 512" for i
    using ok by (simp_all add: drive_ok_def)
  then have la: "length ?a = 256" and lb: "length ?b = 256"
    by (simp_all add: length_words_of_bytes)
  have ws: "words_of_bytes (concat (map (dsectors dv) [unat lba..<unat lba + 2])) = ?a @ ?b"
    using even by (simp add: numeral_2_eq_2 words_of_bytes_append)
  have "ata_read_words drive_ports buf 0 256 (?dv\<lparr>dphase := Sending (?a @ ?b)\<rparr>)
      = Some (dsectors dv (unat lba) @ drop 512 buf,
          ?dv\<lparr>dphase := Sending ?b, dbusy := dlatency dv, ddrq := ddelay dv\<rparr>)"
  proof -
    have "?a \<noteq> []" "drive_drq ?dv" using la by (auto simp: drive_drq_def)
    from drive_read_first_block[OF this(2,1), of 0 buf ?b] la lb len even show ?thesis
      by (simp add: bytes_of_words_of_bytes)
  qed
  moreover have "ata_read_words drive_ports (dsectors dv (unat lba) @ drop 512 buf) 512 256
      (?dv\<lparr>dphase := Sending ?b, dbusy := dlatency dv, ddrq := ddelay dv\<rparr>)
      = Some (dsectors dv (unat lba) @ replicate 512 0,
          ?dv\<lparr>dphase := Sending ?b, dbusy := dlatency dv, ddrq := ddelay dv\<rparr>)"
    using busy len l512 busy_read_words[of "?dv\<lparr>dphase := Sending ?b, dbusy := dlatency dv, ddrq := ddelay dv\<rparr>"
        512 256 "dsectors dv (unat lba) @ drop 512 buf"] by simp
  ultimately have "ata_read_words drive_ports buf 0 512 (?dv\<lparr>dphase := Sending (?a @ ?b)\<rparr>)
      = Some (dsectors dv (unat lba) @ replicate 512 0,
          ?dv\<lparr>dphase := Sending ?b, dbusy := dlatency dv, ddrq := ddelay dv\<rparr>)"
    using ata_read_words_append[of drive_ports buf 0 256 256] by simp
  moreover obtain d where
      "ata_finish drive_ports (?dv\<lparr>dphase := Sending ?b, dbusy := dlatency dv, ddrq := ddelay dv\<rparr>) = (0, d)"
    by (rule drive_finish_any[of "?dv\<lparr>dphase := Sending ?b, dbusy := dlatency dv, ddrq := ddelay dv\<rparr>"])
      (use ok in \<open>simp add: drive_ok_def\<close>)
  moreover have "ata_start drive_ports lba 2 ATA_CMD_READ_PIO dv = Inr (?dv\<lparr>dphase := Sending (?a @ ?b)\<rparr>)"
    using drive_start(1)[OF ok, of 2 lba] cap ws by simp
  ultimately show ?thesis
    by (simp add: ata_sector_read_def ata_sector_size_def)
qed

text \<open>C34. On a working drive, which moves data only while it requests it and is busy for any time within the bounds
  of the wait loops, \<open>ata_sector_write\<close> of one sector followed by \<open>ata_sector_read\<close> of the same sector returns 0
  twice and gives back the 512 bytes written; the rest of the read buffer and every other sector are unchanged, and
  the drive is ready for the next command. One sector is the only count that \<open>fs.c\<close> uses.\<close>

theorem ata_write_read_back:
  assumes "drive_ok dv" "unat lba < dcap dv" "512 \<le> length buf" "512 \<le> length buf'"
  shows "\<exists>d1 d2. ata_sector_write drive_ports lba 1 buf dv = Some (0, d1) \<and>
    ata_sector_read drive_ports lba 1 buf' d1 = Some (0, take 512 buf @ drop 512 buf', d2) \<and>
    drive_ok d2 \<and> dbusy d2 = 0 \<and> dphase d2 = Ready \<and>
    dsectors d2 (unat lba) = take 512 buf \<and> (\<forall>i. i \<noteq> unat lba \<longrightarrow> dsectors d2 i = dsectors dv i)"
proof -
  let ?secs = "(dsectors dv)(unat lba := take 512 buf)"
  let ?d1 = "drive_done lba 1 ?secs dv"
  have len: "length (?secs i) = 512" for i using assms by (simp add: drive_ok_def)
  then have ok: "drive_ok ?d1" "drive_ok (drive_done lba 1 ?secs ?d1)"
    using assms(1) by (auto intro!: drive_done_ok)
  have "ata_sector_read drive_ports lba 1 buf' ?d1 = Some (0, take 512 buf @ drop 512 buf', drive_done lba 1 ?secs ?d1)"
    using drive_sector_read[OF ok(1), of lba buf'] assms by simp
  moreover have "dphase (drive_done lba 1 ?secs ?d1) = Ready" by (simp add: drive_done_def)
  ultimately show ?thesis using drive_sector_write[OF assms(1-3)] ok(2)
    by (intro exI[of _ ?d1] exI[of _ "drive_done lba 1 ?secs ?d1"]) simp
qed

definition blank_drive :: "nat \<Rightarrow> drive" where
  "blank_drive n = \<lparr>dsectors = \<lambda>_. replicate 512 0, dcap = n,
     dident = (replicate 256 0)[60 := of_nat n], dlatency = 3, ddelay = 4, dbusy = 0, ddrq = 0, derror = 0, dcount = 0,
     dlba0 = 0, dlba1 = 0, dlba2 = 0, ddevsel = 0, dphase = Ready\<rparr>"

lemma blank_drive_ok: "n \<le> 2 ^ 28 \<Longrightarrow> drive_ok (blank_drive n)"
  by (simp add: drive_ok_def blank_drive_def ATA_ERROR_TIMEOUT_LOOPS_def)

theorem ata_write_read_back_witness:
  "\<exists>d1 d2. ata_sector_write drive_ports 7 1 (replicate 512 9) (blank_drive 4096) = Some (0, d1) \<and>
    ata_sector_read drive_ports 7 1 (replicate 512 0) d1 = Some (0, replicate 512 9, d2)"
  using ata_write_read_back[of "blank_drive 4096" 7 "replicate 512 9" "replicate 512 0"] blank_drive_ok[of 4096]
  by (auto simp: blank_drive_def)

end
