(* ===== verification/Disk.thy ===== *)
theory Disk
  imports AtaDrive
begin

text \<open>
  The interface \<open>ata.h\<close> between the file system and the driver: a record of the three functions the
  file system calls, the laws of a working disk as a locale, and the driver of \<open>Ata\<close> on the drive of
  \<open>AtaDrive\<close> as its interpretation. \<open>uninit\<close> stands for the bytes that an uninitialised local array
  happens to hold, which C leaves unspecified and which a failed read lets through.
\<close>

record 'd ata_h =
  sector_read :: "u32 \<Rightarrow> u8 \<Rightarrow> bytes \<Rightarrow> 'd \<Rightarrow> (int \<times> bytes \<times> 'd) option"
  sector_write :: "u32 \<Rightarrow> u8 \<Rightarrow> bytes \<Rightarrow> 'd \<Rightarrow> (int \<times> 'd) option"
  identify :: "u16 list \<Rightarrow> 'd \<Rightarrow> (int \<times> u16 list \<times> 'd) option"
  uninit :: "'d \<Rightarrow> nat \<Rightarrow> u8"

text \<open>\<open>uint8_t buf[n];\<close>\<close>

definition fresh_buf :: "'d ata_h \<Rightarrow> nat \<Rightarrow> 'd \<Rightarrow> bytes" where
  "fresh_buf E n d = map (uninit E d) [0..<n]"

lemma length_fresh_buf [simp]: "length (fresh_buf E n d) = n"
  by (simp add: fresh_buf_def)

definition ata_driver :: "'d ports \<Rightarrow> ('d \<Rightarrow> nat \<Rightarrow> u8) \<Rightarrow> 'd ata_h" where
  "ata_driver P junk = \<lparr>sector_read = ata_sector_read P, sector_write = ata_sector_write P,
     identify = ata_identify P, uninit = junk\<rparr>"

lemma ata_driver_sel [simp]:
  "sector_read (ata_driver P junk) = ata_sector_read P"
  "sector_write (ata_driver P junk) = ata_sector_write P"
  "identify (ata_driver P junk) = ata_identify P"
  "uninit (ata_driver P junk) = junk"
  by (simp_all add: ata_driver_def)

text \<open>
  A working disk: \<open>sec d i\<close> is the content of sector \<open>i\<close> and \<open>cap d\<close> the number of sectors; \<open>rd\<close> and
  \<open>wr\<close> name the state of the hardware after a read and after a write.
\<close>

locale block_device =
  fixes E :: "'d ata_h"
    and ok :: "'d \<Rightarrow> bool"
    and sec :: "'d \<Rightarrow> nat \<Rightarrow> bytes"
    and cap :: "'d \<Rightarrow> nat"
    and rd :: "u32 \<Rightarrow> 'd \<Rightarrow> 'd"
    and wr :: "u32 \<Rightarrow> bytes \<Rightarrow> 'd \<Rightarrow> 'd"
  assumes read_sector: "ok d \<Longrightarrow> unat l < cap d \<Longrightarrow> length b = 512 \<Longrightarrow>
            sector_read E l 1 b d = Some (0, sec d (unat l), rd l d)"
    and rd_ok: "ok d \<Longrightarrow> unat l < cap d \<Longrightarrow> ok (rd l d)"
    and rd_sec: "ok d \<Longrightarrow> unat l < cap d \<Longrightarrow> sec (rd l d) = sec d"
    and rd_cap: "ok d \<Longrightarrow> unat l < cap d \<Longrightarrow> cap (rd l d) = cap d"
    and write_sector: "ok d \<Longrightarrow> unat l < cap d \<Longrightarrow> length b = 512 \<Longrightarrow>
            sector_write E l 1 b d = Some (0, wr l b d)"
    and wr_ok: "ok d \<Longrightarrow> unat l < cap d \<Longrightarrow> length b = 512 \<Longrightarrow> ok (wr l b d)"
    and wr_sec: "ok d \<Longrightarrow> unat l < cap d \<Longrightarrow> length b = 512 \<Longrightarrow>
            sec (wr l b d) = (sec d)(unat l := b)"
    and wr_cap: "ok d \<Longrightarrow> unat l < cap d \<Longrightarrow> length b = 512 \<Longrightarrow> cap (wr l b d) = cap d"
    and sec_length: "ok d \<Longrightarrow> length (sec d i) = 512"
    and cap_bound: "ok d \<Longrightarrow> cap d \<le> 2 ^ 28"
begin

lemmas disk_laws = read_sector rd_ok rd_sec rd_cap write_sector wr_ok wr_sec wr_cap sec_length

text \<open>A write is read back, and no other sector changes.\<close>

lemma read_after_write:
  assumes "ok d" "unat l < cap d" "unat m < cap d" "length b = 512" "length b' = 512"
  shows "\<exists>d1 d2. sector_write E l 1 b d = Some (0, d1) \<and>
    sector_read E m 1 b' d1 = Some (0, (if m = l then b else sec d (unat m)), d2)"
  using assms by (auto simp: disk_laws word_unat_eq_iff)

end

definition drive_rd :: "u32 \<Rightarrow> drive \<Rightarrow> drive" where
  "drive_rd l dv = drive_done l 1 (dsectors dv) dv"

definition drive_wr :: "u32 \<Rightarrow> bytes \<Rightarrow> drive \<Rightarrow> drive" where
  "drive_wr l b dv = drive_done l 1 ((dsectors dv)(unat l := b)) dv"

interpretation drv: block_device "ata_driver drive_ports junk" drive_ok dsectors dcap drive_rd drive_wr
  for junk
proof unfold_locales
  fix d l and b :: bytes and i
  assume ok: "drive_ok d"
  show "length (dsectors d i) = 512" and "dcap d \<le> 2 ^ 28"
    using ok by (auto simp: drive_ok_def)
  assume l: "unat (l :: u32) < dcap d"
  show "drive_ok (drive_rd l d)" and "dsectors (drive_rd l d) = dsectors d"
    and "dcap (drive_rd l d) = dcap d"
    using ok by (auto simp: drive_rd_def drive_ok_def intro!: drive_done_ok)
  assume b: "length b = 512"
  show "sector_read (ata_driver drive_ports junk) l 1 b d = Some (0, dsectors d (unat l), drive_rd l d)"
    using drive_sector_read[of d l b] ok l b by (simp add: drive_rd_def)
  show "sector_write (ata_driver drive_ports junk) l 1 b d = Some (0, drive_wr l b d)"
    using drive_sector_write[of d l b] ok l b by (simp add: drive_wr_def)
  show "drive_ok (drive_wr l b d)" and "dsectors (drive_wr l b d) = (dsectors d)(unat l := b)"
    and "dcap (drive_wr l b d) = dcap d"
    using ok b by (auto simp: drive_wr_def drive_ok_def intro!: drive_done_ok)
qed

end
