(* ===== verification/FsState.thy ===== *)
theory FsState
  imports Disk
begin

text \<open>
  The data of \<open>fs.c\<close>: the constants of the disk layout, the 64-byte table entry with its layout in
  memory and on disk, the global variables, and the one-sector reads and writes that every function
  of the file system is made of.
\<close>

section \<open>Layout constants\<close>

definition fs_max_files_entrys :: nat where
  "fs_max_files_entrys = 1024"

definition fs_table_size_sectors :: nat where
  "fs_table_size_sectors = (fs_max_files_entrys * 64 + 511) div 512"

definition data_file_region_size :: u64 where
  "data_file_region_size = 8"

definition fs_not_found :: u64 where
  "fs_not_found = 0 - 1"

lemma fs_table_size_sectors_eq [simp]: "fs_table_size_sectors = 128"
  by (simp add: fs_table_size_sectors_def fs_max_files_entrys_def)

section \<open>Table entries\<close>

record fs_file_entry =
  e_name :: bytes
  e_size :: u64
  e_parent_id :: u64
  e_id :: u64
  e_type :: u16
  e_region_size :: u16
  e_flags :: u32
  e_data_frame :: u64

text \<open>The cast of 64 raw bytes to \<open>struct fs_file_entry *\<close>, and back.\<close>

definition entry_of_bytes :: "bytes \<Rightarrow> fs_file_entry" where
  "entry_of_bytes raw = \<lparr>e_name = take 24 raw,
     e_size = le_word (take 8 (drop 24 raw)), e_parent_id = le_word (take 8 (drop 32 raw)),
     e_id = le_word (take 8 (drop 40 raw)), e_type = le_word (take 2 (drop 48 raw)),
     e_region_size = le_word (take 2 (drop 50 raw)), e_flags = le_word (take 4 (drop 52 raw)),
     e_data_frame = le_word (take 8 (drop 56 raw))\<rparr>"

definition bytes_of_entry :: "fs_file_entry \<Rightarrow> bytes" where
  "bytes_of_entry e = e_name e @ le_bytes 8 (e_size e) @ le_bytes 8 (e_parent_id e) @
     le_bytes 8 (e_id e) @ le_bytes 2 (e_type e) @ le_bytes 2 (e_region_size e) @
     le_bytes 4 (e_flags e) @ le_bytes 8 (e_data_frame e)"

definition wf_entry :: "fs_file_entry \<Rightarrow> bool" where
  "wf_entry e \<longleftrightarrow> length (e_name e) = 24"

definition zero_entry :: fs_file_entry where
  "zero_entry = \<lparr>e_name = replicate 24 0, e_size = 0, e_parent_id = 0, e_id = 0, e_type = 0,
     e_region_size = 0, e_flags = 0, e_data_frame = 0\<rparr>"

lemma wf_zero_entry [simp]: "wf_entry zero_entry"
  by (simp add: wf_entry_def zero_entry_def)

lemma length_bytes_of_entry [simp]: "wf_entry e \<Longrightarrow> length (bytes_of_entry e) = 64"
  by (simp add: bytes_of_entry_def wf_entry_def)

lemma wf_entry_of_bytes [simp]: "length raw = 64 \<Longrightarrow> wf_entry (entry_of_bytes raw)"
  by (simp add: entry_of_bytes_def wf_entry_def)

lemma entry_of_bytes_of_entry [simp]: "wf_entry e \<Longrightarrow> entry_of_bytes (bytes_of_entry e) = e"
  by (simp add: entry_of_bytes_def bytes_of_entry_def wf_entry_def le_simps)

lemma bytes_of_entry_of_bytes:
  assumes "length raw = 64"
  shows "bytes_of_entry (entry_of_bytes raw) = raw"
proof -
  have "raw = take 24 raw @ take 8 (drop 24 raw) @ take 8 (drop 32 raw) @ take 8 (drop 40 raw) @
      take 2 (drop 48 raw) @ take 2 (drop 50 raw) @ take 4 (drop 52 raw) @ take 8 (drop 56 raw)"
    using assms by (intro nth_equalityI) (auto simp: nth_append)
  then show ?thesis
    using assms by (simp add: entry_of_bytes_def bytes_of_entry_def le_bytes_le_word)
qed

text \<open>Slot \<open>i3\<close> of the eight entries in a sector buffer.\<close>

definition entry_at :: "bytes \<Rightarrow> nat \<Rightarrow> fs_file_entry" where
  "entry_at buf i3 = entry_of_bytes (copy_from buf (i3 * 64) 64)"

definition put_entry :: "bytes \<Rightarrow> nat \<Rightarrow> fs_file_entry \<Rightarrow> bytes" where
  "put_entry buf i3 e = copy_into buf (i3 * 64) (bytes_of_entry e) 64"

lemma length_put_entry [simp]: "length (put_entry buf i3 e) = length buf"
  by (simp add: put_entry_def)

lemma wf_entry_at [simp]: "wf_entry (entry_at buf i3)"
  by (simp add: entry_at_def)

lemma entry_at_put_entry [simp]:
  assumes "length buf = 512" "i < 8" "j < 8" "wf_entry e"
  shows "entry_at (put_entry buf i e) j = (if i = j then e else entry_at buf j)"
proof (cases "i = j")
  case True
  with assms show ?thesis by (simp add: entry_at_def put_entry_def copy_from_copy_into_same)
next
  case False
  then have "j * 64 + 64 \<le> i * 64 \<or> i * 64 + 64 \<le> j * 64" by arith
  with assms False show ?thesis by (simp add: entry_at_def put_entry_def copy_from_copy_into_apart)
qed

lemma le_word_zeros [simp]: "le_word (replicate n 0) = 0"
  by (induction n) simp_all

lemma entry_at_zeros: "i < 8 \<Longrightarrow> entry_at (replicate 512 0) i = zero_entry"
proof -
  assume "i < 8"
  then have "copy_from (replicate 512 0) (i * 64) 64 = replicate 64 (0 :: u8)"
    by (intro nth_equalityI) auto
  then show ?thesis
    by (simp add: entry_at_def entry_of_bytes_def zero_entry_def)
qed

section \<open>Global state\<close>

text \<open>
  The variables of \<open>fs.c\<close> and, as \<open>dsk\<close>, the hardware behind \<open>ata.h\<close>. \<open>name_buf\<close> is the static
  \<open>name[24]\<close> of \<open>path_to_name\<close>. \<open>id_to_path_point\<close> counts rows of a 512-row array and never wraps.
\<close>

record 'd fs =
  dsk :: 'd
  sectors :: u64
  fs_data_bitmap_size_sectors :: u64
  start_table :: u64
  start_storage :: u64
  path_resolve_path_res :: bytes
  path_to_abs_path_res :: bytes
  id_to_path_path :: "bytes list"
  id_to_path_point :: nat
  id_to_path_first_one :: bool
  name_buf :: bytes
  fs_is_new :: int

definition read1 :: "'d ata_h \<Rightarrow> u32 \<Rightarrow> bytes \<Rightarrow> 'd fs \<Rightarrow> (int \<times> bytes \<times> 'd fs) option" where
  "read1 E lba buf s = do {
     (st, buf, d) \<leftarrow> sector_read E lba 1 buf (dsk s);
     Some (st, buf, s\<lparr>dsk := d\<rparr>) }"

definition write1 :: "'d ata_h \<Rightarrow> u32 \<Rightarrow> bytes \<Rightarrow> 'd fs \<Rightarrow> (int \<times> 'd fs) option" where
  "write1 E lba buf s = do {
     (st, d) \<leftarrow> sector_write E lba 1 buf (dsk s);
     Some (st, s\<lparr>dsk := d\<rparr>) }"

text \<open>\<open>uint8_t buf[n];\<close> in a function of the file system.\<close>

definition local_buf :: "'d ata_h \<Rightarrow> nat \<Rightarrow> 'd fs \<Rightarrow> bytes" where
  "local_buf E n s = fresh_buf E n (dsk s)"

lemma length_local_buf [simp]: "length (local_buf E n s) = n"
  by (simp add: local_buf_def)

text \<open>
  The sector numbers as the code computes them: \<open>(uint32_t)start_table+i\<close>, which the call truncates
  again to \<open>uint32_t\<close>, and \<open>(uint32_t)(start_table + s)\<close>, which is the same value.
\<close>

definition table_lba :: "'d fs \<Rightarrow> nat \<Rightarrow> u32" where
  "table_lba s i = ucast ((ucast (ucast (start_table s) :: u32) :: u64) + of_nat i)"

definition table_lba' :: "'d fs \<Rightarrow> nat \<Rightarrow> u32" where
  "table_lba' s i = ucast (start_table s + of_nat i)"

definition storage_lba :: "'d fs \<Rightarrow> u64 \<Rightarrow> u32" where
  "storage_lba s k = ucast (start_storage s + k)"

lemma ucast_add_32: "(ucast (a + b :: u64) :: u32) = ucast a + ucast b"
  by (rule word_uint_eqI)
    (simp add: uint_word_ariths unsigned_ucast_eq take_bit_eq_mod mod_mod_cancel mod_add_eq)

lemma table_lba_eq: "table_lba s i = table_lba' s i"
proof -
  have "(ucast (ucast (start_table s :: u64) :: u32) :: u64) = take_bit 32 (start_table s)"
    by (rule bit_word_eqI) (auto simp: bit_simps)
  moreover have "(ucast (take_bit 32 x :: u64) :: u32) = ucast x" for x
    by (rule bit_word_eqI) (auto simp: bit_simps)
  ultimately show ?thesis
    by (simp add: table_lba_def table_lba'_def ucast_add_32)
qed

section \<open>Properties\<close>

text \<open>The 64 bytes of a table entry determine its fields and the fields determine the bytes; storing an entry in a
  slot of a sector is read back from that slot and leaves the seven others alone.\<close>

lemma entry_codec:
  assumes "wf_entry e" "length raw = 64" "length buf = 512" "i < 8" "j < 8"
  shows "entry_of_bytes (bytes_of_entry e) = e \<and> bytes_of_entry (entry_of_bytes raw) = raw \<and>
    entry_at (put_entry buf i e) j = (if i = j then e else entry_at buf j)"
  using assms by (simp add: bytes_of_entry_of_bytes)

lemma entry_codec_witness:
  "entry_at (put_entry (replicate 512 0) 3 (zero_entry\<lparr>e_id := 7, e_data_frame := 0x1122334455667788\<rparr>)) 3
     = zero_entry\<lparr>e_id := 7, e_data_frame := 0x1122334455667788\<rparr>"
  using entry_codec[of "zero_entry\<lparr>e_id := 7, e_data_frame := 0x1122334455667788\<rparr>" "replicate 64 0" "replicate 512 0" 3 3]
  by (simp add: wf_entry_def zero_entry_def)

end
