(* ===== verification/CText.thy ===== *)
theory CText
  imports KPrelude
begin

text \<open>
  The string routines: \<open>somthings.c\<close>, the number and concatenation helpers of \<open>main.c\<close> with their
  static buffers, its random number generator, and the decimal output of \<open>debug.h\<close>.
\<close>

section \<open>somthings.c\<close>

text \<open>\<open>while (i < max && src[i] != 0)\<close> and \<open>while (i < max)\<close>; the last argument is \<open>max - i\<close>.\<close>

fun strncpy_copy :: "bytes \<Rightarrow> cstring \<Rightarrow> nat \<Rightarrow> nat \<Rightarrow> (bytes \<times> nat) option" where
  "strncpy_copy dest src i 0 = Some (dest, i)"
| "strncpy_copy dest src i (Suc n) =
     (if cat src i = 0 then Some (dest, i)
      else do { dest \<leftarrow> poke dest i (cat src i); strncpy_copy dest src (i + 1) n })"

fun strncpy_pad :: "bytes \<Rightarrow> nat \<Rightarrow> nat \<Rightarrow> bytes option" where
  "strncpy_pad dest i 0 = Some dest"
| "strncpy_pad dest i (Suc n) = do { dest \<leftarrow> poke dest i 0; strncpy_pad dest (i + 1) n }"

text \<open>The unbounded branch, \<open>while (src[i] != 0)\<close>; it ends because \<open>src\<close> is a string.\<close>

definition fs_strncpy :: "bytes \<Rightarrow> cstring \<Rightarrow> nat \<Rightarrow> bytes option" where
  "fs_strncpy dest src n =
     (if n \<noteq> 0 then do {
        (dest, i) \<leftarrow> strncpy_copy dest src 0 n;
        strncpy_pad dest i (n - i) }
      else do {
        (dest, i) \<leftarrow> strncpy_copy dest src 0 (Suc (length src));
        poke dest i 0 })"

fun strcmp_from :: "cstring \<Rightarrow> cstring \<Rightarrow> nat \<Rightarrow> nat \<Rightarrow> int" where
  "strcmp_from rdi rsi i 0 = 1"
| "strcmp_from rdi rsi i (Suc n) =
     (if cat rdi i = 0 \<and> cat rsi i = 0 then 2
      else if cat rdi i \<noteq> cat rsi i then 0
      else strcmp_from rdi rsi (i + 1) n)"

definition fs_strcmp :: "cstring \<Rightarrow> cstring \<Rightarrow> nat \<Rightarrow> int" where
  "fs_strcmp rdi rsi n = strcmp_from rdi rsi 0 n"

lemma strncpy_copy_eq:
  "is_cstring src \<Longrightarrow> i \<le> length src \<Longrightarrow> min (length src) (i + n) \<le> length dest \<Longrightarrow>
     strncpy_copy dest src i n = Some (take i dest @ take n (drop i src) @
        drop (min (length src) (i + n)) dest, min (length src) (i + n))"
proof (induction n arbitrary: i dest)
  case 0
  then show ?case by simp
next
  case (Suc n)
  show ?case
  proof (cases "i = length src")
    case True
    with Suc.prems show ?thesis by simp
  next
    case False
    then have lt: "i < length src" "i < length dest" using Suc.prems by auto
    then have "src ! i \<noteq> 0" using Suc.prems(1) is_cstring_cat[of src i] by simp
    moreover have "strncpy_copy (dest[i := src ! i]) src (i + 1) n
      = Some (take (i + 1) (dest[i := src ! i]) @ take n (drop (i + 1) src) @
          drop (min (length src) (i + 1 + n)) (dest[i := src ! i]), min (length src) (i + 1 + n))"
      using Suc.prems lt by (intro Suc.IH) auto
    moreover have "take (i + 1) (dest[i := src ! i]) = take i dest @ [src ! i]"
      using lt by (simp add: take_Suc_conv_app_nth)
    moreover have "drop i src = src ! i # drop (i + 1) src"
      using lt by (simp add: Cons_nth_drop_Suc)
    ultimately show ?thesis using lt by simp
  qed
qed

lemma strncpy_pad_eq:
  "i + n \<le> length dest \<Longrightarrow> strncpy_pad dest i n = Some (take i dest @ replicate n 0 @ drop (i + n) dest)"
proof (induction n arbitrary: i dest)
  case 0
  then show ?case by simp
next
  case (Suc n)
  have "strncpy_pad (dest[i := 0]) (i + 1) n
    = Some (take (i + 1) (dest[i := 0]) @ replicate n 0 @ drop (i + 1 + n) (dest[i := 0]))"
    using Suc.prems by (intro Suc.IH) simp
  moreover have "take (i + 1) (dest[i := 0]) = take i dest @ [0]"
    using Suc.prems by (simp add: take_Suc_conv_app_nth)
  ultimately show ?case using Suc.prems by simp
qed

lemma fs_strncpy_bounded:
  assumes "is_cstring src" "0 < n" "n \<le> length dest"
  shows "fs_strncpy dest src n
    = Some (take n src @ replicate (n - length src) 0 @ drop n dest)"
proof (cases "n \<le> length src")
  case True
  with assms show ?thesis by (simp add: fs_strncpy_def strncpy_copy_eq min_absorb2)
next
  case False
  with assms show ?thesis
    by (simp add: fs_strncpy_def strncpy_copy_eq strncpy_pad_eq min_absorb1)
qed

lemma fs_strncpy_unbounded:
  assumes "is_cstring src" "length src < length dest"
  shows "fs_strncpy dest src 0 = Some (src @ 0 # drop (Suc (length src)) dest)"
proof -
  have "(src @ drop (length src) dest)[length src := 0] = src @ 0 # drop (Suc (length src)) dest"
    using assms by (simp add: list_update_append flip: Cons_nth_drop_Suc)
  with assms strncpy_copy_eq[of src 0 "Suc (length src)" dest] show ?thesis
    by (simp add: fs_strncpy_def min_absorb1 del: strncpy_copy.simps)
qed

lemma strcmp_from_drop:
  "strcmp_from a b i n = strcmp_from (drop i a) (drop i b) 0 n"
proof (induction n arbitrary: i a b)
  case 0
  then show ?case by simp
next
  case (Suc n)
  have c: "cat (drop i x) 0 = cat x i" for x by (simp add: cat_def)
  have "strcmp_from a b (i + 1) n = strcmp_from (drop i a) (drop i b) 1 n"
    using Suc[of a b "i + 1"] Suc[of "drop i a" "drop i b" 1] by (simp add: add.commute)
  then show ?case by (simp add: c)
qed

lemma strcmp_from_Cons:
  "strcmp_from (x # a) (y # b) 0 (Suc n)
     = (if x = 0 \<and> y = 0 then 2 else if x \<noteq> y then 0 else strcmp_from a b 0 n)"
  using strcmp_from_drop[of "x # a" "y # b" 1 n] by auto

lemma fs_strcmp_result:
  assumes "is_cstring a" "is_cstring b"
  shows "fs_strcmp a b n = (if a = b \<and> length a < n then 2 else if take n a = take n b then 1 else 0)"
  using assms unfolding fs_strcmp_def
proof (induction n arbitrary: a b)
  case 0
  then show ?case by simp
next
  case (Suc n)
  show ?case
  proof (cases a; cases b)
    fix x a' y b'
    assume ab: "a = x # a'" "b = y # b'"
    with Suc.prems have "x \<noteq> 0" "y \<noteq> 0" "is_cstring a'" "is_cstring b'"
      by (auto simp: is_cstring_def)
    then show ?thesis using Suc.IH[of a' b'] unfolding ab strcmp_from_Cons by auto
  qed (use Suc.prems in \<open>auto simp: is_cstring_def\<close>)
qed

lemma fs_strcmp_le2: "fs_strcmp a b n \<in> {0, 1, 2}"
proof -
  have "strcmp_from a b i n \<in> {0, 1, 2}" for i
    by (induction n arbitrary: i) simp_all
  then show ?thesis by (simp add: fs_strcmp_def)
qed

text \<open>Only the bytes up to the first NUL of each argument are looked at.\<close>

lemma fs_strcmp_cstr_of: "fs_strcmp (cstr_of a) (cstr_of b) n = fs_strcmp a b n"
  unfolding fs_strcmp_def
proof (induction n arbitrary: a b)
  case 0
  then show ?case by simp
next
  case (Suc n)
  have nil: "strcmp_from [] [] 0 (Suc n) = 2" "strcmp_from [] (y # ys) 0 (Suc n) = (if y = 0 then 2 else 0)"
    "strcmp_from (y # ys) [] 0 (Suc n) = (if y = 0 then 2 else 0)" for y ys by simp_all
  show ?case
  proof (cases a; cases b)
    fix x a' y b'
    assume ab: "a = x # a'" "b = y # b'"
    then show ?thesis using Suc[of a' b']
      by (cases "x = 0"; cases "y = 0") (simp_all add: cstr_of_def strcmp_from_Cons nil del: strcmp_from.simps)
  qed (auto simp: cstr_of_def)
qed

section \<open>Decimal numbers\<close>

fun str_to_u64_from :: "cstring \<Rightarrow> u64 \<Rightarrow> u64" where
  "str_to_u64_from [] result = result"
| "str_to_u64_from (c # str) result =
     (if 48 \<le> c \<and> c \<le> 57 then str_to_u64_from str (result * 10 + (ucast c - 48)) else result)"

definition str_to_u64 :: "cstring \<Rightarrow> u64" where
  "str_to_u64 str = str_to_u64_from str 0"

definition is_valid_number :: "cstring \<Rightarrow> int" where
  "is_valid_number str =
     (if str = [] then 0 else if list_all (\<lambda>c. 48 \<le> c \<and> c \<le> 57) str then 1 else 0)"

text \<open>The two loops of \<open>u64_to_str\<close>: digits into \<open>temp[21]\<close>, then back to front into \<open>str[21]\<close>.\<close>

function u64_to_str_digits :: "u64 \<Rightarrow> bytes \<Rightarrow> nat \<Rightarrow> (bytes \<times> nat) option" where
  "u64_to_str_digits num temp i =
     (if num = 0 then Some (temp, i)
      else do {
        temp \<leftarrow> poke temp i (ucast (num mod 10 + 48));
        u64_to_str_digits (num div 10) temp (i + 1) })"
  by pat_completeness auto
termination
  by (relation "measure (\<lambda>(num, _, _). unat num)") (auto simp: unat_div word_unat_eq_iff)

declare u64_to_str_digits.simps [simp del]

fun u64_to_str_copy :: "bytes \<Rightarrow> nat \<Rightarrow> bytes \<Rightarrow> nat \<Rightarrow> (bytes \<times> nat) option" where
  "u64_to_str_copy temp 0 str j = Some (str, j)"
| "u64_to_str_copy temp (Suc i) str j = do {
     c \<leftarrow> peek temp i;
     str \<leftarrow> poke str j c;
     u64_to_str_copy temp i str (j + 1) }"

text \<open>\<open>str\<close> and \<open>temp\<close> are the contents of the two arrays at the call; the result is \<open>str\<close> after it.\<close>

definition u64_to_str :: "u64 \<Rightarrow> bytes \<Rightarrow> bytes \<Rightarrow> bytes option" where
  "u64_to_str num str temp =
     (if num = 0 then do { str \<leftarrow> poke str 0 48; poke str 1 0 }
      else do {
        (temp, i) \<leftarrow> u64_to_str_digits num temp 0;
        (str, j) \<leftarrow> u64_to_str_copy temp i str 0;
        poke str j 0 })"

text \<open>The decimal notation that \<open>u64_to_str\<close> is meant to produce.\<close>

fun dec_digits :: "nat \<Rightarrow> nat list" where
  "dec_digits n = (if n < 10 then [n] else dec_digits (n div 10) @ [n mod 10])"

declare dec_digits.simps [simp del]

definition decimal :: "nat \<Rightarrow> cstring" where
  "decimal n = map (\<lambda>d. of_nat (d + 48)) (dec_digits n)"

lemma length_dec_digits: "n < 10 ^ k \<Longrightarrow> 0 < k \<Longrightarrow> length (dec_digits n) \<le> k"
proof (induction n arbitrary: k rule: dec_digits.induct)
  case (1 n)
  show ?case
  proof (cases "n < 10")
    case True
    then show ?thesis using 1 by (simp add: dec_digits.simps[of n])
  next
    case False
    then obtain k' where k: "k = Suc k'" "0 < k'" using 1 by (cases k; cases "k - 1") auto
    have "n div 10 < 10 ^ k'" using 1 k by (simp add: less_mult_imp_div_less mult.commute)
    then show ?thesis using 1 False k by (simp add: dec_digits.simps[of n])
  qed
qed

lemma dec_digits_less: "d \<in> set (dec_digits n) \<Longrightarrow> d < 10"
proof (induction n rule: dec_digits.induct)
  case (1 n)
  then show ?case by (cases "n < 10") (auto simp: dec_digits.simps[of n])
qed

lemma is_cstring_decimal [simp]: "is_cstring (decimal n)"
proof -
  have "of_nat (d + 48) \<noteq> (0 :: u8)" if "d < 10" for d
    using that by (auto simp: word_of_nat_eq_0_iff simp del: of_nat_add dest: dvd_imp_le)
  then show ?thesis using dec_digits_less by (auto simp: is_cstring_def decimal_def simp del: of_nat_add)
qed

lemma decimal_nonempty: "decimal n \<noteq> []"
  by (simp add: decimal_def dec_digits.simps[of n])


text \<open>Reading a number back.\<close>

lemma str_to_u64_from_append:
  "list_all (\<lambda>c. 48 \<le> c \<and> c \<le> 57) xs \<Longrightarrow>
     str_to_u64_from (xs @ ys) r = str_to_u64_from ys (str_to_u64_from xs r)"
  by (induction xs arbitrary: r) auto

lemma digit_byte:
  assumes "d < 10"
  shows "48 \<le> (of_nat (d + 48) :: u8)" "(of_nat (d + 48) :: u8) \<le> 57"
    "(ucast (of_nat (d + 48) :: u8) :: u64) - 48 = of_nat d"
proof -
  from assms have "d \<in> {0, 1, 2, 3, 4, 5, 6, 7, 8, 9}" by auto
  then show "48 \<le> (of_nat (d + 48) :: u8)" "(of_nat (d + 48) :: u8) \<le> 57"
    "(ucast (of_nat (d + 48) :: u8) :: u64) - 48 = of_nat d"
    by auto
qed

lemma decimal_digits: "list_all (\<lambda>c. 48 \<le> c \<and> c \<le> 57) (decimal n)"
  by (auto simp: decimal_def list_all_iff digit_byte dec_digits_less simp del: of_nat_add)

lemma decimal_step: "\<not> n < 10 \<Longrightarrow> decimal n = decimal (n div 10) @ [of_nat (n mod 10 + 48)]"
  by (simp add: decimal_def dec_digits.simps[of n])

lemma str_to_u64_decimal_nat: "str_to_u64 (decimal n) = of_nat n"
proof (induction n rule: dec_digits.induct)
  case (1 n)
  show ?case
  proof (cases "n < 10")
    case True
    then show ?thesis
      using digit_byte[OF True] by (simp add: str_to_u64_def decimal_def dec_digits.simps[of n] del: of_nat_add)
  next
    case False
    have "str_to_u64 (decimal n) = of_nat (n div 10) * 10 + of_nat (n mod 10)"
      using 1[OF False] digit_byte[of "n mod 10"]
      by (simp add: decimal_step[OF False] str_to_u64_def str_to_u64_from_append decimal_digits del: of_nat_add)
    also have "\<dots> = of_nat (n div 10 * 10 + n mod 10)"
      by (simp only: of_nat_add of_nat_mult of_nat_numeral)
    finally show ?thesis by (simp only: div_mult_mod_eq)
  qed
qed

text \<open>The digit loop leaves the digits of \<open>num\<close> behind \<open>temp[i]\<close>, least significant first.\<close>

lemma u64_digit: "(ucast ((num :: u64) mod 10 + 48) :: u8) = of_nat (unat num mod 10 + 48)"
proof -
  define m where "m = unat num mod 10"
  have "num mod 10 = of_nat m" by (simp add: m_def word_arith_nat_mod)
  moreover have "m \<in> {0, 1, 2, 3, 4, 5, 6, 7, 8, 9}" 
  proof -
    have "m < 10" by (simp add: m_def)
    then show ?thesis by auto
  qed
  ultimately show ?thesis by (auto simp: m_def[symmetric])
qed

lemma u64_to_str_digits_eq:
  "0 < unat num \<Longrightarrow> i + length (decimal (unat num)) \<le> length temp \<Longrightarrow>
     \<exists>temp'. u64_to_str_digits num temp i = Some (temp', i + length (decimal (unat num))) \<and>
       length temp' = length temp \<and> take i temp' = take i temp \<and>
       take (length (decimal (unat num))) (drop i temp') = rev (decimal (unat num))"
proof (induction num temp i rule: u64_to_str_digits.induct)
  case (1 num temp i)
  let ?c = "ucast (num mod 10 + 48) :: u8" and ?t = "temp[i := ucast (num mod 10 + 48)]"
  have i: "i < length temp" using 1 decimal_nonempty[of "unat num"] by (cases "decimal (unat num)") auto
  have n0: "num \<noteq> 0" using 1 by auto
  show ?case
  proof (cases "unat num < 10")
    case True
    then have "unat (num div 10) = 0" by (simp add: unat_div)
    then have d0: "num div 10 = 0" by (simp add: word_unat_eq_iff)
    have "decimal (unat num) = [?c]"
      using True by (simp add: decimal_def dec_digits.simps[of "unat num"] u64_digit)
    moreover have "u64_to_str_digits num temp i = Some (?t, i + 1)"
      using n0 i d0 by (simp add: u64_to_str_digits.simps[of num] u64_to_str_digits.simps[of 0])
    ultimately show ?thesis using i by (simp add: take_Suc_conv_app_nth drop_update_cancel Cons_nth_drop_Suc[symmetric])
  next
    case False
    have dec: "decimal (unat num) = decimal (unat (num div 10)) @ [?c]"
      using decimal_step[OF False] by (simp add: unat_div u64_digit)
    have "unat (num div 10) > 0" using False by (simp add: unat_div)
    then obtain t' where t': "u64_to_str_digits (num div 10) ?t (i + 1)
        = Some (t', i + 1 + length (decimal (unat (num div 10))))"
      "length t' = length ?t" "take (i + 1) t' = take (i + 1) ?t"
      "take (length (decimal (unat (num div 10)))) (drop (i + 1) t') = rev (decimal (unat (num div 10)))"
      using "1.IH"[OF n0] i "1.prems"(2) dec by auto
    have lt: "i < length t'" using t' i by simp
    have "t' ! i = ?c" using arg_cong[OF t'(3), of "\<lambda>l. l ! i"] i by simp
    moreover have "take i t' = take i temp"
      using arg_cong[OF t'(3), of "take i"] by simp
    moreover have "u64_to_str_digits num temp i = Some (t', i + length (decimal (unat num)))"
      using n0 i t'(1) dec by (simp add: u64_to_str_digits.simps[of num])
    moreover have "drop i t' = t' ! i # drop (i + 1) t'" using lt by (simp add: Cons_nth_drop_Suc)
    ultimately show ?thesis using t' dec by simp
  qed
qed

lemma u64_to_str_copy_eq:
  "i \<le> length temp \<Longrightarrow> j + i \<le> length str \<Longrightarrow>
     u64_to_str_copy temp i str j = Some (take j str @ rev (take i temp) @ drop (j + i) str, j + i)"
proof (induction i arbitrary: str j)
  case 0
  then show ?case by simp
next
  case (Suc i)
  have "u64_to_str_copy temp i (str[j := temp ! i]) (j + 1)
    = Some (take (j + 1) (str[j := temp ! i]) @ rev (take i temp) @ drop (j + 1 + i) (str[j := temp ! i]),
        j + 1 + i)"
    using Suc.prems by (intro Suc.IH) auto
  moreover have "take (j + 1) (str[j := temp ! i]) = take j str @ [temp ! i]"
    using Suc.prems by (simp add: take_Suc_conv_app_nth)
  ultimately show ?case using Suc.prems by (simp add: take_Suc_conv_app_nth)
qed

lemma length_decimal_u64: "length (decimal (unat (num :: u64))) \<le> 20"
proof -
  have "unat num < 2 ^ 64" using unsigned_less[of num] by simp
  also have "(2::nat) ^ 64 < 10 ^ 20" by simp
  finally show ?thesis using length_dec_digits[of "unat num" 20] by (simp add: decimal_def)
qed

lemma u64_to_str_decimal:
  assumes "length str = 21" "length temp = 21"
  shows "\<exists>str'. u64_to_str num str temp = Some str' \<and> length str' = 21 \<and> cstr_of str' = decimal (unat num)"
proof (cases "num = 0")
  case True
  obtain a b r where "str = a # b # r"
    using assms by (cases str; cases "tl str") auto
  then have "cstr_of (str[0 := 48, 1 := 0]) = [48]" by (simp add: cstr_of_def)
  with True assms show ?thesis
    by (simp add: u64_to_str_def decimal_def dec_digits.simps[of 0])
next
  case False
  let ?d = "decimal (unat num)" and ?n = "length (decimal (unat num))"
  have n: "?n \<le> 20" by (rule length_decimal_u64)
  from False have "0 < unat num" by (simp add: word_unat_eq_iff)
  then obtain t where t: "u64_to_str_digits num temp 0 = Some (t, ?n)" "length t = 21" "take ?n t = rev ?d"
    using u64_to_str_digits_eq[of num 0 temp] n assms by auto
  have "u64_to_str_copy t ?n str 0 = Some (?d @ drop ?n str, ?n)"
    using u64_to_str_copy_eq[of ?n t 0 str] n assms t by simp
  moreover have "(?d @ drop ?n str)[?n := 0] = ?d @ 0 # drop (Suc ?n) str"
    using n assms by (simp add: list_update_append flip: Cons_nth_drop_Suc)
  ultimately show ?thesis using False t n assms by (simp add: u64_to_str_def)
qed

section \<open>Concatenation in rotating static buffers\<close>

record concat_state =
  cdst :: "bytes list"
  cslot :: nat

definition concat_init :: concat_state where
  "concat_init = \<lparr>cdst = replicate 4 (replicate 1024 0), cslot = 0\<rparr>"

definition concat_ok :: "concat_state \<Rightarrow> bool" where
  "concat_ok st \<longleftrightarrow> length (cdst st) = 4 \<and> (\<forall>b \<in> set (cdst st). length b = 1024) \<and> cslot st < 4"

text \<open>\<open>while (s[i] != 0) out[j++] = s[i++];\<close>\<close>

fun concat_copy :: "bytes \<Rightarrow> nat \<Rightarrow> cstring \<Rightarrow> (bytes \<times> nat) option" where
  "concat_copy out j [] = Some (out, j)"
| "concat_copy out j (c # s) = do { out \<leftarrow> poke out j c; concat_copy out (j + 1) s }"

text \<open>The result is the index of the buffer that the returned pointer designates.\<close>

definition str_concat :: "cstring \<Rightarrow> cstring \<Rightarrow> concat_state \<Rightarrow> (nat \<times> concat_state) option" where
  "str_concat s1 s2 st = do {
     let p = cslot st;
     let st = st\<lparr>cslot := (p + 1) mod 4\<rparr>;
     out \<leftarrow> peek (cdst st) p;
     (out, j) \<leftarrow> concat_copy out 0 s1;
     (out, j) \<leftarrow> concat_copy out j s2;
     out \<leftarrow> poke out j 0;
     Some (p, st\<lparr>cdst := (cdst st)[p := out]\<rparr>) }"

lemma concat_copy_eq:
  "j + length s \<le> length out \<Longrightarrow>
     concat_copy out j s = Some (take j out @ s @ drop (j + length s) out, j + length s)"
proof (induction s arbitrary: out j)
  case Nil
  then show ?case by simp
next
  case (Cons c s)
  have "take (j + 1) (out[j := c]) = take j out @ [c]"
    using Cons.prems by (simp add: take_Suc_conv_app_nth)
  with Cons.IH[of "j + 1" "out[j := c]"] Cons.prems show ?case by simp
qed

lemma concat_copy_overflow: "j \<le> length out \<Longrightarrow> length out < j + length s \<Longrightarrow> concat_copy out j s = None"
proof (induction s arbitrary: out j)
  case Nil
  then show ?case by simp
next
  case (Cons c s)
  then show ?case by (cases "j < length out") simp_all
qed

lemma str_concat_eq:
  assumes ok: "concat_ok st" and len: "length s1 + length s2 < 1024"
  shows "str_concat s1 s2 st = Some (cslot st, st\<lparr>cslot := (cslot st + 1) mod 4,
    cdst := (cdst st)[cslot st := s1 @ s2 @ 0 # drop (Suc (length s1 + length s2)) (cdst st ! cslot st)]\<rparr>)"
proof -
  let ?o = "cdst st ! cslot st"
  have o: "length ?o = 1024" using ok by (auto simp: concat_ok_def)
  have "(s1 @ s2 @ drop (length s1 + length s2) ?o)[length s1 + length s2 := 0]
    = s1 @ s2 @ 0 # drop (Suc (length s1 + length s2)) ?o"
    using len o by (simp add: list_update_append flip: Cons_nth_drop_Suc)
  then show ?thesis
    using ok len o by (simp add: str_concat_def concat_ok_def concat_copy_eq Let_def add.commute)
qed

lemma str_concat_keeps_ok:
  assumes ok: "concat_ok st" and len: "length s1 + length s2 < 1024"
    and r: "str_concat s1 s2 st = Some (p, st')"
  shows "concat_ok st'"
proof -
  have "length (cdst st ! cslot st) = 1024" using ok by (auto simp: concat_ok_def)
  then have "length (s1 @ s2 @ 0 # drop (Suc (length s1 + length s2)) (cdst st ! cslot st)) = 1024"
    using len by simp
  with ok r show ?thesis unfolding str_concat_eq[OF ok len] concat_ok_def
    by (auto dest!: set_update_subset_insert[THEN subsetD])
qed

section \<open>Random numbers\<close>

definition simple_rand :: "u64 \<Rightarrow> u64" where
  "simple_rand rng_state =
     (let rng_state = rng_state XOR push_bit 13 rng_state;
          rng_state = rng_state XOR drop_bit 7 rng_state;
          rng_state = rng_state XOR push_bit 17 rng_state
      in rng_state)"

lemma xor_push_inj:
  assumes k: "0 < k" and eq: "x XOR push_bit k x = y XOR push_bit k (y :: u64)"
  shows "x = y"
proof (rule bit_word_eqI)
  fix n assume "n < LENGTH(64)"
  then show "bit x n \<longleftrightarrow> bit y n"
  proof (induction n rule: less_induct)
    case (less n)
    have "bit (x XOR push_bit k x) n = bit (y XOR push_bit k y) n" by (simp only: eq)
    moreover have "k \<le> n \<Longrightarrow> bit x (n - k) = bit y (n - k)" using less k by auto
    ultimately show ?case using less.prems by (auto simp: bit_xor_iff bit_push_bit_iff)
  qed
qed

lemma xor_drop_inj:
  assumes k: "0 < k" and eq: "x XOR drop_bit k x = y XOR drop_bit k (y :: u64)"
  shows "x = y"
proof (rule bit_word_eqI)
  fix n assume "n < LENGTH(64)"
  then show "bit x n \<longleftrightarrow> bit y n"
  proof (induction "64 - n" arbitrary: n rule: less_induct)
    case less
    have "bit (x XOR drop_bit k x) n = bit (y XOR drop_bit k y) n" by (simp only: eq)
    moreover have "bit x (k + n) = bit y (k + n)"
    proof (cases "k + n < 64")
      case True
      then show ?thesis using less k by auto
    next
      case False
      then show ?thesis using bit_imp_le_length[of x "k + n"] bit_imp_le_length[of y "k + n"] by auto
    qed
    ultimately show ?case by (auto simp: bit_xor_iff bit_drop_bit_eq)
  qed
qed

lemma simple_rand_inj: "simple_rand x = simple_rand y \<longleftrightarrow> x = y"
proof
  assume "simple_rand x = simple_rand y"
  then show "x = y" unfolding simple_rand_def Let_def
    by (rule xor_push_inj[OF _ xor_drop_inj[OF _ xor_push_inj], rotated -1]) simp_all
qed simp

lemma simple_rand_zero: "simple_rand x = 0 \<longleftrightarrow> x = 0"
proof -
  have "simple_rand 0 = 0" by (simp add: simple_rand_def)
  then show ?thesis using simple_rand_inj[of x 0] by simp
qed

section \<open>Debug output\<close>

text \<open>The bytes that \<open>debug_put64\<close> sends to port 0xE9; \<open>buf\<close> is its local array of 20 bytes.\<close>

definition debug_put64 :: "u64 \<Rightarrow> bytes \<Rightarrow> bytes option" where
  "debug_put64 n buf =
     (if n = 0 then Some [48]
      else do {
        (buf, i) \<leftarrow> u64_to_str_digits n buf 0;
        Some (rev (take i buf)) })"

lemma debug_put64_decimal:
  assumes "length buf = 20"
  shows "debug_put64 n buf = Some (decimal (unat n))"
proof (cases "n = 0")
  case True
  then show ?thesis by (simp add: debug_put64_def decimal_def dec_digits.simps[of 0])
next
  case False
  then have "0 < unat n" by (simp add: word_unat_eq_iff)
  then obtain t where "u64_to_str_digits n buf 0 = Some (t, length (decimal (unat n)))"
      "take (length (decimal (unat n))) t = rev (decimal (unat n))"
    using u64_to_str_digits_eq[of n 0 buf] length_decimal_u64[of n] assms by auto
  with False show ?thesis by (simp add: debug_put64_def)
qed

text \<open>The bytes that \<open>debug_put16\<close> sends to port 0xE9; \<open>buf\<close> is its local array of 5 bytes.\<close>

function put16_digits :: "u16 \<Rightarrow> bytes \<Rightarrow> nat \<Rightarrow> (bytes \<times> nat) option" where
  "put16_digits n buf i =
     (if n = 0 then Some (buf, i)
      else do {
        buf \<leftarrow> poke buf i (ucast (n mod 10 + 48));
        put16_digits (n div 10) buf (i + 1) })"
  by pat_completeness auto
termination
  by (relation "measure (\<lambda>(n, _, _). unat n)") (auto simp: unat_div word_unat_eq_iff)

declare put16_digits.simps [simp del]

definition debug_put16 :: "u16 \<Rightarrow> bytes \<Rightarrow> bytes option" where
  "debug_put16 n buf =
     (if n = 0 then Some [48]
      else do {
        (buf, i) \<leftarrow> put16_digits n buf 0;
        Some (rev (take i buf)) })"

lemma unat_ucast_16: "unat (ucast (w :: u16) :: u64) = unat w"
proof -
  have "unat w < 2 ^ 16" using unsigned_less[of w] by simp
  then show ?thesis by (simp add: unsigned_ucast_eq take_bit_nat_eq_self)
qed

lemma wide16:
  fixes n :: u16
  shows "(ucast n :: u64) = 0 \<longleftrightarrow> n = 0" "ucast n div 10 = (ucast (n div 10) :: u64)"
    "(ucast ((ucast n :: u64) mod 10 + 48) :: u8) = ucast (n mod 10 + 48)"
proof -
  have u: "unat (ucast n :: u64) = unat n" for n :: u16 by (rule unat_ucast_16)
  show "(ucast n :: u64) = 0 \<longleftrightarrow> n = 0" using u[of n] by (simp add: word_unat_eq_iff)
  show "ucast n div 10 = (ucast (n div 10) :: u64)" using u by (simp add: word_unat_eq_iff unat_div)
  have m: "unat n mod 10 < 10" by simp
  have "unat ((ucast n :: u64) mod 10 + 48) = unat n mod 10 + 48" "unat (n mod 10 + 48) = unat n mod 10 + 48"
    using m u by (simp_all add: unat_word_ariths unat_mod)
  then show "(ucast ((ucast n :: u64) mod 10 + 48) :: u8) = ucast (n mod 10 + 48)"
    by (simp add: word_unat_eq_iff unsigned_ucast_eq)
qed

lemma put16_digits_eq: "put16_digits n buf i = u64_to_str_digits (ucast n) buf i"
proof (induction n buf i rule: put16_digits.induct)
  case (1 n buf i)
  show ?case
    using 1 by (cases "n = 0") (simp_all add: put16_digits.simps[of n] put16_digits.simps[of 0] u64_to_str_digits.simps[of "ucast n"] u64_to_str_digits.simps[of 0] wide16 poke_def)
qed

lemma debug_put16_decimal:
  assumes "length buf = 5"
  shows "debug_put16 n buf = Some (decimal (unat n))"
proof (cases "n = 0")
  case True
  then show ?thesis by (simp add: debug_put16_def decimal_def dec_digits.simps[of 0])
next
  case False
  have u: "unat (ucast n :: u64) = unat n" by (rule unat_ucast_16)
  have lt: "unat n < 2 ^ 16" using unsigned_less[of n] by simp
  then have "length (decimal (unat n)) \<le> 5"
    using length_dec_digits[of "unat n" 5] by (simp add: decimal_def)
  moreover have "0 < unat n" using False by (simp add: word_unat_eq_iff)
  ultimately obtain t where "u64_to_str_digits (ucast n) buf 0 = Some (t, length (decimal (unat n)))"
      "take (length (decimal (unat n))) t = rev (decimal (unat n))"
    using u64_to_str_digits_eq[of "ucast n" 0 buf] assms u by auto
  with False show ?thesis by (simp add: debug_put16_def put16_digits_eq)
qed

section \<open>Properties\<close>

text \<open>\<open>fs_strcmp\<close> looks only at the text before the first NUL of each argument: the result is 2 for equal strings
  that end within the bound, 1 when the bound is reached without a difference, 0 otherwise.\<close>

lemma fs_strcmp_meaning:
  "fs_strcmp a b n = (if cstr_of a = cstr_of b \<and> length (cstr_of a) < n then 2
     else if take n (cstr_of a) = take n (cstr_of b) then 1 else 0)"
  using fs_strcmp_result[of "cstr_of a" "cstr_of b" n] by (simp add: fs_strcmp_cstr_of)

text \<open>C37. \<open>u64_to_str\<close> writes the decimal numeral of every 64-bit number within its 21-byte buffers, and
  \<open>is_valid_number\<close> accepts it and \<open>str_to_u64\<close> reads the number back.\<close>

theorem u64_text_round_trip:
  assumes "length str = 21" "length temp = 21"
  shows "\<exists>str'. u64_to_str num str temp = Some str' \<and> cstr_of str' = decimal (unat num) \<and>
    is_valid_number (cstr_of str') = 1 \<and> str_to_u64 (cstr_of str') = num"
proof -
  obtain str' where s: "u64_to_str num str temp = Some str'" "cstr_of str' = decimal (unat num)"
    using u64_to_str_decimal[OF assms] by blast
  moreover have "is_valid_number (decimal (unat num)) = 1"
    using decimal_digits[of "unat num"] decimal_nonempty[of "unat num"] by (simp add: is_valid_number_def)
  moreover have "str_to_u64 (decimal (unat num)) = num" by (simp add: str_to_u64_decimal_nat)
  ultimately show ?thesis by simp
qed

theorem u64_text_round_trip_witness:
  "\<exists>str'. u64_to_str (0 - 1) (replicate 21 7) (replicate 21 0) = Some str' \<and> str_to_u64 (cstr_of str') = 0 - 1"
  using u64_text_round_trip[of "replicate 21 7" "replicate 21 0" "0 - 1"] by auto

text \<open>\<open>str_concat\<close> returns the buffer of its current slot holding the concatenation, when that fits in 1024 bytes
  with its NUL, leaves the three other buffers alone and moves to the next slot: a result
  survives the next three calls.\<close>

lemma str_concat_result:
  assumes "concat_ok st" "is_cstring s1" "is_cstring s2" "length s1 + length s2 < 1024"
  shows "\<exists>st'. str_concat s1 s2 st = Some (cslot st, st') \<and> concat_ok st' \<and>
    cstr_of (cdst st' ! cslot st) = s1 @ s2 \<and> cslot st' = (cslot st + 1) mod 4 \<and>
    (\<forall>p. p \<noteq> cslot st \<longrightarrow> cdst st' ! p = cdst st ! p)"
proof -
  let ?b = "s1 @ s2 @ 0 # drop (Suc (length s1 + length s2)) (cdst st ! cslot st)"
  let ?st = "st\<lparr>cslot := (cslot st + 1) mod 4, cdst := (cdst st)[cslot st := ?b]\<rparr>"
  note eq = str_concat_eq[OF assms(1,4)]
  have "cstr_of ?b = s1 @ s2" using cstr_of_terminated[of "s1 @ s2"] assms(2,3) by simp
  moreover have "concat_ok ?st" using str_concat_keeps_ok[OF assms(1,4) eq] .
  moreover have "cslot st < length (cdst st)" using assms(1) by (simp add: concat_ok_def)
  ultimately show ?thesis using eq by (intro exI[of _ ?st]) simp
qed

lemma concat_init_ok [simp]: "concat_ok concat_init"
  by (simp add: concat_ok_def concat_init_def)

lemma str_concat_result_witness:
  "\<exists>st'. str_concat [47] [97, 98] concat_init = Some (0, st') \<and>
    cstr_of (cdst st' ! 0) = [47, 97, 98] \<and> cslot st' = 1"
proof -
  have "cslot concat_init = 0" by (simp add: concat_init_def)
  moreover have "is_cstring [47]" "is_cstring [97, 98]" by (simp_all add: is_cstring_def)
  ultimately show ?thesis using str_concat_result[OF concat_init_ok, of "[47]" "[97, 98]"] by auto
qed

text \<open>\<open>simple_rand\<close> permutes the 64-bit states, and never reaches 0 from another state.\<close>

lemma simple_rand_permutes: "bij simple_rand \<and> (simple_rand x = 0 \<longleftrightarrow> x = 0)"
proof -
  have "inj simple_rand" by (rule injI) (simp add: simple_rand_inj)
  then show ?thesis using finite_UNIV_inj_surj[of simple_rand] simple_rand_zero[of x]
    by (simp add: bij_def)
qed

text \<open>\<open>fs_strncpy\<close> with a bound copies the string, cut to the bound, and pads with NULs up to it; without a
  bound it copies the string and its NUL. No other byte of the destination changes.\<close>

lemma fs_strncpy_meaning:
  assumes "is_cstring src" and "if n = 0 then length src < length dest else n \<le> length dest"
  shows "fs_strncpy dest src n
    = Some (if n = 0 then src @ 0 # drop (Suc (length src)) dest
            else take n src @ replicate (n - length src) 0 @ drop n dest)"
  using fs_strncpy_bounded[OF assms(1), of n dest] fs_strncpy_unbounded[OF assms(1), of dest] assms(2)
  by (auto split: if_splits)

lemma fs_strncpy_meaning_witness:
  "fs_strncpy [1, 1, 1, 1, 1] [97, 98] 4 = Some [97, 98, 0, 0, 1]"
proof -
  have "is_cstring [97, 98]" by (simp add: is_cstring_def)
  moreover have "replicate 2 (0 :: u8) = [0, 0]" by (simp add: numeral_eq_Suc)
  ultimately show ?thesis using fs_strncpy_meaning[of "[97, 98]" 4 "[1, 1, 1, 1, 1]"] by simp
qed

text \<open>\<open>debug_put64\<close> prints the decimal numeral of every 64-bit number within its 20-byte buffer.\<close>

lemma debug_put64_prints:
  assumes "length buf = 20"
  shows "debug_put64 n buf = Some (decimal (unat n))"
  using debug_put64_decimal[OF assms] .

lemma debug_put64_prints_witness: "debug_put64 (0 - 1) (replicate 20 0) = Some (decimal (2 ^ 64 - 1))"
  using debug_put64_prints[of "replicate 20 0" "0 - 1"] by (simp add: unsigned_minus_1_eq_mask mask_eq_exp_minus_1)

end
