(* ===== verification/FsTable.thy ===== *)
theory FsTable
  imports FsState CText
begin

text \<open>
  The on-disk structures of \<open>fs.c\<close>: the allocation bitmap in the sectors from 1, the sector of the
  last id, and the file table of 1024 entries in 128 sectors. One definition per function; the
  functions that scan the table share \<open>table_search\<close>, the loop that the source repeats in each.
\<close>

section \<open>Integers in a sector buffer\<close>

text \<open>\<open>((uint64_t)b[off+7] << 56) | ... | (uint64_t)b[off]\<close>\<close>

definition u64_at :: "bytes \<Rightarrow> nat \<Rightarrow> u64" where
  "u64_at b off =
     push_bit 56 (ucast (b ! (off + 7))) OR push_bit 48 (ucast (b ! (off + 6)))
     OR push_bit 40 (ucast (b ! (off + 5))) OR push_bit 32 (ucast (b ! (off + 4)))
     OR push_bit 24 (ucast (b ! (off + 3))) OR push_bit 16 (ucast (b ! (off + 2)))
     OR push_bit 8 (ucast (b ! (off + 1))) OR ucast (b ! off)"

text \<open>\<open>for (i = 0; i < 8; i++) b[off + i] = (uint8_t)(v >> (i * 8));\<close>\<close>

definition put_u64 :: "bytes \<Rightarrow> nat \<Rightarrow> u64 \<Rightarrow> bytes" where
  "put_u64 b off v = fold (\<lambda>i b. b[off + i := ucast (drop_bit (i * 8) v)]) [0..<8] b"

section \<open>The allocation bitmap\<close>

definition bitmap_lba :: "u64 \<Rightarrow> u32" where
  "bitmap_lba fream_index = ucast (1 + fream_index div 8 div 512)"

definition bitmap_byte :: "u64 \<Rightarrow> nat" where
  "bitmap_byte fream_index = unat ((fream_index div 8) mod 512)"

text \<open>\<open>1 << (fream_index % 8)\<close>, of which the byte operations use the low eight bits.\<close>

definition bitmap_mask :: "u64 \<Rightarrow> u8" where
  "bitmap_mask fream_index = push_bit (unat (fream_index mod 8)) 1"

definition bitmap_set :: "'d ata_h \<Rightarrow> u64 \<Rightarrow> 'd fs \<Rightarrow> 'd fs option" where
  "bitmap_set E fream_index s = do {
     (st, this_bitmap, s) \<leftarrow> read1 E (bitmap_lba fream_index) (local_buf E 512 s) s;
     let b = bitmap_byte fream_index;
     let this_bitmap = this_bitmap[b := this_bitmap ! b OR bitmap_mask fream_index];
     (st, s) \<leftarrow> write1 E (bitmap_lba fream_index) this_bitmap s;
     Some s }"

definition bitmap_clear :: "'d ata_h \<Rightarrow> u64 \<Rightarrow> 'd fs \<Rightarrow> 'd fs option" where
  "bitmap_clear E fream_index s = do {
     (st, this_bitmap, s) \<leftarrow> read1 E (bitmap_lba fream_index) (local_buf E 512 s) s;
     let b = bitmap_byte fream_index;
     let this_bitmap = this_bitmap[b := this_bitmap ! b AND NOT (bitmap_mask fream_index)];
     (st, s) \<leftarrow> write1 E (bitmap_lba fream_index) this_bitmap s;
     Some s }"

definition bitmap_read :: "'d ata_h \<Rightarrow> u64 \<Rightarrow> 'd fs \<Rightarrow> (int \<times> 'd fs) option" where
  "bitmap_read E fream_index s = do {
     (st, this_bitmap, s) \<leftarrow> read1 E (bitmap_lba fream_index) (local_buf E 512 s) s;
     Some (uint (this_bitmap ! bitmap_byte fream_index AND bitmap_mask fream_index), s) }"

text \<open>\<open>for (k = 0; k < n; k++) bitmap_set(first + k);\<close> and the same with \<open>bitmap_clear\<close>.\<close>

fun bitmap_set_range :: "'d ata_h \<Rightarrow> u64 \<Rightarrow> nat \<Rightarrow> 'd fs \<Rightarrow> 'd fs option" where
  "bitmap_set_range E k 0 s = Some s"
| "bitmap_set_range E k (Suc n) s = do {
     s \<leftarrow> bitmap_set E k s;
     bitmap_set_range E (k + 1) n s }"

fun bitmap_clear_range :: "'d ata_h \<Rightarrow> u64 \<Rightarrow> nat \<Rightarrow> 'd fs \<Rightarrow> 'd fs option" where
  "bitmap_clear_range E k 0 s = Some s"
| "bitmap_clear_range E k (Suc n) s = do {
     s \<leftarrow> bitmap_clear E k s;
     bitmap_clear_range E (k + 1) n s }"

section \<open>Allocation of a region\<close>

definition write_uint64_to_last_8_bytes :: "'d ata_h \<Rightarrow> u64 \<Rightarrow> u64 \<Rightarrow> u64 \<Rightarrow> 'd fs \<Rightarrow> 'd fs option" where
  "write_uint64_to_last_8_bytes E frame_index sz value s =
     (if sz = 0 then Some s
      else do {
        let data_region_start = start_table s + of_nat fs_table_size_sectors;
        let last_sector = data_region_start + frame_index + sz - 1;
        (st, buf, s) \<leftarrow> read1 E (ucast last_sector) (local_buf E 512 s) s;
        let buf = put_u64 buf 504 value;
        (st, s) \<leftarrow> write1 E (ucast last_sector) buf s;
        Some s })"

text \<open>
  The loop over \<open>i5\<close>: how many of the \<open>n\<close> bits from bit \<open>i4\<close> of byte \<open>i3\<close> are set. Nothing stops it
  from reading past the 512 bytes of the buffer.
\<close>

fun region_bits :: "bytes \<Rightarrow> nat \<Rightarrow> nat \<Rightarrow> nat \<Rightarrow> nat \<Rightarrow> nat option" where
  "region_bits buf i3 i4 i5 0 = Some 0"
| "region_bits buf i3 i4 i5 (Suc n) = do {
     let this_shift = i4 + i5;
     byte_to_check \<leftarrow> peek buf (if 7 < this_shift then i3 + this_shift div 8 else i3);
     let this_shift = (if 7 < this_shift then this_shift - (this_shift div 8) * 8 else this_shift);
     this_bit \<leftarrow> region_bits buf i3 i4 (i5 + 1) n;
     Some ((if bit byte_to_check this_shift then 1 else 0) + this_bit) }"

text \<open>The loops over \<open>i3\<close> and \<open>i4\<close>, in the order of the bit number \<open>pos = 8 * i3 + i4\<close>.\<close>

fun region_scan :: "bytes \<Rightarrow> nat \<Rightarrow> nat \<Rightarrow> nat \<Rightarrow> nat option option" where
  "region_scan buf sz pos 0 = Some None"
| "region_scan buf sz pos (Suc n) = do {
     this_bit \<leftarrow> region_bits buf (pos div 8) (pos mod 8) 0 sz;
     if this_bit = 0 then Some (Some pos) else region_scan buf sz (pos + 1) n }"

fun region_sectors :: "'d ata_h \<Rightarrow> nat \<Rightarrow> nat \<Rightarrow> nat \<Rightarrow> bytes \<Rightarrow> 'd fs \<Rightarrow> (nat option \<times> 'd fs) option" where
  "region_sectors E sz i 0 this_buffer s = Some (None, s)"
| "region_sectors E sz i (Suc n) this_buffer s = do {
     (stat, this_buffer, s) \<leftarrow> read1 E (1 + of_nat i) this_buffer s;
     r \<leftarrow> (if stat = 0 then region_scan this_buffer sz 0 4096 else Some None);
     case r of
       Some pos \<Rightarrow> Some (Some (i * 4096 + pos), s)
     | None \<Rightarrow> region_sectors E sz (i + 1) n this_buffer s }"

definition get_data_region :: "'d ata_h \<Rightarrow> int \<Rightarrow> u64 \<Rightarrow> 'd fs \<Rightarrow> (u64 \<times> 'd fs) option" where
  "get_data_region E last_data_frame sz s = do {
     (r, s) \<leftarrow> region_sectors E (unat sz) 0 (unat (fs_data_bitmap_size_sectors s)) (local_buf E 512 s) s;
     case r of
       None \<Rightarrow> Some (fs_not_found, s)
     | Some bit_index \<Rightarrow> do {
         s \<leftarrow> (if last_data_frame \<noteq> 0
               then write_uint64_to_last_8_bytes E (of_int last_data_frame) sz (of_nat bit_index) s
               else Some s);
         Some (of_nat bit_index, s) } }"

section \<open>The file table\<close>

text \<open>The slots of one sector from \<open>i3\<close>, \<open>n\<close> of them; then the sectors from \<open>i\<close>, \<open>n\<close> of them.\<close>

fun find_slot :: "(fs_file_entry \<Rightarrow> bool) \<Rightarrow> bytes \<Rightarrow> nat \<Rightarrow> nat \<Rightarrow> nat option" where
  "find_slot p buf i3 0 = None"
| "find_slot p buf i3 (Suc n) = (if p (entry_at buf i3) then Some i3 else find_slot p buf (i3 + 1) n)"

fun table_search ::
  "'d ata_h \<Rightarrow> (fs_file_entry \<Rightarrow> bool) \<Rightarrow> nat \<Rightarrow> nat \<Rightarrow> bytes \<Rightarrow> 'd fs
     \<Rightarrow> ((nat \<times> nat \<times> bytes) option \<times> 'd fs) option" where
  "table_search E p i 0 this_buffer s = Some (None, s)"
| "table_search E p i (Suc n) this_buffer s = do {
     (stat, this_buffer, s) \<leftarrow> read1 E (table_lba s i) this_buffer s;
     case (if stat = 0 then find_slot p this_buffer 0 8 else None) of
       Some i3 \<Rightarrow> Some (Some (i, i3, this_buffer), s)
     | None \<Rightarrow> table_search E p (i + 1) n this_buffer s }"

definition search_table ::
  "'d ata_h \<Rightarrow> (fs_file_entry \<Rightarrow> bool) \<Rightarrow> 'd fs \<Rightarrow> ((nat \<times> nat \<times> bytes) option \<times> 'd fs) option" where
  "search_table E p s = table_search E p 0 fs_table_size_sectors (local_buf E 512 s) s"

definition write_entry_to_table :: "'d ata_h \<Rightarrow> fs_file_entry \<Rightarrow> 'd fs \<Rightarrow> (int \<times> 'd fs) option" where
  "write_entry_to_table E this_entry s = do {
     (r, s) \<leftarrow> search_table E (\<lambda>check_entry. e_id check_entry = 0) s;
     case r of
       None \<Rightarrow> Some (-1, s)
     | Some (i, i3, this_buffer) \<Rightarrow> do {
         (st, s) \<leftarrow> write1 E (table_lba s i) (put_entry this_buffer i3 this_entry) s;
         Some (0, s) } }"

definition name_and_parent_id_to_id :: "'d ata_h \<Rightarrow> cstring \<Rightarrow> u64 \<Rightarrow> 'd fs \<Rightarrow> (u64 \<times> 'd fs) option" where
  "name_and_parent_id_to_id E name parent_id s = do {
     (r, s) \<leftarrow> search_table E
        (\<lambda>this_entry. fs_strcmp (e_name this_entry) name 24 \<noteq> 0 \<and> e_parent_id this_entry = parent_id) s;
     case r of
       None \<Rightarrow> Some (fs_not_found, s)
     | Some (i, i3, this_buffer) \<Rightarrow> Some (e_id (entry_at this_buffer i3), s) }"

text \<open>\<open>None\<close> is the result 1; \<open>Some (e, sector, slot)\<close> the result 0 with its three outputs.\<close>

definition find_entry_by_id ::
  "'d ata_h \<Rightarrow> u64 \<Rightarrow> 'd fs \<Rightarrow> ((fs_file_entry \<times> nat \<times> nat) option \<times> 'd fs) option" where
  "find_entry_by_id E id0 s =
     (if id0 = 0 \<or> id0 = fs_not_found then Some (None, s)
      else do {
        (r, s) \<leftarrow> search_table E (\<lambda>e. e_id e = id0) s;
        case r of
          None \<Rightarrow> Some (None, s)
        | Some (sector, slot, buf) \<Rightarrow> Some (Some (entry_at buf slot, sector, slot), s) })"

definition erase_table_entry :: "'d ata_h \<Rightarrow> nat \<Rightarrow> nat \<Rightarrow> 'd fs \<Rightarrow> 'd fs option" where
  "erase_table_entry E sector slot s = do {
     (st, buf, s) \<leftarrow> read1 E (table_lba' s sector) (local_buf E 512 s) s;
     if st \<noteq> 0 then Some s
     else do {
       let buf = copy_into buf (slot * 64) (replicate 64 0) 64;
       (st, s) \<leftarrow> write1 E (table_lba' s sector) buf s;
       Some s } }"

definition dir_has_children :: "'d ata_h \<Rightarrow> u64 \<Rightarrow> 'd fs \<Rightarrow> (int \<times> 'd fs) option" where
  "dir_has_children E dir_id s = do {
     (r, s) \<leftarrow> search_table E (\<lambda>e. e_id e \<noteq> 0 \<and> e_parent_id e = dir_id) s;
     Some (case r of None \<Rightarrow> 0 | Some _ \<Rightarrow> 1, s) }"

section \<open>The last id\<close>

fun table_last_id :: "'d ata_h \<Rightarrow> nat \<Rightarrow> nat \<Rightarrow> bytes \<Rightarrow> u64 \<Rightarrow> 'd fs \<Rightarrow> (u64 \<times> 'd fs) option" where
  "table_last_id E i 0 this_buffer res s = Some (res, s)"
| "table_last_id E i (Suc n) this_buffer res s = do {
     (stat, this_buffer, s) \<leftarrow> read1 E (table_lba s i) this_buffer s;
     let res = (if stat = 0
       then fold (\<lambda>i3 res. let e = entry_at this_buffer i3 in if res < e_id e then e_id e else res) [0..<8] res
       else res);
     table_last_id E (i + 1) n this_buffer res s }"

definition read_from_fs_table_last_id :: "'d ata_h \<Rightarrow> 'd fs \<Rightarrow> (u64 \<times> 'd fs) option" where
  "read_from_fs_table_last_id E s = table_last_id E 0 fs_table_size_sectors (local_buf E 512 s) 0 s"

definition last_id_lba :: "'d fs \<Rightarrow> u32" where
  "last_id_lba s = ucast (start_table s) - 1"

definition read_last_id_from_disk :: "'d ata_h \<Rightarrow> 'd fs \<Rightarrow> (u64 \<times> 'd fs) option" where
  "read_last_id_from_disk E s = do {
     (st, last_id, s) \<leftarrow> read1 E (last_id_lba s) (local_buf E 512 s) s;
     Some (u64_at last_id 0, s) }"

definition reload_last_id_to_disk :: "'d ata_h \<Rightarrow> 'd fs \<Rightarrow> 'd fs option" where
  "reload_last_id_to_disk E s = do {
     let last_id = local_buf E 512 s;
     (last_id_num, s) \<leftarrow> read_from_fs_table_last_id E s;
     let last_id = put_u64 last_id 0 last_id_num;
     (st, s) \<leftarrow> write1 E (last_id_lba s) last_id s;
     Some s }"

end
