(* ===== verification/FsPath.thy ===== *)
theory FsPath
  imports FsTable
begin

text \<open>
  The path functions of \<open>fs.c\<close>. A path argument is the text of a C string that does not lie in one of
  the static buffers; the static buffers are fields of the state and every write into them is checked.
\<close>

section \<open>Pieces of a path\<close>

abbreviation slash :: u8 where "slash \<equiv> 47"
abbreviation dot :: u8 where "dot \<equiv> 46"

definition rel_or_abs_path :: "cstring \<Rightarrow> int" where
  "rel_or_abs_path path = (if cat path 0 = slash then 0 else 1)"

text \<open>\<open>for (i = 0; i < n; i++) if (path[i] == '/') iout = i;\<close>, from -1.\<close>

definition last_slash :: "cstring \<Rightarrow> int" where
  "last_slash path = fold (\<lambda>i iout. if path ! i = slash then int i else iout) [0..<length path] (-1)"

text \<open>The returned pointer is the address of \<open>name_buf\<close>; a name of 24 bytes or more does not fit.\<close>

definition path_to_name :: "cstring \<Rightarrow> 'd fs \<Rightarrow> 'd fs option" where
  "path_to_name path s = do {
     let iout = last_slash path;
     (name, name_len) \<leftarrow> concat_copy (name_buf s) 0 (drop (nat (iout + 1)) path);
     name \<leftarrow> poke name name_len 0;
     Some (s\<lparr>name_buf := name\<rparr>) }"

text \<open>The local copy \<open>path_buf[1024]\<close>, without one trailing slash.\<close>

definition path_copy :: "cstring \<Rightarrow> cstring" where
  "path_copy path =
     (let path = take 1023 path; pathTT = length path in
      if 1 < pathTT \<and> path ! (pathTT - 1) = slash then take (pathTT - 1) path else path)"

text \<open>\<open>argv\<close>: the \<open>path_lenght\<close> bytes of the path and its NUL, every slash replaced by a NUL.\<close>

definition path_argv :: "cstring \<Rightarrow> bytes" where
  "path_argv path = map (\<lambda>c. if c = slash then 0 else c) path @ [0]"

definition path_argc :: "cstring \<Rightarrow> nat" where
  "path_argc path = 1 + length (filter (\<lambda>c. c = slash) path)"

text \<open>
  The loop that stores the address of the first byte of every word in \<open>argvs\<close>; an address is an
  index of \<open>argv\<close>. The result is \<open>argvs\<close> and \<open>idx\<close>.
\<close>

fun path_words :: "bytes \<Rightarrow> nat \<Rightarrow> nat \<Rightarrow> nat list \<Rightarrow> nat \<Rightarrow> bool \<Rightarrow> (nat list \<times> nat) option" where
  "path_words argv i 0 argvs idx new_word = Some (argvs, idx)"
| "path_words argv i (Suc n) argvs idx new_word = do {
     c \<leftarrow> peek argv i;
     if c = 0 then path_words argv (i + 1) n argvs idx True
     else if new_word then do {
       argvs \<leftarrow> poke argvs idx i;
       path_words argv (i + 1) n argvs (idx + 1) False }
     else path_words argv (i + 1) n argvs idx False }"

text \<open>\<open>char *argvs[argc]\<close>, uninitialised, filled by the loop.\<close>

definition path_argvs :: "cstring \<Rightarrow> (nat list \<times> nat) option" where
  "path_argvs path =
     path_words (path_argv path) 0 (length (path_argv path)) (replicate (path_argc path) 0) 0 True"

definition word_at :: "bytes \<Rightarrow> nat \<Rightarrow> cstring" where
  "word_at argv p = cstr_of (drop p argv)"

section \<open>Paths to ids\<close>

text \<open>\<open>for (i = 0; i < idx; i++) this_id = name_and_parent_id_to_id(argvs[i], this_id);\<close>\<close>

fun path_walk :: "'d ata_h \<Rightarrow> cstring list \<Rightarrow> u64 \<Rightarrow> 'd fs \<Rightarrow> (u64 \<times> 'd fs) option" where
  "path_walk E [] this_id s = Some (this_id, s)"
| "path_walk E (w # ws) this_id s = do {
     (this_id, s) \<leftarrow> name_and_parent_id_to_id E w this_id s;
     path_walk E ws this_id s }"

definition path_to_id :: "'d ata_h \<Rightarrow> cstring \<Rightarrow> u64 \<Rightarrow> 'd fs \<Rightarrow> (u64 \<times> 'd fs) option" where
  "path_to_id E path current_dir_id s =
     (if cat path 0 = dot \<and> cat path 1 = 0 then Some (current_dir_id, s)
      else do {
        let path = path_copy path;
        (argvs, idx) \<leftarrow> path_argvs path;
        if idx = 0 then Some (if rel_or_abs_path path = 1 then current_dir_id else 0, s)
        else path_walk E (map (word_at (path_argv path)) (take idx argvs))
               (if rel_or_abs_path path = 1 then current_dir_id else 0) s })"

fun strip_slashes :: "cstring \<Rightarrow> nat \<Rightarrow> nat" where
  "strip_slashes buf 0 = 0"
| "strip_slashes buf (Suc len) =
     (if 1 < Suc len \<and> buf ! len = slash then strip_slashes buf len else Suc len)"

definition fpath_to_path :: "'d ata_h \<Rightarrow> cstring \<Rightarrow> u64 \<Rightarrow> 'd fs \<Rightarrow> (u64 \<times> 'd fs) option" where
  "fpath_to_path E path current_dir_id s =
     (let buf = take 1023 path;
          buf = take (strip_slashes buf (length buf)) buf;
          last = last_slash buf
      in if last < 0 then Some (current_dir_id, s)
         else if last = 0 then Some (0, s)
         else path_to_id E (take (nat last) buf) current_dir_id s)"

section \<open>Ids to paths\<close>

text \<open>Copy the bytes \<open>str\<close> to the start of row \<open>p\<close> of \<open>id_to_path_path\<close>.\<close>

definition put_row :: "bytes list \<Rightarrow> nat \<Rightarrow> bytes \<Rightarrow> bytes list option" where
  "put_row rows p str =
     (if str = [] then Some rows
      else do {
        row \<leftarrow> peek rows p;
        (row, n) \<leftarrow> concat_copy row 0 str;
        Some (rows[p := row]) })"

text \<open>The loop that joins the rows \<open>i - 1, ..., 0\<close> with slashes in \<open>buffer\<close> from \<open>here_point\<close>.\<close>

fun join_rows :: "bytes list \<Rightarrow> nat \<Rightarrow> bytes \<Rightarrow> nat \<Rightarrow> (bytes \<times> nat) option" where
  "join_rows rows 0 buffer here_point = Some (buffer, here_point)"
| "join_rows rows (Suc i) buffer here_point = do {
     row \<leftarrow> peek rows i;
     i2_lenght \<leftarrow> cstrlen row;
     (buffer, here_point) \<leftarrow> concat_copy buffer here_point (take i2_lenght row);
     (buffer, here_point) \<leftarrow> (if Suc i \<noteq> 1
        then do { buffer \<leftarrow> poke buffer here_point slash; Some (buffer, here_point + 1) }
        else Some (buffer, here_point));
     join_rows rows i buffer here_point }"

text \<open>
  The recursion advances \<open>id_to_path_point\<close> before every inner call and stores into that row of 512
  rows, so an inner call at depth 513 either finds no entry or faults: a bound of 513 calls is exact.
\<close>

definition id_to_path_depth :: nat where
  "id_to_path_depth = 513"

fun id_to_path_fuel :: "'d ata_h \<Rightarrow> nat \<Rightarrow> u64 \<Rightarrow> bytes \<Rightarrow> 'd fs \<Rightarrow> (bytes \<times> 'd fs) option" where
  "id_to_path_fuel E 0 id0 buffer s = None"
| "id_to_path_fuel E (Suc fuel) id0 buffer s = do {
     let this_first_one = \<not> id_to_path_first_one s;
     let s = (if this_first_one
       then s\<lparr>id_to_path_first_one := True, id_to_path_path := replicate 512 (replicate 32 0)\<rparr> else s);
     (r, s) \<leftarrow> search_table E (\<lambda>this_entry. e_id this_entry = id0) s;
     (buffer, s) \<leftarrow> (case r of
        None \<Rightarrow> Some (buffer, s)
      | Some (i79, i379, this_buffer79) \<Rightarrow>
          let this_entry = entry_at this_buffer79 i379 in
          if e_parent_id this_entry = 0 then do {
            this_elif_lenght \<leftarrow> cstrlen (e_name this_entry);
            rows \<leftarrow> put_row (id_to_path_path s) (id_to_path_point s)
                      (take this_elif_lenght (e_name this_entry));
            Some (buffer, s\<lparr>id_to_path_path := rows, id_to_path_point := id_to_path_point s + 1,
                            id_to_path_first_one := False\<rparr>) }
          else do {
            this_elif_lenght \<leftarrow> cstrlen (e_name this_entry);
            rows \<leftarrow> put_row (id_to_path_path s) (id_to_path_point s)
                      (take (this_elif_lenght + 1) (e_name this_entry));
            id_to_path_fuel E fuel (e_parent_id this_entry) buffer
              (s\<lparr>id_to_path_path := rows, id_to_path_point := id_to_path_point s + 1\<rparr>) });
     if this_first_one then do {
       let s = s\<lparr>id_to_path_first_one := False\<rparr>;
       buffer \<leftarrow> poke buffer 0 slash;
       (buffer, here_point) \<leftarrow> join_rows (id_to_path_path s) (id_to_path_point s) buffer 1;
       buffer \<leftarrow> poke buffer here_point 0;
       Some (buffer, s\<lparr>id_to_path_point := 0\<rparr>) }
     else Some (buffer, s) }"

definition id_to_path :: "'d ata_h \<Rightarrow> u64 \<Rightarrow> bytes \<Rightarrow> 'd fs \<Rightarrow> (bytes \<times> 'd fs) option" where
  "id_to_path E id0 buffer s = id_to_path_fuel E id_to_path_depth id0 buffer s"

fun id_to_path_internal :: "'d ata_h \<Rightarrow> nat \<Rightarrow> u64 \<Rightarrow> 'd fs \<Rightarrow> (int \<times> 'd fs) option" where
  "id_to_path_internal E 0 id0 s = None"
| "id_to_path_internal E (Suc fuel) id0 s = do {
     (r, s) \<leftarrow> search_table E (\<lambda>this_entry. e_id this_entry = id0) s;
     case r of
       None \<Rightarrow> Some (-1, s)
     | Some (i79, i379, this_buffer79) \<Rightarrow> do {
         let this_entry = entry_at this_buffer79 i379;
         this_elif_lenght \<leftarrow> cstrlen (e_name this_entry);
         rows \<leftarrow> put_row (id_to_path_path s) (id_to_path_point s)
                   (take this_elif_lenght (e_name this_entry));
         let s = s\<lparr>id_to_path_path := rows, id_to_path_point := id_to_path_point s + 1\<rparr>;
         s \<leftarrow> (if e_parent_id this_entry \<noteq> 0 then do {
                (st, s) \<leftarrow> id_to_path_internal E fuel (e_parent_id this_entry) s; Some s }
              else Some s);
         Some (0, s) } }"

text \<open>The result is the text that the returned pointer designates.\<close>

definition path_to_abs :: "'d ata_h \<Rightarrow> cstring \<Rightarrow> u64 \<Rightarrow> 'd fs \<Rightarrow> (cstring \<times> 'd fs) option" where
  "path_to_abs E path current_dir_id s = do {
     let s = s\<lparr>path_to_abs_path_res := replicate 1024 0\<rparr>;
     if rel_or_abs_path path = 0 then Some (path, s)
     else do {
       (res, s) \<leftarrow> id_to_path E current_dir_id (path_to_abs_path_res s) s;
       this_res_point \<leftarrow> cstrlen res;
       (res, this_res_point) \<leftarrow>
         (if this_res_point = 0 \<or> res ! (this_res_point - 1) \<noteq> slash
          then do { res \<leftarrow> poke res this_res_point slash; Some (res, this_res_point + 1) }
          else Some (res, this_res_point));
       (res, i) \<leftarrow> concat_copy res this_res_point (take (1023 - this_res_point) path);
       res \<leftarrow> poke res i 0;
       Some (cstr_of res, s\<lparr>path_to_abs_path_res := res\<rparr>) } }"

definition path_to_parent_id :: "'d ata_h \<Rightarrow> cstring \<Rightarrow> u64 \<Rightarrow> 'd fs \<Rightarrow> (u64 \<times> 'd fs) option" where
  "path_to_parent_id E path current_dir_id s = do {
     (path, s) \<leftarrow> path_to_abs E path current_dir_id s;
     (this_id, s) \<leftarrow> path_to_id E path current_dir_id s;
     (r, s) \<leftarrow> search_table E (\<lambda>this_entry. e_id this_entry = this_id) s;
     case r of
       None \<Rightarrow> Some (fs_not_found, s)
     | Some (i, i3, this_buffer) \<Rightarrow> Some (e_parent_id (entry_at this_buffer i3), s) }"

section \<open>Normal form of a path\<close>

text \<open>
  The loop over the words with \<open>argvs_copy\<close> as a stack of \<open>stack_count\<close> entries; \<open>argv_copy\<close> has the
  content of \<open>argv\<close>, so an address is the same index of either.
\<close>

fun resolve_stack :: "bytes \<Rightarrow> nat list \<Rightarrow> nat list \<Rightarrow> nat \<Rightarrow> (nat list \<times> nat) option" where
  "resolve_stack argv [] argvs_copy stack_count = Some (argvs_copy, stack_count)"
| "resolve_stack argv (p # ps) argvs_copy stack_count =
     (if word_at argv p = [dot] then resolve_stack argv ps argvs_copy stack_count
      else if word_at argv p = [dot, dot] then
        resolve_stack argv ps argvs_copy (if 0 < stack_count then stack_count - 1 else stack_count)
      else do {
        argvs_copy \<leftarrow> poke argvs_copy stack_count p;
        resolve_stack argv ps argvs_copy (stack_count + 1) })"

text \<open>The loop that writes the words, separated by slashes, from \<open>this_path_buffer\<close>.\<close>

fun resolve_out :: "cstring list \<Rightarrow> bytes \<Rightarrow> nat \<Rightarrow> (bytes \<times> nat) option" where
  "resolve_out [] res this_path_buffer = Some (res, this_path_buffer)"
| "resolve_out (w # ws) res this_path_buffer = do {
     (res, this_path_buffer) \<leftarrow> concat_copy res this_path_buffer w;
     (res, this_path_buffer) \<leftarrow> (if ws \<noteq> []
        then do { res \<leftarrow> poke res this_path_buffer slash; Some (res, this_path_buffer + 1) }
        else Some (res, this_path_buffer));
     resolve_out ws res this_path_buffer }"

definition path_resolve :: "cstring \<Rightarrow> 'd fs \<Rightarrow> (cstring \<times> 'd fs) option" where
  "path_resolve path s = do {
     let path = path_copy path;
     let argv = path_argv path;
     (argvs, idx) \<leftarrow> path_argvs path;
     (argvs_copy, idx2) \<leftarrow> path_argvs path;
     (argvs_copy, stack_count) \<leftarrow> resolve_stack argv (take idx argvs) argvs_copy 0;
     res \<leftarrow> poke (replicate 1024 0) 0 slash;
     (res, this_path_buffer) \<leftarrow> resolve_out (map (word_at argv) (take stack_count argvs_copy)) res 1;
     res \<leftarrow> poke res this_path_buffer 0;
     Some (cstr_of res, s\<lparr>path_resolve_path_res := res\<rparr>) }"

end
