(* ===== verification/FsFile.thy ===== *)
theory FsFile
  imports FsPath
begin

text \<open>
  Files and directories of \<open>fs.c\<close>: creation, writing and reading through chains of regions, listing,
  removal and copying. The variable \<open>sz\<close> is the parameter \<open>size\<close> of the source.
\<close>

section \<open>Creation\<close>

text \<open>The copy of at most 24 bytes of the static name into \<open>this_name[24]\<close>, cut at byte 23.\<close>

definition entry_name :: "bytes \<Rightarrow> bytes" where
  "entry_name name_result =
     (let w = cstr_of (take 24 name_result) in (w @ replicate (24 - length w) 0)[23 := 0])"

text \<open>
  What the three creating functions do first: the name, the parent directory and the next id. \<open>Inl\<close>
  is an early return.
\<close>

definition new_entry_head ::
  "'d ata_h \<Rightarrow> cstring \<Rightarrow> u64 \<Rightarrow> 'd fs \<Rightarrow> ((int + bytes \<times> u64 \<times> u64) \<times> 'd fs) option" where
  "new_entry_head E path current_dir_id s = do {
     s \<leftarrow> path_to_name path s;
     let this_name = entry_name (name_buf s);
     (abs, s) \<leftarrow> path_to_abs E path current_dir_id s;
     (parent, s) \<leftarrow> fpath_to_path E abs current_dir_id s;
     if parent = fs_not_found then Some (Inl 1, s)
     else do {
       (last_id, s) \<leftarrow> read_last_id_from_disk E s;
       if last_id + 1 = fs_not_found then Some (Inl 1, s)
       else Some (Inr (this_name, parent, last_id + 1), s) } }"

definition fs_mk_file_size :: "'d ata_h \<Rightarrow> cstring \<Rightarrow> u64 \<Rightarrow> u64 \<Rightarrow> 'd fs \<Rightarrow> (int \<times> 'd fs) option" where
  "fs_mk_file_size E path current_dir_id sz s = do {
     (h, s) \<leftarrow> new_entry_head E path current_dir_id s;
     case h of
       Inl r \<Rightarrow> Some (r, s)
     | Inr (name, parent, new_id) \<Rightarrow> do {
         (data_frame, s) \<leftarrow> get_data_region E 0 sz s;
         if data_frame = fs_not_found then Some (1, s)
         else do {
           s \<leftarrow> bitmap_set_range E data_frame (unat sz) s;
           (st, s) \<leftarrow> write_entry_to_table E
             \<lparr>e_name = name, e_size = 0, e_parent_id = parent, e_id = new_id, e_type = 2,
              e_region_size = ucast sz, e_flags = 0, e_data_frame = data_frame\<rparr> s;
           s \<leftarrow> reload_last_id_to_disk E s;
           Some (0, s) } } }"

definition fs_mk_file :: "'d ata_h \<Rightarrow> cstring \<Rightarrow> u64 \<Rightarrow> 'd fs \<Rightarrow> (int \<times> 'd fs) option" where
  "fs_mk_file E path current_dir_id s = do {
     (h, s) \<leftarrow> new_entry_head E path current_dir_id s;
     case h of
       Inl r \<Rightarrow> Some (r, s)
     | Inr (name, parent, new_id) \<Rightarrow> do {
         (data_frame, s) \<leftarrow> get_data_region E 0 data_file_region_size s;
         if data_frame = fs_not_found then Some (1, s)
         else do {
           s \<leftarrow> bitmap_set_range E data_frame (unat data_file_region_size) s;
           (st, s) \<leftarrow> write_entry_to_table E
             \<lparr>e_name = name, e_size = 0, e_parent_id = parent, e_id = new_id, e_type = 2,
              e_region_size = ucast data_file_region_size, e_flags = 0, e_data_frame = data_frame\<rparr> s;
           s \<leftarrow> reload_last_id_to_disk E s;
           Some (0, s) } } }"

definition fs_mk_dir :: "'d ata_h \<Rightarrow> cstring \<Rightarrow> u64 \<Rightarrow> 'd fs \<Rightarrow> (int \<times> 'd fs) option" where
  "fs_mk_dir E path current_dir_id s = do {
     (h, s) \<leftarrow> new_entry_head E path current_dir_id s;
     case h of
       Inl r \<Rightarrow> Some (r, s)
     | Inr (name, parent, new_id) \<Rightarrow> do {
         (st, s) \<leftarrow> write_entry_to_table E
           \<lparr>e_name = name, e_size = 4, e_parent_id = parent, e_id = new_id, e_type = 3,
            e_region_size = 0, e_flags = 0, e_data_frame = 0\<rparr> s;
         s \<leftarrow> reload_last_id_to_disk E s;
         Some (0, s) } }"

section \<open>Regions\<close>

definition fs_ptr_from_sector :: "bytes \<Rightarrow> u64" where
  "fs_ptr_from_sector b = u64_at b 504"

definition fs_ptr_to_sector :: "bytes \<Rightarrow> u64 \<Rightarrow> bytes" where
  "fs_ptr_to_sector b v = put_u64 b 504 v"

definition fs_last_sector_payload :: u64 where
  "fs_last_sector_payload = 504"

definition fs_region_capacity :: "u64 \<Rightarrow> u64" where
  "fs_region_capacity region_size = (region_size - 1) * 512 + fs_last_sector_payload"

lemma fs_region_capacity_pos: "0 < fs_region_capacity r"
proof -
  have "uint (fs_region_capacity r) mod 512 = 504"
  proof -
    have "(x * 512 - 8) mod 512 = (504 :: int)" for x
    proof -
      have "x * 512 - 8 = 504 + (x - 1) * 512" by simp
      then show ?thesis by (simp only: mod_mult_self1) simp
    qed
    then show ?thesis
      by (simp add: fs_region_capacity_def fs_last_sector_payload_def uint_word_ariths mod_mod_cancel mod_simps)
  qed
  then have "fs_region_capacity r \<noteq> 0" by auto
  then show ?thesis by (simp add: word_gt_0)
qed

text \<open>\<open>payload\<close> of sector \<open>j\<close> of a region.\<close>

definition sector_payload :: "u64 \<Rightarrow> nat \<Rightarrow> nat" where
  "sector_payload region_size j = (if of_nat j = region_size - 1 then 504 else 512)"

section \<open>Writing\<close>

text \<open>\<open>sector_buf[k] = (idx < chunk) ? src[written + idx] : 0\<close> for \<open>n\<close> values of \<open>k\<close>.\<close>

fun fill_payload :: "bytes \<Rightarrow> u64 \<Rightarrow> u64 \<Rightarrow> u64 \<Rightarrow> nat \<Rightarrow> nat \<Rightarrow> bytes \<Rightarrow> bytes option" where
  "fill_payload src written off chunk k 0 sector_buf = Some sector_buf"
| "fill_payload src written off chunk k (Suc n) sector_buf = do {
     let idx = off + of_nat k;
     v \<leftarrow> (if idx < chunk then peek src (unat (written + idx)) else Some 0);
     sector_buf \<leftarrow> poke sector_buf k v;
     fill_payload src written off chunk (k + 1) n sector_buf }"

text \<open>
  The end of a region when more data follows: the region to continue in, taken from the old pointer or
  allocated; \<open>None\<close> in the first component when the disk is full.
\<close>

definition next_region_for_write :: "'d ata_h \<Rightarrow> u64 \<Rightarrow> u64 \<Rightarrow> 'd fs \<Rightarrow> (u64 option \<times> 'd fs) option" where
  "next_region_for_write E region_size old_next s =
     (if old_next = 0 \<or> old_next = fs_not_found then do {
        (nxt, s) \<leftarrow> get_data_region E 0 region_size s;
        if nxt = fs_not_found then Some (None, s)
        else do {
          s \<leftarrow> bitmap_set_range E nxt (unat region_size) s;
          Some (Some nxt, s) } }
      else Some (Some old_next, s))"

text \<open>
  The loop over the sectors \<open>j\<close> of one region, \<open>n\<close> of them. \<open>Inl\<close> is the return on a full disk, \<open>Inr\<close>
  the value of \<open>region_start\<close> after the loop.
\<close>

fun write_sectors ::
  "'d ata_h \<Rightarrow> bytes \<Rightarrow> u64 \<Rightarrow> u64 \<Rightarrow> bool \<Rightarrow> u64 \<Rightarrow> fs_file_entry \<Rightarrow> u64 \<Rightarrow> nat \<Rightarrow> nat \<Rightarrow> bytes \<Rightarrow> 'd fs
     \<Rightarrow> ((fs_file_entry + u64) \<times> bytes \<times> 'd fs) option" where
  "write_sectors E src written chunk has_more region_size this_entry region_start j 0 sector_buf s =
     Some (Inr region_start, sector_buf, s)"
| "write_sectors E src written chunk has_more region_size this_entry region_start j (Suc n) sector_buf s = do {
     let lba = storage_lba s (region_start + of_nat j);
     (st, sector_buf, s) \<leftarrow> read1 E lba sector_buf s;
     let old_next = fs_ptr_from_sector sector_buf;
     sector_buf \<leftarrow> fill_payload src written (of_nat j * 512) chunk 0 (sector_payload region_size j) sector_buf;
     if of_nat j = region_size - 1 then
       (if has_more then do {
          (nxt, s) \<leftarrow> next_region_for_write E region_size old_next s;
          case nxt of
            None \<Rightarrow> do {
              let sector_buf = fs_ptr_to_sector sector_buf 0;
              (st, s) \<leftarrow> write1 E lba sector_buf s;
              Some (Inl (this_entry\<lparr>e_size := written + chunk\<rparr>), sector_buf, s) }
          | Some nxt \<Rightarrow> do {
              let sector_buf = fs_ptr_to_sector sector_buf nxt;
              (st, s) \<leftarrow> write1 E lba sector_buf s;
              write_sectors E src written chunk has_more region_size this_entry nxt (j + 1) n sector_buf s } }
        else do {
          let sector_buf = fs_ptr_to_sector sector_buf 0;
          (st, s) \<leftarrow> write1 E lba sector_buf s;
          write_sectors E src written chunk has_more region_size this_entry region_start (j + 1) n sector_buf s })
     else do {
       (st, s) \<leftarrow> write1 E lba sector_buf s;
       write_sectors E src written chunk has_more region_size this_entry region_start (j + 1) n sector_buf s } }"

lemma written_advances:
  "fs_region_capacity r < sz - written \<Longrightarrow> unat (sz - (written + fs_region_capacity r)) < unat (sz - written)"
proof -
  assume m: "fs_region_capacity r < sz - written"
  have "unat (sz - (written + fs_region_capacity r)) = unat ((sz - written) - fs_region_capacity r)"
    by (simp add: diff_diff_eq)
  also have "\<dots> = unat (sz - written) - unat (fs_region_capacity r)" using m by (intro unat_sub) simp
  finally show ?thesis using m fs_region_capacity_pos[of r] by (simp add: word_less_nat_alt)
qed

text \<open>The loop over the regions, from \<open>written\<close>.\<close>

function write_regions ::
  "'d ata_h \<Rightarrow> bytes \<Rightarrow> u64 \<Rightarrow> u64 \<Rightarrow> fs_file_entry \<Rightarrow> u64 \<Rightarrow> u64 \<Rightarrow> bytes \<Rightarrow> 'd fs
     \<Rightarrow> (fs_file_entry \<times> 'd fs) option" where
  "write_regions E src sz region_size this_entry region_start written sector_buf s =
     (let capacity = fs_region_capacity region_size;
          chunk = (if capacity < sz - written then capacity else sz - written);
          has_more = capacity < sz - written
      in do {
        (r, sector_buf, s) \<leftarrow> write_sectors E src written chunk has_more region_size this_entry region_start
                                0 (unat region_size) sector_buf s;
        case r of
          Inl e \<Rightarrow> Some (e, s)
        | Inr region_start \<Rightarrow>
            if has_more then write_regions E src sz region_size this_entry region_start (written + chunk) sector_buf s
            else Some (this_entry\<lparr>e_size := sz\<rparr>, s) })"
  by pat_completeness auto
termination
  by (relation "measure (\<lambda>(E, src, sz, region_size, e, rs, written, b, s). unat (sz - written))")
    (auto simp: written_advances)

declare write_regions.simps [simp del]

definition fs_write_file_inside ::
  "'d ata_h \<Rightarrow> bytes \<Rightarrow> u64 \<Rightarrow> fs_file_entry \<Rightarrow> 'd fs \<Rightarrow> (fs_file_entry \<times> 'd fs) option" where
  "fs_write_file_inside E src sz this_entry s =
     (let region_size = ucast (e_region_size this_entry) in
      if region_size = 0 then Some (this_entry, s)
      else do {
        sz \<leftarrow> (if sz = 0 then map_option of_nat (cstrlen src) else Some sz);
        write_regions E src sz region_size this_entry (e_data_frame this_entry) 0 (local_buf E 512 s) s })"

definition fs_write_file :: "'d ata_h \<Rightarrow> cstring \<Rightarrow> bytes \<Rightarrow> u64 \<Rightarrow> u64 \<Rightarrow> 'd fs \<Rightarrow> (int \<times> 'd fs) option" where
  "fs_write_file E path src sz current_dir_id s = do {
     (abs, s) \<leftarrow> path_to_abs E path current_dir_id s;
     (this_id, s) \<leftarrow> path_to_id E abs current_dir_id s;
     if this_id = fs_not_found \<or> this_id = 0 then Some (1, s)
     else do {
       (r, s) \<leftarrow> search_table E (\<lambda>this_entry. e_id this_entry = this_id) s;
       case r of
         None \<Rightarrow> Some (1, s)
       | Some (i, i3, this_buffer) \<Rightarrow>
           if e_type (entry_at this_buffer i3) \<noteq> 2 then Some (1, s)
           else do {
             (this_entry, s) \<leftarrow> fs_write_file_inside E src sz (entry_at this_buffer i3) s;
             (st, s) \<leftarrow> write1 E (table_lba s i) (put_entry this_buffer i3 this_entry) s;
             Some (0, s) } } }"

section \<open>Reading\<close>

definition fs_read_default_limit :: u64 where
  "fs_read_default_limit = 1024"

text \<open>\<open>for (k = 0; k < payload && out < to_read; k++) buffer[out++] = sector_buf[k];\<close>\<close>

fun copy_payload :: "bytes \<Rightarrow> nat \<Rightarrow> nat \<Rightarrow> bytes \<Rightarrow> u64 \<Rightarrow> u64 \<Rightarrow> (bytes \<times> u64) option" where
  "copy_payload sector_buf k 0 buffer out to_read = Some (buffer, out)"
| "copy_payload sector_buf k (Suc n) buffer out to_read =
     (if out < to_read then do {
        v \<leftarrow> peek sector_buf k;
        buffer \<leftarrow> poke buffer (unat out) v;
        copy_payload sector_buf (k + 1) n buffer (out + 1) to_read }
      else Some (buffer, out))"

text \<open>The loop over the sectors of one region; it also yields \<open>next_region\<close>.\<close>

fun read_sectors ::
  "'d ata_h \<Rightarrow> u64 \<Rightarrow> u64 \<Rightarrow> nat \<Rightarrow> nat \<Rightarrow> u64 \<Rightarrow> bytes \<Rightarrow> u64 \<Rightarrow> u64 \<Rightarrow> bytes \<Rightarrow> 'd fs
     \<Rightarrow> (bytes \<times> u64 \<times> u64 \<times> bytes \<times> 'd fs) option" where
  "read_sectors E region_size region_start j 0 next_region buffer out to_read sector_buf s =
     Some (buffer, out, next_region, sector_buf, s)"
| "read_sectors E region_size region_start j (Suc n) next_region buffer out to_read sector_buf s =
     (if out < to_read then do {
        let sector_buf = fill sector_buf 512 0;
        (st, sector_buf, s) \<leftarrow> read1 E (storage_lba s (region_start + of_nat j)) sector_buf s;
        let next_region = (if of_nat j = region_size - 1 then fs_ptr_from_sector sector_buf else next_region);
        (buffer, out) \<leftarrow> copy_payload sector_buf 0 (sector_payload region_size j) buffer out to_read;
        read_sectors E region_size region_start (j + 1) n next_region buffer out to_read sector_buf s }
      else Some (buffer, out, next_region, sector_buf, s))"

text \<open>
  The loop over the regions. Every pass but the last moves at least one byte, so \<open>to_read + 1\<close> passes
  are enough.
\<close>

fun read_regions ::
  "'d ata_h \<Rightarrow> nat \<Rightarrow> u64 \<Rightarrow> u64 \<Rightarrow> bytes \<Rightarrow> u64 \<Rightarrow> u64 \<Rightarrow> bytes \<Rightarrow> 'd fs \<Rightarrow> (bytes \<times> u64 \<times> 'd fs) option" where
  "read_regions E 0 region_size region_start buffer out to_read sector_buf s = None"
| "read_regions E (Suc fuel) region_size region_start buffer out to_read sector_buf s =
     (if out < to_read then do {
        (buffer, out, next_region, sector_buf, s) \<leftarrow>
          read_sectors E region_size region_start 0 (unat region_size) 0 buffer out to_read sector_buf s;
        if to_read \<le> out then Some (buffer, out, s)
        else if next_region = 0 \<or> next_region = fs_not_found then Some (buffer, out, s)
        else read_regions E fuel region_size next_region buffer out to_read sector_buf s }
      else Some (buffer, out, s))"

definition fs_read_file_inside ::
  "'d ata_h \<Rightarrow> bytes \<Rightarrow> u64 \<Rightarrow> fs_file_entry \<Rightarrow> 'd fs \<Rightarrow> (bytes \<times> 'd fs) option" where
  "fs_read_file_inside E buffer max_size this_entry s =
     (let region_size = ucast (e_region_size this_entry);
          limit = (if max_size = 0 then fs_read_default_limit else max_size)
      in if region_size = 0 \<or> limit = 0 then Some (buffer, s)
         else do {
           let to_read = (if limit - 1 < e_size this_entry then limit - 1 else e_size this_entry);
           (buffer, out, s) \<leftarrow> read_regions E (unat to_read + 1) region_size (e_data_frame this_entry)
                                 buffer 0 to_read (local_buf E 512 s) s;
           buffer \<leftarrow> poke buffer (unat out) 0;
           Some (buffer, s) })"

definition fs_read_file ::
  "'d ata_h \<Rightarrow> cstring \<Rightarrow> bytes \<Rightarrow> u64 \<Rightarrow> u64 \<Rightarrow> 'd fs \<Rightarrow> (int \<times> bytes \<times> 'd fs) option" where
  "fs_read_file E path buffer max_size current_dir_id s = do {
     (abs, s) \<leftarrow> path_to_abs E path current_dir_id s;
     (this_id, s) \<leftarrow> path_to_id E abs current_dir_id s;
     if this_id = fs_not_found \<or> this_id = 0 then Some (1, buffer, s)
     else do {
       (r, s) \<leftarrow> search_table E (\<lambda>this_entry. e_id this_entry = this_id) s;
       case r of
         None \<Rightarrow> Some (1, buffer, s)
       | Some (i, i3, this_buffer) \<Rightarrow>
           if e_type (entry_at this_buffer i3) \<noteq> 2 then Some (1, buffer, s)
           else do {
             (buffer, s) \<leftarrow> fs_read_file_inside E buffer max_size (entry_at this_buffer i3) s;
             Some (0, buffer, s) } } }"

section \<open>Removal\<close>

text \<open>The loop over \<open>r\<close>, with \<open>n\<close> iterations left; \<open>r + 1 < regions_num\<close> holds in all but the last.\<close>

fun free_regions :: "'d ata_h \<Rightarrow> u64 \<Rightarrow> nat \<Rightarrow> u64 \<Rightarrow> bytes \<Rightarrow> 'd fs \<Rightarrow> 'd fs option" where
  "free_regions E region_size 0 region_start sector_buf s = Some s"
| "free_regions E region_size (Suc n) region_start sector_buf s = do {
     (next_region, sector_buf, s) \<leftarrow>
       (if n \<noteq> 0 then do {
          let sector_buf = fill sector_buf 512 0;
          (st, sector_buf, s) \<leftarrow> read1 E (storage_lba s (region_start + region_size - 1)) sector_buf s;
          Some (u64_at sector_buf 504, sector_buf, s) }
        else Some (fs_not_found, sector_buf, s));
     s \<leftarrow> bitmap_clear_range E region_start (unat region_size) s;
     if next_region = fs_not_found \<or> next_region = 0 then Some s
     else free_regions E region_size n next_region sector_buf s }"

definition free_file_regions :: "'d ata_h \<Rightarrow> fs_file_entry \<Rightarrow> 'd fs \<Rightarrow> 'd fs option" where
  "free_file_regions E e s =
     (let region_size = ucast (e_region_size e) in
      if region_size = 0 then Some s
      else
        let frame_size_sec = 8;
            frames_num = (e_size e + (frame_size_sec - 1)) div frame_size_sec;
            regions_num = (frames_num * frame_size_sec) div region_size;
            regions_num = (if regions_num = 0 then 1 else regions_num)
        in free_regions E region_size (unat regions_num) (e_data_frame e) (local_buf E 512 s) s)"

definition fs_rm_file_by_id :: "'d ata_h \<Rightarrow> u64 \<Rightarrow> 'd fs \<Rightarrow> (int \<times> 'd fs) option" where
  "fs_rm_file_by_id E entry_id s = do {
     (r, s) \<leftarrow> find_entry_by_id E entry_id s;
     case r of
       None \<Rightarrow> Some (1, s)
     | Some (e, sec, slot) \<Rightarrow>
         if e_type e \<noteq> 2 then Some (2, s)
         else do {
           s \<leftarrow> free_file_regions E e s;
           s \<leftarrow> erase_table_entry E sec slot s;
           s \<leftarrow> reload_last_id_to_disk E s;
           Some (0, s) } }"

definition fs_rm_dir_by_id :: "'d ata_h \<Rightarrow> u64 \<Rightarrow> 'd fs \<Rightarrow> (int \<times> 'd fs) option" where
  "fs_rm_dir_by_id E entry_id s = do {
     (r, s) \<leftarrow> find_entry_by_id E entry_id s;
     case r of
       None \<Rightarrow> Some (1, s)
     | Some (e, sec, slot) \<Rightarrow>
         if e_type e \<noteq> 3 then Some (2, s)
         else do {
           (c, s) \<leftarrow> dir_has_children E entry_id s;
           if c \<noteq> 0 then Some (1, s)
           else do {
             s \<leftarrow> erase_table_entry E sec slot s;
             s \<leftarrow> reload_last_id_to_disk E s;
             Some (0, s) } } }"

definition fs_rm_file :: "'d ata_h \<Rightarrow> cstring \<Rightarrow> u64 \<Rightarrow> 'd fs \<Rightarrow> (int \<times> 'd fs) option" where
  "fs_rm_file E path parent_id s = do {
     (id0, s) \<leftarrow> path_to_id E path parent_id s;
     if id0 = fs_not_found \<or> id0 = 0 then Some (1, s) else fs_rm_file_by_id E id0 s }"

definition fs_rm_dir_inside :: "'d ata_h \<Rightarrow> cstring \<Rightarrow> u64 \<Rightarrow> 'd fs \<Rightarrow> (int \<times> 'd fs) option" where
  "fs_rm_dir_inside E path parent_id s = do {
     (id0, s) \<leftarrow> path_to_id E path parent_id s;
     if id0 = fs_not_found \<or> id0 = 0 then Some (1, s) else fs_rm_dir_by_id E id0 s }"

definition fs_rm_dir :: "'d ata_h \<Rightarrow> cstring \<Rightarrow> u64 \<Rightarrow> 'd fs \<Rightarrow> (int \<times> 'd fs) option" where
  "fs_rm_dir E path parent_id s = fs_rm_dir_inside E path parent_id s"

section \<open>Listing\<close>

text \<open>
  The slots of one sector, from \<open>slot\<close>. The flag is set by the return on a full buffer; \<open>out\<close> is the
  number of bytes written.
\<close>

fun ls_slots ::
  "bytes \<Rightarrow> u64 \<Rightarrow> nat \<Rightarrow> nat \<Rightarrow> nat \<Rightarrow> bytes \<Rightarrow> nat \<Rightarrow> (bool \<times> bytes \<times> nat) option" where
  "ls_slots buf dir_id max_size slot 0 buffer out = Some (False, buffer, out)"
| "ls_slots buf dir_id max_size slot (Suc n) buffer out =
     (let e = entry_at buf slot in
      if e_id e = 0 \<or> e_parent_id e \<noteq> dir_id then ls_slots buf dir_id max_size (slot + 1) n buffer out
      else
        let name = cstr_of (e_name e);
            need = length name + 1 + (if e_type e = 3 then 1 else 0) + 1
        in if max_size < out + need then do {
             buffer \<leftarrow> poke buffer out 0;
             Some (True, buffer, out) }
           else do {
             (buffer, out) \<leftarrow> concat_copy buffer out name;
             (buffer, out) \<leftarrow> (if e_type e = 3 then concat_copy buffer out [47] else Some (buffer, out));
             (buffer, out) \<leftarrow> concat_copy buffer out [10];
             ls_slots buf dir_id max_size (slot + 1) n buffer out })"

fun ls_sectors ::
  "'d ata_h \<Rightarrow> u64 \<Rightarrow> nat \<Rightarrow> nat \<Rightarrow> nat \<Rightarrow> bytes \<Rightarrow> bytes \<Rightarrow> nat \<Rightarrow> 'd fs
     \<Rightarrow> (bool \<times> bytes \<times> nat \<times> 'd fs) option" where
  "ls_sectors E dir_id max_size i 0 buf buffer out s = Some (False, buffer, out, s)"
| "ls_sectors E dir_id max_size i (Suc n) buf buffer out s = do {
     (st, buf, s) \<leftarrow> read1 E (table_lba' s i) buf s;
     if st \<noteq> 0 then ls_sectors E dir_id max_size (i + 1) n buf buffer out s
     else do {
       (full, buffer, out) \<leftarrow> ls_slots buf dir_id max_size 0 8 buffer out;
       if full then Some (True, buffer, out, s)
       else ls_sectors E dir_id max_size (i + 1) n buf buffer out s } }"

text \<open>\<open>Inl\<close> is an early return of 1, \<open>Inr\<close> the id of the directory to list.\<close>

definition ls_dir_id :: "'d ata_h \<Rightarrow> cstring \<Rightarrow> u64 \<Rightarrow> 'd fs \<Rightarrow> ((int + u64) \<times> 'd fs) option" where
  "ls_dir_id E path current_dir_id s = do {
     (dir_id, s) \<leftarrow>
       (if cat path 0 = dot \<and> cat path 1 = 0 then Some (current_dir_id, s)
        else if cat path 0 = slash \<and> cat path 1 = 0 then Some (0, s)
        else path_to_id E path current_dir_id s);
     if \<not> (cat path 0 = dot \<and> cat path 1 = 0) \<and> \<not> (cat path 0 = slash \<and> cat path 1 = 0) \<and>
        dir_id = fs_not_found then Some (Inl 1, s)
     else if dir_id = 0 then Some (Inr dir_id, s)
     else do {
       (r, s) \<leftarrow> find_entry_by_id E dir_id s;
       case r of
         None \<Rightarrow> Some (Inl 1, s)
       | Some (dir_entry, sec, slot) \<Rightarrow>
           Some (if e_type dir_entry \<noteq> 3 then Inl 1 else Inr dir_id, s) } }"

definition fs_ls_dir ::
  "'d ata_h \<Rightarrow> cstring \<Rightarrow> bytes \<Rightarrow> u64 \<Rightarrow> u64 \<Rightarrow> 'd fs \<Rightarrow> (int \<times> bytes \<times> 'd fs) option" where
  "fs_ls_dir E path buffer max_size current_dir_id s =
     (if max_size = 0 then Some (1, buffer, s)
      else do {
        buffer \<leftarrow> poke buffer 0 0;
        (d, s) \<leftarrow> ls_dir_id E path current_dir_id s;
        case d of
          Inl r \<Rightarrow> Some (r, buffer, s)
        | Inr dir_id \<Rightarrow> do {
            (full, buffer, out, s) \<leftarrow>
              ls_sectors E dir_id (unat max_size) 0 fs_table_size_sectors (local_buf E 512 s) buffer 0 s;
            if full then Some (0, buffer, s)
            else do {
              let out = (if 0 < out \<and> buffer ! (out - 1) = 10 then out - 1 else out);
              buffer \<leftarrow> poke buffer out 0;
              Some (0, buffer, s) } } })"

section \<open>Copying\<close>

definition fs_copy_max_bytes :: u64 where
  "fs_copy_max_bytes = 8192"

text \<open>\<open>Inl\<close> is an early return; otherwise the destination exists.\<close>

definition copy_destination ::
  "'d ata_h \<Rightarrow> cstring \<Rightarrow> u64 \<Rightarrow> u64 \<Rightarrow> 'd fs \<Rightarrow> (int option \<times> 'd fs) option" where
  "copy_destination E dst src_id current_dir_id s = do {
     (abs, s) \<leftarrow> path_to_abs E dst current_dir_id s;
     (dst_id, s) \<leftarrow> path_to_id E abs current_dir_id s;
     if dst_id = src_id then Some (Some 0, s)
     else if dst_id = fs_not_found then do {
       (st, s) \<leftarrow> fs_mk_file E dst current_dir_id s;
       Some (if st \<noteq> 0 then Some 1 else None, s) }
     else if dst_id = 0 then Some (Some 2, s)
     else do {
       (r, s) \<leftarrow> find_entry_by_id E dst_id s;
       case r of
         None \<Rightarrow> Some (Some 2, s)
       | Some (d, sec, slot) \<Rightarrow> Some (if e_type d \<noteq> 2 then Some 2 else None, s) } }"

definition fs_copy_file :: "'d ata_h \<Rightarrow> cstring \<Rightarrow> cstring \<Rightarrow> u64 \<Rightarrow> 'd fs \<Rightarrow> (int \<times> 'd fs) option" where
  "fs_copy_file E src dst current_dir_id s = do {
     (abs, s) \<leftarrow> path_to_abs E src current_dir_id s;
     (src_id, s) \<leftarrow> path_to_id E abs current_dir_id s;
     if src_id = fs_not_found \<or> src_id = 0 then Some (1, s)
     else do {
       (r, s) \<leftarrow> find_entry_by_id E src_id s;
       case r of
         None \<Rightarrow> Some (1, s)
       | Some (e, sec, slot) \<Rightarrow>
           if e_type e \<noteq> 2 then Some (2, s)
           else if fs_copy_max_bytes < e_size e then Some (3, s)
           else do {
             (d, s) \<leftarrow> copy_destination E dst src_id current_dir_id s;
             case d of
               Some r \<Rightarrow> Some (r, s)
             | None \<Rightarrow> do {
                 let buf = fill (local_buf E 8193 s) (unat (e_size e + 1)) 0;
                 (st, buf, s) \<leftarrow> fs_read_file E src buf (e_size e + 1) current_dir_id s;
                 if st \<noteq> 0 then Some (1, s)
                 else fs_write_file E dst buf (e_size e) current_dir_id s } } } }"

text \<open>\<open>fs_test_file\<close> ends without a \<open>return\<close>, so only its effect is modelled.\<close>

definition fs_test_file :: "'d ata_h \<Rightarrow> cstring \<Rightarrow> cstring \<Rightarrow> u64 \<Rightarrow> 'd fs \<Rightarrow> 'd fs option" where
  "fs_test_file E path path2 current_dir_id s = do {
     (stat, this_test_buffer, s) \<leftarrow> fs_read_file E path (local_buf E 2 s) 1 current_dir_id s;
     (st, s) \<leftarrow> fs_write_file E path2 (if stat = 1 then [48, 0] else [49, 0]) 2 current_dir_id s;
     Some s }"

end
