(* ===== verification/FsTableLaws.thy ===== *)
theory FsTableLaws
  imports FsTable
begin

text \<open>
  What the operations of \<open>FsTable\<close> do on a working disk: the table as a list of 1024 entries, the
  bitmap as a predicate on frame numbers, and the effect of every operation on both. The lemmas are
  proved once in the locale \<open>block_device\<close>.
\<close>

section \<open>Abstract views\<close>

definition table_of :: "(nat \<Rightarrow> bytes) \<Rightarrow> nat \<Rightarrow> fs_file_entry list" where
  "table_of f st = map (\<lambda>k. entry_at (f (st + k div 8)) (k mod 8)) [0..<1024]"

definition bitmap_bit :: "(nat \<Rightarrow> bytes) \<Rightarrow> nat \<Rightarrow> bool" where
  "bitmap_bit f k = bit (f (1 + k div 4096) ! (k div 8 mod 512)) (k mod 8)"

fun first_idx :: "('a \<Rightarrow> bool) \<Rightarrow> 'a list \<Rightarrow> nat option" where
  "first_idx p [] = None"
| "first_idx p (x # xs) = (if p x then Some 0 else map_option Suc (first_idx p xs))"

text \<open>The layout that \<open>fs_init\<close> leaves in the global variables, on a disk of \<open>n\<close> sectors.\<close>

definition layout_ok :: "nat \<Rightarrow> 'd fs \<Rightarrow> bool" where
  "layout_ok n s \<longleftrightarrow>
     0 < unat (fs_data_bitmap_size_sectors s) \<and>
     unat (start_table s) = unat (fs_data_bitmap_size_sectors s) + 2 \<and>
     unat (start_storage s) = unat (start_table s) + 128 \<and>
     unat (start_storage s) < unat (sectors s) \<and> unat (sectors s) \<le> n"

lemma first_idx_None: "first_idx p xs = None \<longleftrightarrow> (\<forall>x \<in> set xs. \<not> p x)"
  by (induction xs) auto

lemma first_idx_Some:
  "first_idx p xs = Some k \<longleftrightarrow> k < length xs \<and> p (xs ! k) \<and> (\<forall>j < k. \<not> p (xs ! j))"
proof (induction xs arbitrary: k)
  case Nil
  then show ?case by simp
next
  case (Cons x xs)
  then show ?case
    by (cases k) (auto simp: less_Suc_eq_0_disj nth_Cons split: nat.splits)
qed

lemma first_idx_append:
  "first_idx p (xs @ ys) = (case first_idx p xs of Some k \<Rightarrow> Some k
     | None \<Rightarrow> map_option (\<lambda>k. length xs + k) (first_idx p ys))"
  by (induction xs; cases "first_idx p ys") (auto split: option.splits)

lemma find_slot_idx:
  "find_slot p buf i n = map_option (\<lambda>k. i + k) (first_idx p (map (entry_at buf) [i..<i + n]))"
proof (induction n arbitrary: i)
  case 0
  then show ?case by simp
next
  case (Suc n)
  have "[i..<i + Suc n] = i # [Suc i..<Suc i + n]" by (simp add: upt_conv_Cons)
  then show ?case using Suc[of "Suc i"] by (auto simp: option.map_comp o_def)
qed

lemma length_table_of [simp]: "length (table_of f st) = 1024"
  by (simp add: table_of_def)

lemma nth_table_of: "k < 1024 \<Longrightarrow> table_of f st ! k = entry_at (f (st + k div 8)) (k mod 8)"
  by (simp add: table_of_def)

lemma wf_table_of: "e \<in> set (table_of f st) \<Longrightarrow> wf_entry e"
  by (auto simp: table_of_def)

lemma drop_table_of:
  assumes "i < 128"
  shows "drop (8 * i) (table_of f st) = map (entry_at (f (st + i))) [0..<8] @ drop (8 * (i + 1)) (table_of f st)"
proof (rule nth_equalityI)
  fix k assume k: "k < length (drop (8 * i) (table_of f st))"
  then have "8 * i + k < 1024" by simp
  then show "drop (8 * i) (table_of f st) ! k
      = (map (entry_at (f (st + i))) [0..<8] @ drop (8 * (i + 1)) (table_of f st)) ! k"
    using k by (auto simp: nth_append nth_table_of)
qed (use assms in auto)

lemma table_of_put_entry:
  assumes "k < 1024" "wf_entry e" "\<And>i. length (f i) = 512"
  shows "table_of (f(st + k div 8 := put_entry (f (st + k div 8)) (k mod 8) e)) st = (table_of f st)[k := e]"
proof (rule nth_equalityI)
  fix j assume "j < length (table_of (f(st + k div 8 := put_entry (f (st + k div 8)) (k mod 8) e)) st)"
  then have j: "j < 1024" by simp
  show "table_of (f(st + k div 8 := put_entry (f (st + k div 8)) (k mod 8) e)) st ! j
      = (table_of f st)[k := e] ! j"
  proof (cases "j div 8 = k div 8")
    case True
    then have "j mod 8 = k mod 8 \<longleftrightarrow> j = k" by (metis div_mult_mod_eq)
    with True j assms show ?thesis by (auto simp: nth_table_of nth_update)
  next
    case False
    with j assms show ?thesis by (auto simp: nth_table_of nth_update)
  qed
qed (use assms in auto)

lemma table_of_frame:
  "(\<And>i. st \<le> i \<Longrightarrow> i < st + 128 \<Longrightarrow> g i = f i) \<Longrightarrow> table_of g st = table_of f st"
  by (intro nth_equalityI) (auto simp: nth_table_of)

lemma table_of_upd [simp]:
  "i < st \<or> st + 128 \<le> i \<Longrightarrow> table_of (f(i := b)) st = table_of f st"
  by (intro table_of_frame) auto

lemma bitmap_bit_upd [simp]:
  "i = 0 \<or> 1 + k div 4096 < i \<Longrightarrow> bitmap_bit (f(i := b)) k = bitmap_bit f k"
  by (auto simp: bitmap_bit_def)

section \<open>Integers\<close>

lemma length_put_u64 [simp]: "length (put_u64 b off v) = length b"
  by (simp add: put_u64_def upt_rec)

lemma put_u64_eq: "put_u64 b off v = copy_into b off (le_bytes 8 v) 8"
proof -
  have "fold (\<lambda>i b. b[off + i := ucast (drop_bit (i * 8) v)]) [0..<n] b = copy_into b off (le_bytes 8 v) n"
    if "n \<le> 8" for n
    using that by (induction n) (auto simp: copy_into_def nth_le_bytes mult.commute)
  then show ?thesis by (simp add: put_u64_def)
qed

lemma u64_at_eq:
  assumes "off + 8 \<le> length b"
  shows "u64_at b off = le_word (take 8 (drop off b))"
proof -
  have "take 8 (drop off b) = [b ! off, b ! (off + 1), b ! (off + 2), b ! (off + 3), b ! (off + 4),
      b ! (off + 5), b ! (off + 6), b ! (off + 7)]"
    using assms by (intro nth_equalityI) (auto simp: nth_Cons' less_Suc_eq numeral_eq_Suc)
  then show ?thesis
    by (simp add: u64_at_def push_bit_or or.assoc or.commute or.left_commute)
qed

lemma u64_at_put_u64 [simp]: "off + 8 \<le> length b \<Longrightarrow> u64_at (put_u64 b off v) off = v"
  by (simp add: u64_at_eq put_u64_eq copy_into_eq le_simps)

lemma u64_at_put_u64_apart:
  "off + 8 \<le> length b \<Longrightarrow> off' + 8 \<le> length b \<Longrightarrow> off + 8 \<le> off' \<or> off' + 8 \<le> off \<Longrightarrow>
     u64_at (put_u64 b off' v) off = u64_at b off"
  using copy_from_copy_into_apart[of off 8 off' 8 b "le_bytes 8 v"]
  by (simp add: u64_at_eq put_u64_eq copy_from_eq)

section \<open>Sector numbers\<close>

lemma unat_ucast_32: "unat (w :: u64) < 2 ^ 32 \<Longrightarrow> unat (ucast w :: u32) = unat w"
  by (simp add: unsigned_ucast_eq take_bit_nat_eq_self)

lemma unat_add_64: "unat (a :: u64) + n < 2 ^ 64 \<Longrightarrow> unat (a + of_nat n) = unat a + n"
  by (simp add: unat_word_ariths unat_of_nat take_bit_nat_eq_self)

lemma layout_bounds:
  assumes "layout_ok n s" "n \<le> 2 ^ 28"
  shows "unat (start_table s) < 2 ^ 28" "unat (start_storage s) < 2 ^ 28"
    "unat (start_table s) + 128 < n" "unat (start_table s) \<ge> 3"
    "unat (fs_data_bitmap_size_sectors s) + 2 = unat (start_table s)"
  using assms by (auto simp: layout_ok_def)

lemma unat_table_lba:
  assumes "layout_ok n s" "n \<le> 2 ^ 28" "i < 128"
  shows "unat (table_lba s i) = unat (start_table s) + i"
proof -
  have "unat (start_table s + of_nat i) = unat (start_table s) + i"
    using layout_bounds[OF assms(1,2)] assms(3) by (intro unat_add_64) auto
  then show ?thesis
    using layout_bounds[OF assms(1,2)] assms(3) by (simp add: table_lba_eq table_lba'_def unat_ucast_32)
qed

lemma unat_last_id_lba:
  assumes "layout_ok n s" "n \<le> 2 ^ 28"
  shows "unat (last_id_lba s) = unat (start_table s) - 1"
proof -
  have "unat (ucast (start_table s) :: u32) = unat (start_table s)"
    using layout_bounds[OF assms] by (intro unat_ucast_32) auto
  then show ?thesis using layout_bounds[OF assms]
    by (simp add: last_id_lba_def unat_sub word_le_nat_alt)
qed

lemma unat_bitmap_lba:
  assumes "unat k < 2 ^ 40"
  shows "unat (bitmap_lba k) = 1 + unat k div 4096"
proof -
  have "unat (k div 8 div 512) = unat k div 4096"
    by (simp add: unat_div div_mult2_eq[symmetric])
  then have "unat (1 + k div 8 div 512) = 1 + unat k div 4096"
    using assms by (simp add: unat_word_ariths)
  then show ?thesis using assms by (simp add: bitmap_lba_def unat_ucast_32)
qed

lemma bitmap_byte_eq: "bitmap_byte k = unat k div 8 mod 512"
  by (simp add: bitmap_byte_def unat_mod unat_div)

lemma bit_bitmap_mask: "bit (bitmap_mask k) n \<longleftrightarrow> n = unat k mod 8"
proof -
  have "unat k mod 8 < 8" by simp
  then show ?thesis by (auto simp: bitmap_mask_def unat_mod bit_simps)
qed

section \<open>State relations\<close>

text \<open>
  \<open>fs_good\<close>: the hardware works and the layout fits on it. \<open>disk_becomes f s s'\<close>: the disk content is
  \<open>f\<close> afterwards, the hardware still works, and no global variable of the file system changed.
\<close>

definition fs_good :: "('d \<Rightarrow> bool) \<Rightarrow> ('d \<Rightarrow> nat) \<Rightarrow> 'd fs \<Rightarrow> bool" where
  "fs_good ok cap s \<longleftrightarrow> ok (dsk s) \<and> layout_ok (cap (dsk s)) s"

definition disk_becomes ::
  "('d \<Rightarrow> bool) \<Rightarrow> ('d \<Rightarrow> nat \<Rightarrow> bytes) \<Rightarrow> ('d \<Rightarrow> nat) \<Rightarrow> (nat \<Rightarrow> bytes) \<Rightarrow> 'd fs \<Rightarrow> 'd fs \<Rightarrow> bool" where
  "disk_becomes ok sec cap f s s' \<longleftrightarrow>
     s' = s\<lparr>dsk := dsk s'\<rparr> \<and> ok (dsk s') \<and> sec (dsk s') = f \<and> cap (dsk s') = cap (dsk s)"

definition fs_table :: "('d \<Rightarrow> nat \<Rightarrow> bytes) \<Rightarrow> 'd fs \<Rightarrow> fs_file_entry list" where
  "fs_table sec s = table_of (sec (dsk s)) (unat (start_table s))"

definition fs_bit :: "('d \<Rightarrow> nat \<Rightarrow> bytes) \<Rightarrow> 'd fs \<Rightarrow> nat \<Rightarrow> bool" where
  "fs_bit sec s k = bitmap_bit (sec (dsk s)) k"

definition fs_last_id :: "('d \<Rightarrow> nat \<Rightarrow> bytes) \<Rightarrow> 'd fs \<Rightarrow> u64" where
  "fs_last_id sec s = u64_at (sec (dsk s) (unat (start_table s) - 1)) 0"

lemma length_fs_table [simp]: "length (fs_table sec s) = 1024"
  by (simp add: fs_table_def)

lemma disk_becomes_vars:
  assumes "disk_becomes ok sec cap f s s'"
  shows "start_table s' = start_table s" "start_storage s' = start_storage s"
    "sectors s' = sectors s" "fs_data_bitmap_size_sectors s' = fs_data_bitmap_size_sectors s"
    "id_to_path_path s' = id_to_path_path s" "id_to_path_point s' = id_to_path_point s"
    "id_to_path_first_one s' = id_to_path_first_one s"
    "path_to_abs_path_res s' = path_to_abs_path_res s"
    "path_resolve_path_res s' = path_resolve_path_res s" "name_buf s' = name_buf s"
    "fs_is_new s' = fs_is_new s"
proof -
  have s': "s' = s\<lparr>dsk := dsk s'\<rparr>" using assms by (simp add: disk_becomes_def)
  show "start_table s' = start_table s" "start_storage s' = start_storage s"
    "sectors s' = sectors s" "fs_data_bitmap_size_sectors s' = fs_data_bitmap_size_sectors s"
    "id_to_path_path s' = id_to_path_path s" "id_to_path_point s' = id_to_path_point s"
    "id_to_path_first_one s' = id_to_path_first_one s"
    "path_to_abs_path_res s' = path_to_abs_path_res s"
    "path_resolve_path_res s' = path_resolve_path_res s" "name_buf s' = name_buf s"
    "fs_is_new s' = fs_is_new s"
    by (subst s', simp)+
qed

lemma disk_becomes_sec: "disk_becomes ok sec cap f s s' \<Longrightarrow> sec (dsk s') = f"
  by (simp add: disk_becomes_def)

lemma disk_becomes_good:
  "disk_becomes ok sec cap f s s' \<Longrightarrow> fs_good ok cap s \<Longrightarrow> fs_good ok cap s'"
  using disk_becomes_vars[of ok sec cap f s s']
  by (auto simp: disk_becomes_def fs_good_def layout_ok_def)

lemma disk_becomes_trans:
  "disk_becomes ok sec cap f s s1 \<Longrightarrow> disk_becomes ok sec cap g s1 s2 \<Longrightarrow> disk_becomes ok sec cap g s s2"
proof -
  assume 1: "disk_becomes ok sec cap f s s1" and 2: "disk_becomes ok sec cap g s1 s2"
  have e1: "s1 = s\<lparr>dsk := dsk s1\<rparr>" and e2: "s2 = s1\<lparr>dsk := dsk s2\<rparr>"
    using 1 2 by (simp_all add: disk_becomes_def)
  have "s1\<lparr>dsk := dsk s2\<rparr> = s\<lparr>dsk := dsk s1\<rparr>\<lparr>dsk := dsk s2\<rparr>"
    by (rule arg_cong[OF e1, where f = "\<lambda>x. x\<lparr>dsk := dsk s2\<rparr>"])
  with e2 have "s2 = s\<lparr>dsk := dsk s2\<rparr>" by simp
  with 1 2 show ?thesis by (simp add: disk_becomes_def)
qed

lemma disk_becomes_refl: "ok (dsk s) \<Longrightarrow> disk_becomes ok sec cap (sec (dsk s)) s s"
  by (simp add: disk_becomes_def)

lemma disk_becomes_table:
  "disk_becomes ok sec cap f s s' \<Longrightarrow> fs_table sec s' = table_of f (unat (start_table s))"
  by (simp add: fs_table_def disk_becomes_sec disk_becomes_vars)

lemma disk_becomes_bit: "disk_becomes ok sec cap f s s' \<Longrightarrow> fs_bit sec s' k = bitmap_bit f k"
  by (simp add: fs_bit_def disk_becomes_sec)

context block_device
begin

abbreviation good :: "'d fs \<Rightarrow> bool" where
  "good \<equiv> fs_good ok cap"

abbreviation becomes :: "(nat \<Rightarrow> bytes) \<Rightarrow> 'd fs \<Rightarrow> 'd fs \<Rightarrow> bool" where
  "becomes \<equiv> disk_becomes ok sec cap"

lemma good_bounds:
  assumes "good s"
  shows "ok (dsk s)" "cap (dsk s) \<le> 2 ^ 28" "layout_ok (cap (dsk s)) s"
  using assms cap_bound[of "dsk s"] by (auto simp: fs_good_def)

lemma good_layout:
  assumes "good s"
  shows "unat (start_table s) < 2 ^ 28" "unat (start_storage s) < 2 ^ 28"
    "unat (start_table s) + 128 < cap (dsk s)" "unat (start_table s) \<ge> 3"
    "unat (fs_data_bitmap_size_sectors s) + 2 = unat (start_table s)"
    "unat (start_storage s) = unat (start_table s) + 128"
    "unat (start_storage s) < cap (dsk s)"
  using layout_bounds[OF good_bounds(3,2)[OF assms]] good_bounds[OF assms]
  by (auto simp: layout_ok_def)

lemma read1_eq:
  assumes "ok (dsk s)" "unat l < cap (dsk s)" "length b = 512"
  obtains s' where "read1 E l b s = Some (0, sec (dsk s) (unat l), s')" "becomes (sec (dsk s)) s s'"
  using assms by (simp add: read1_def disk_laws disk_becomes_def)

lemma write1_eq:
  assumes "ok (dsk s)" "unat l < cap (dsk s)" "length b = 512"
  obtains s' where "write1 E l b s = Some (0, s')" "becomes ((sec (dsk s))(unat l := b)) s s'"
  using assms by (simp add: write1_def disk_laws disk_becomes_def)

lemma table_lba_ok:
  "good s \<Longrightarrow> i < 128 \<Longrightarrow> unat (table_lba s i) = unat (start_table s) + i \<and> unat (table_lba s i) < cap (dsk s)"
  using unat_table_lba[OF good_bounds(3,2)] good_layout(3) by fastforce

lemma last_id_lba_ok:
  "good s \<Longrightarrow> unat (last_id_lba s) = unat (start_table s) - 1 \<and> unat (last_id_lba s) < cap (dsk s)"
  using unat_last_id_lba[OF good_bounds(3,2)] good_layout(3) by fastforce

text \<open>One step of a loop that reads: the disk content and the variables stay.\<close>

lemma reads_trans:
  "becomes (sec (dsk s)) s s1 \<Longrightarrow> becomes (sec (dsk s1)) s1 s2 \<Longrightarrow> becomes (sec (dsk s)) s s2"
  by (metis disk_becomes_sec disk_becomes_trans)

lemma table_search_eq:
  assumes "good s" "i + n = 128" "length buf = 512"
  shows "\<exists>s'. becomes (sec (dsk s)) s s' \<and> table_search E p i n buf s
    = Some (map_option (\<lambda>k. (i + k div 8, k mod 8, sec (dsk s) (unat (start_table s) + i + k div 8)))
        (first_idx p (drop (8 * i) (fs_table sec s))), s')"
  using assms
proof (induction n arbitrary: i buf s)
  case 0
  then show ?case
    using good_bounds(1) by (auto intro!: exI[of _ s] disk_becomes_refl)
next
  case (Suc n)
  let ?f = "sec (dsk s)" and ?st = "unat (start_table s)"
  have lba: "unat (table_lba s i) = ?st + i" "unat (table_lba s i) < cap (dsk s)"
    using table_lba_ok[of s i] Suc.prems by auto
  obtain s1 where r: "read1 E (table_lba s i) buf s = Some (0, ?f (?st + i), s1)"
    and b: "becomes ?f s s1"
    using read1_eq[OF good_bounds(1)[OF Suc.prems(1)] lba(2) Suc.prems(3)] lba(1) by metis
  have len: "length (?f (?st + i)) = 512" using sec_length good_bounds(1)[OF Suc.prems(1)] by blast
  have d: "drop (8 * i) (fs_table sec s)
      = map (entry_at (?f (?st + i))) [0..<8] @ drop (8 * (i + 1)) (fs_table sec s)"
    unfolding fs_table_def using Suc.prems(2) by (intro drop_table_of) simp
  show ?case
  proof (cases "find_slot p (?f (?st + i)) 0 8")
    case (Some k)
    then have k: "first_idx p (map (entry_at (?f (?st + i))) [0..<8]) = Some k" "k < 8"
      by (auto simp: find_slot_idx first_idx_Some)
    then show ?thesis using Some r b by (auto simp: d first_idx_append intro!: exI[of _ s1])
  next
    case None
    have f1: "sec (dsk s1) = ?f" "start_table s1 = start_table s" "fs_table sec s1 = fs_table sec s"
      using disk_becomes_sec[OF b] disk_becomes_vars(1)[OF b] by (simp_all add: fs_table_def)
    obtain s2 where s2: "becomes (sec (dsk s1)) s1 s2" and t: "table_search E p (i + 1) n (?f (?st + i)) s1
      = Some (map_option (\<lambda>k. (i + 1 + k div 8, k mod 8, sec (dsk s1) (unat (start_table s1) + (i + 1) + k div 8)))
        (first_idx p (drop (8 * (i + 1)) (fs_table sec s1))), s2)"
      using Suc.IH[OF disk_becomes_good[OF b Suc.prems(1)], of "i + 1" "?f (?st + i)"] Suc.prems len by auto
    have "first_idx p (map (entry_at (?f (?st + i))) [0..<8]) = None"
      using None by (simp add: find_slot_idx)
    then have "first_idx p (drop (8 * i) (fs_table sec s))
      = map_option (\<lambda>k. 8 + k) (first_idx p (drop (8 * (i + 1)) (fs_table sec s)))"
      by (simp add: d first_idx_append)
    moreover have "(8 + x) div 8 = Suc (x div 8)" for x :: nat by simp
    ultimately show ?thesis
      using None r t reads_trans[OF b s2] f1
      by (auto intro!: exI[of _ s2] simp: option.map_comp o_def)
  qed
qed

lemma search_table_eq:
  assumes "good s"
  obtains s' where "becomes (sec (dsk s)) s s'" and "search_table E p s
    = Some (map_option (\<lambda>k. (k div 8, k mod 8, sec (dsk s) (unat (start_table s) + k div 8)))
        (first_idx p (fs_table sec s)), s')"
  using table_search_eq[OF assms, of 0 128 "local_buf E 512 s" p]
  by (auto simp: search_table_def)

end

end
