(* ===== verification/FsTableOps.thy ===== *)
theory FsTableOps
  imports FsTableLaws
begin

text \<open>
  The effect of each operation of \<open>FsTable\<close> on a working disk: on the table (as a list of entries), on
  the bitmap (as a set of allocated frames), on the last id, and which sectors it may change.
\<close>

section \<open>Frames\<close>

definition fs_changes ::
  "('d \<Rightarrow> bool) \<Rightarrow> ('d \<Rightarrow> nat \<Rightarrow> bytes) \<Rightarrow> ('d \<Rightarrow> nat) \<Rightarrow> nat set \<Rightarrow> 'd fs \<Rightarrow> 'd fs \<Rightarrow> bool" where
  "fs_changes ok sec cap R s s' \<longleftrightarrow> disk_becomes ok sec cap (sec (dsk s')) s s' \<and>
     (\<forall>i. i \<notin> R \<longrightarrow> sec (dsk s') i = sec (dsk s) i)"

definition table_sectors :: "'d fs \<Rightarrow> nat set" where
  "table_sectors s = {unat (start_table s)..<unat (start_table s) + 128}"

definition bitmap_sectors :: "'d fs \<Rightarrow> nat set" where
  "bitmap_sectors s = {1..<1 + unat (fs_data_bitmap_size_sectors s)}"

definition id_sector :: "'d fs \<Rightarrow> nat set" where
  "id_sector s = {unat (start_table s) - 1}"

definition frame_bound :: "'d fs \<Rightarrow> nat" where
  "frame_bound s = 4096 * unat (fs_data_bitmap_size_sectors s)"

text \<open>The largest id of a table, as the loop of \<open>read_from_fs_table_last_id\<close> computes it.\<close>

definition max_id :: "fs_file_entry list \<Rightarrow> u64" where
  "max_id es = fold (\<lambda>e res. if res < e_id e then e_id e else res) es 0"

lemma fs_changes_vars:
  assumes "fs_changes ok sec cap R s s'"
  shows "start_table s' = start_table s" "start_storage s' = start_storage s"
    "sectors s' = sectors s" "fs_data_bitmap_size_sectors s' = fs_data_bitmap_size_sectors s"
    "id_to_path_path s' = id_to_path_path s" "id_to_path_point s' = id_to_path_point s"
    "id_to_path_first_one s' = id_to_path_first_one s"
    "path_to_abs_path_res s' = path_to_abs_path_res s"
    "path_resolve_path_res s' = path_resolve_path_res s" "name_buf s' = name_buf s"
    "fs_is_new s' = fs_is_new s"
    "table_sectors s' = table_sectors s" "bitmap_sectors s' = bitmap_sectors s"
    "id_sector s' = id_sector s" "frame_bound s' = frame_bound s" "ok (dsk s')" "cap (dsk s') = cap (dsk s)"
  using disk_becomes_vars[of ok sec cap _ s s'] assms
  by (auto simp: fs_changes_def table_sectors_def bitmap_sectors_def id_sector_def frame_bound_def
      disk_becomes_def)

lemma fs_changes_trans:
  "fs_changes ok sec cap R s s1 \<Longrightarrow> fs_changes ok sec cap Q s1 s2 \<Longrightarrow> fs_changes ok sec cap (R \<union> Q) s s2"
  unfolding fs_changes_def by (auto intro: disk_becomes_trans)

lemma fs_changes_mono: "fs_changes ok sec cap R s s' \<Longrightarrow> R \<subseteq> Q \<Longrightarrow> fs_changes ok sec cap Q s s'"
  by (auto simp: fs_changes_def)

lemma fs_changes_good: "fs_changes ok sec cap R s s' \<Longrightarrow> fs_good ok cap s \<Longrightarrow> fs_good ok cap s'"
  by (auto simp: fs_changes_def intro: disk_becomes_good)

lemma fs_changes_refl: "ok (dsk s) \<Longrightarrow> fs_changes ok sec cap R s s"
  by (simp add: fs_changes_def disk_becomes_refl)

lemma becomes_changes:
  "disk_becomes ok sec cap f s s' \<Longrightarrow> (\<And>i. i \<notin> R \<Longrightarrow> f i = sec (dsk s) i) \<Longrightarrow> fs_changes ok sec cap R s s'"
  by (auto simp: fs_changes_def disk_becomes_def)

lemma fs_changes_sec: "fs_changes ok sec cap R s s' \<Longrightarrow> i \<notin> R \<Longrightarrow> sec (dsk s') i = sec (dsk s) i"
  by (simp add: fs_changes_def)

lemma fs_changes_table:
  "fs_changes ok sec cap R s s' \<Longrightarrow> R \<inter> table_sectors s = {} \<Longrightarrow> fs_table sec s' = fs_table sec s"
  unfolding fs_table_def
  by (subst fs_changes_vars(1), assumption, rule table_of_frame)
    (auto simp: table_sectors_def fs_changes_def)

lemma fs_changes_bit:
  "fs_changes ok sec cap R s s' \<Longrightarrow> R \<inter> bitmap_sectors s = {} \<Longrightarrow> k < frame_bound s \<Longrightarrow>
     fs_bit sec s' k = fs_bit sec s k"
  unfolding fs_bit_def bitmap_bit_def frame_bound_def bitmap_sectors_def
  by (subst fs_changes_sec[of ok sec cap R s s']) (auto simp: less_mult_imp_div_less mult.commute)

lemma fs_changes_last_id:
  "fs_changes ok sec cap R s s' \<Longrightarrow> R \<inter> id_sector s = {} \<Longrightarrow> fs_last_id sec s' = fs_last_id sec s"
  unfolding fs_last_id_def id_sector_def
  by (subst fs_changes_vars(1), assumption, subst fs_changes_sec[of ok sec cap R s s']) auto

section \<open>The largest id\<close>

lemma max_id_fold:
  "fold (\<lambda>e res. if res < e_id e then e_id e else res) es r = max r (max_id es)"
proof -
  have step: "(\<lambda>e res. if res < e_id e then e_id e else res) = (\<lambda>e res. max res (e_id e))"
    by (intro ext) (auto simp: max_def)
  have "fold (\<lambda>e res. max res (e_id e)) es (max r q) = max r (fold (\<lambda>e res. max res (e_id e)) es q)" for r q
    by (induction es arbitrary: q) (simp_all add: max.assoc)
  from this[of r 0] show ?thesis by (simp add: max_id_def step)
qed

lemma max_id_Nil [simp]: "max_id [] = 0"
  by (simp add: max_id_def)

lemma max_id_Cons [simp]: "max_id (e # es) = max (e_id e) (max_id es)"
proof -
  have "max_id (e # es) = fold (\<lambda>e res. if res < e_id e then e_id e else res) es (max 0 (e_id e))"
    by (simp add: max_id_def max_def word_gt_0)
  then show ?thesis by (simp add: max_id_fold)
qed

lemma max_id_append [simp]: "max_id (xs @ ys) = max (max_id xs) (max_id ys)"
  by (induction xs) (simp_all add: max.assoc)

lemma max_id_ge: "e \<in> set es \<Longrightarrow> e_id e \<le> max_id es"
  by (induction es) (auto simp: le_max_iff_disj)

lemma max_id_in: "max_id es = 0 \<or> (\<exists>e \<in> set es. e_id e = max_id es)"
  by (induction es) (auto simp: max_def)

lemma less_succ_u64: "w \<noteq> fs_not_found \<Longrightarrow> w < w + (1 :: u64)"
proof -
  assume "w \<noteq> fs_not_found"
  then have "unat w \<noteq> 2 ^ 64 - 1" by (simp add: word_unat_eq_iff fs_not_found_def unsigned_minus_1_eq_mask mask_eq_exp_minus_1)
  moreover have "unat w < 2 ^ 64" using unsigned_less[of w] by simp
  ultimately have "unat (w + 1) = unat w + 1" by (simp add: unat_word_ariths)
  then show ?thesis by (simp add: word_less_nat_alt)
qed

lemma max_id_fresh: "max_id es \<noteq> fs_not_found \<Longrightarrow> e \<in> set es \<Longrightarrow> e_id e \<noteq> max_id es + 1"
  using less_succ_u64[of "max_id es"] max_id_ge[of e es] by auto

section \<open>Effects\<close>

definition is_free :: "fs_file_entry \<Rightarrow> bool" where
  "is_free e \<longleftrightarrow> e_id e = 0"

lemma le_bytes_zero [simp]: "le_bytes n 0 = replicate n 0"
  by (induction n) simp_all

lemma nth_fs_table:
  "k < 1024 \<Longrightarrow> fs_table sec s ! k = entry_at (sec (dsk s) (unat (start_table s) + k div 8)) (k mod 8)"
  by (simp add: fs_table_def nth_table_of)

lemma zero_entry_slot:
  "length b = 512 \<Longrightarrow> k < 8 \<Longrightarrow> copy_into b (k * 64) (replicate 64 0) 64 = put_entry b k zero_entry"
proof -
  have "bytes_of_entry zero_entry = replicate 64 0"
    by (simp add: bytes_of_entry_def zero_entry_def replicate_add[symmetric])
  then show ?thesis by (simp add: put_entry_def)
qed

lemma div8_bound: "k < 1024 \<Longrightarrow> k div 8 < 128" for k :: nat
  by simp

context block_device
begin

abbreviation changes :: "nat set \<Rightarrow> 'd fs \<Rightarrow> 'd fs \<Rightarrow> bool" where
  "changes \<equiv> fs_changes ok sec cap"

lemma reads_changes: "becomes (sec (dsk s)) s s' \<Longrightarrow> changes {} s s'"
  by (rule becomes_changes[where f = "sec (dsk s)"]) auto

lemma reads_same:
  assumes "becomes (sec (dsk s)) s s'"
  shows "sec (dsk s') = sec (dsk s)" "fs_table sec s' = fs_table sec s" "fs_bit sec s' = fs_bit sec s"
    "fs_last_id sec s' = fs_last_id sec s" "cap (dsk s') = cap (dsk s)" "table_lba s' = table_lba s"
    "last_id_lba s' = last_id_lba s" "start_table s' = start_table s"
    "start_storage s' = start_storage s"
proof -
  note d = disk_becomes_sec[OF assms] disk_becomes_vars(1,2)[OF assms]
  show "sec (dsk s') = sec (dsk s)" "start_table s' = start_table s"
    "start_storage s' = start_storage s" using d by auto
  show "cap (dsk s') = cap (dsk s)" using assms by (simp add: disk_becomes_def)
  show "table_lba s' = table_lba s" "fs_bit sec s' = fs_bit sec s"
    by (intro ext, simp add: table_lba_def fs_bit_def d)+
  show "fs_table sec s' = fs_table sec s" "fs_last_id sec s' = fs_last_id sec s"
    "last_id_lba s' = last_id_lba s"
    by (simp_all add: fs_table_def fs_last_id_def last_id_lba_def d)
qed

text \<open>Storing one entry in slot \<open>k\<close> of the table.\<close>

lemma put_slot:
  assumes "good s" "k < 1024" "wf_entry e"
  obtains s' where "write1 E (table_lba s (k div 8))
      (put_entry (sec (dsk s) (unat (start_table s) + k div 8)) (k mod 8) e) s = Some (0, s')"
    and "changes (table_sectors s) s s'" and "fs_table sec s' = (fs_table sec s)[k := e]"
proof -
  let ?b = "sec (dsk s) (unat (start_table s) + k div 8)"
  have ok: "ok (dsk s)" using good_bounds[OF assms(1)] by simp
  have len: "length (sec (dsk s) i) = 512" for i using sec_length[OF ok] .
  have lba: "unat (table_lba s (k div 8)) = unat (start_table s) + k div 8"
    "unat (table_lba s (k div 8)) < cap (dsk s)"
    using table_lba_ok[OF assms(1), of "k div 8"] assms(2) div8_bound by auto
  obtain s' where w: "write1 E (table_lba s (k div 8)) (put_entry ?b (k mod 8) e) s = Some (0, s')"
    and b: "becomes ((sec (dsk s))(unat (table_lba s (k div 8)) := put_entry ?b (k mod 8) e)) s s'"
    using write1_eq[OF ok lba(2), of "put_entry ?b (k mod 8) e"] len by auto
  have "changes (table_sectors s) s s'"
    by (rule becomes_changes[OF b]) (use lba(1) assms(2) div8_bound in \<open>auto simp: table_sectors_def\<close>)
  moreover have "fs_table sec s' = (fs_table sec s)[k := e]"
    using disk_becomes_table[OF b] table_of_put_entry[OF assms(2,3) len] lba(1)
    by (simp add: fs_table_def)
  ultimately show thesis using w that by blast
qed

lemma write_entry_effect:
  assumes "good s" "wf_entry e"
  obtains s' where
    "write_entry_to_table E e s
       = Some (if first_idx is_free (fs_table sec s) = None then -1 else 0, s')"
    and "changes (table_sectors s) s s'"
    and "fs_table sec s' = (case first_idx is_free (fs_table sec s) of None \<Rightarrow> fs_table sec s
                            | Some k \<Rightarrow> (fs_table sec s)[k := e])"
proof -
  obtain s1 where b: "becomes (sec (dsk s)) s s1" and t: "search_table E is_free s
    = Some (map_option (\<lambda>k. (k div 8, k mod 8, sec (dsk s) (unat (start_table s) + k div 8)))
        (first_idx is_free (fs_table sec s)), s1)"
    by (rule search_table_eq[OF assms(1)])
  have p: "(\<lambda>e. e_id e = 0) = is_free" by (simp add: is_free_def fun_eq_iff)
  note r = reads_same[OF b]
  show thesis
  proof (cases "first_idx is_free (fs_table sec s)")
    case None
    then show thesis using t p r fs_changes_mono[OF reads_changes[OF b]]
      by (intro that[of s1]) (auto simp: write_entry_to_table_def)
  next
    case (Some k)
    then have k: "k < 1024" by (simp add: first_idx_Some)
    obtain s2 where "write1 E (table_lba s1 (k div 8))
        (put_entry (sec (dsk s1) (unat (start_table s1) + k div 8)) (k mod 8) e) s1 = Some (0, s2)"
      and c: "changes (table_sectors s1) s1 s2" and "fs_table sec s2 = (fs_table sec s1)[k := e]"
      using put_slot[OF disk_becomes_good[OF b assms(1)] k assms(2)] .
    then show thesis
      using Some t p r fs_changes_trans[OF reads_changes[OF b] c] fs_changes_vars(12)[OF reads_changes[OF b]]
      by (intro that[of s2]) (auto simp: write_entry_to_table_def)
  qed
qed

lemma find_entry_effect:
  assumes "good s"
  obtains s' where "becomes (sec (dsk s)) s s'" and "find_entry_by_id E i s
    = Some (if i = 0 \<or> i = fs_not_found then None
        else map_option (\<lambda>k. (fs_table sec s ! k, k div 8, k mod 8))
               (first_idx (\<lambda>e. e_id e = i) (fs_table sec s)), s')"
proof (cases "i = 0 \<or> i = fs_not_found")
  case True
  then show thesis using disk_becomes_refl[of ok s sec cap] good_bounds(1)[OF assms] that[of s]
    by (simp add: find_entry_by_id_def)
next
  case False
  obtain s1 where b: "becomes (sec (dsk s)) s s1" and t: "search_table E (\<lambda>e. e_id e = i) s
    = Some (map_option (\<lambda>k. (k div 8, k mod 8, sec (dsk s) (unat (start_table s) + k div 8)))
        (first_idx (\<lambda>e. e_id e = i) (fs_table sec s)), s1)"
    by (rule search_table_eq[OF assms])
  show thesis
  proof (cases "first_idx (\<lambda>e. e_id e = i) (fs_table sec s)")
    case None
    show thesis by (rule that[OF b]) (use False t None in \<open>simp add: find_entry_by_id_def\<close>)
  next
    case (Some k)
    then have "k < 1024" by (simp add: first_idx_Some)
    then show thesis by (intro that[OF b]) (use False t Some in \<open>simp add: find_entry_by_id_def nth_fs_table\<close>)
  qed
qed

lemma name_lookup_effect:
  assumes "good s"
  obtains s' where "becomes (sec (dsk s)) s s'" and "name_and_parent_id_to_id E name par s
    = Some (case first_idx (\<lambda>e. fs_strcmp (e_name e) name 24 \<noteq> 0 \<and> e_parent_id e = par) (fs_table sec s)
        of None \<Rightarrow> fs_not_found | Some k \<Rightarrow> e_id (fs_table sec s ! k), s')"
proof -
  let ?p = "\<lambda>e. fs_strcmp (e_name e) name 24 \<noteq> 0 \<and> e_parent_id e = par"
  obtain s1 where b: "becomes (sec (dsk s)) s s1" and t: "search_table E ?p s
    = Some (map_option (\<lambda>k. (k div 8, k mod 8, sec (dsk s) (unat (start_table s) + k div 8)))
        (first_idx ?p (fs_table sec s)), s1)"
    by (rule search_table_eq[OF assms])
  show thesis
  proof (cases "first_idx ?p (fs_table sec s)")
    case None
    show thesis by (rule that[OF b]) (use t None in \<open>simp add: name_and_parent_id_to_id_def\<close>)
  next
    case (Some k)
    then have "k < 1024" by (simp add: first_idx_Some)
    then show thesis
      by (intro that[OF b]) (use t Some in \<open>simp add: name_and_parent_id_to_id_def nth_fs_table\<close>)
  qed
qed

lemma has_children_effect:
  assumes "good s"
  obtains s' where "becomes (sec (dsk s)) s s'" and "dir_has_children E d s
    = Some (if \<exists>e \<in> set (fs_table sec s). e_id e \<noteq> 0 \<and> e_parent_id e = d then 1 else 0, s')"
proof -
  let ?p = "\<lambda>e. e_id e \<noteq> 0 \<and> e_parent_id e = d"
  obtain s1 where b: "becomes (sec (dsk s)) s s1" and t: "search_table E ?p s
    = Some (map_option (\<lambda>k. (k div 8, k mod 8, sec (dsk s) (unat (start_table s) + k div 8)))
        (first_idx ?p (fs_table sec s)), s1)"
    by (rule search_table_eq[OF assms])
  have n: "first_idx ?p (fs_table sec s) = None \<longleftrightarrow> \<not> (\<exists>e \<in> set (fs_table sec s). ?p e)"
    by (simp only: first_idx_None) blast
  show thesis
    by (rule that[OF b]) (use t n in \<open>auto simp: dir_has_children_def split: option.splits\<close>)
qed

lemma erase_effect:
  assumes "good s" "k < 1024"
  obtains s' where "erase_table_entry E (k div 8) (k mod 8) s = Some s'"
    and "changes (table_sectors s) s s'" and "fs_table sec s' = (fs_table sec s)[k := zero_entry]"
proof -
  have ok: "ok (dsk s)" using good_bounds[OF assms(1)] by simp
  have lba: "unat (table_lba s (k div 8)) = unat (start_table s) + k div 8"
    "unat (table_lba s (k div 8)) < cap (dsk s)"
    using table_lba_ok[OF assms(1), of "k div 8"] assms(2) div8_bound by auto
  obtain s1 where r: "read1 E (table_lba s (k div 8)) (local_buf E 512 s) s
      = Some (0, sec (dsk s) (unat (start_table s) + k div 8), s1)" and b: "becomes (sec (dsk s)) s s1"
    using read1_eq[OF ok lba(2), of "local_buf E 512 s"] lba(1) by auto
  have len: "length (sec (dsk s) (unat (start_table s) + k div 8)) = 512" using sec_length[OF ok] .
  obtain s2 where "write1 E (table_lba s1 (k div 8))
      (put_entry (sec (dsk s1) (unat (start_table s1) + k div 8)) (k mod 8) zero_entry) s1 = Some (0, s2)"
    and c: "changes (table_sectors s1) s1 s2" and "fs_table sec s2 = (fs_table sec s1)[k := zero_entry]"
    using put_slot[OF disk_becomes_good[OF b assms(1)] assms(2) wf_zero_entry] .
  then show thesis
    using r reads_same[OF b] fs_changes_trans[OF reads_changes[OF b] c]
      fs_changes_vars(12)[OF reads_changes[OF b]] zero_entry_slot[OF len, of "k mod 8"]
    by (intro that[of s2]) (auto simp: erase_table_entry_def table_lba_eq[symmetric])
qed

end

end
