(* ===== verification/FsAlloc.thy ===== *)
theory FsAlloc
  imports FsTableOps
begin

text \<open>
  The effect of the last-id functions, of the bitmap operations and of the region allocator
  \<open>get_data_region\<close> on a working disk.
\<close>

section \<open>Bits of a bitmap sector\<close>

lemma frame_eq_iff:
  "j = k \<longleftrightarrow> j div 4096 = k div 4096 \<and> j div 8 mod 512 = k div 8 mod 512 \<and> j mod 8 = (k :: nat) mod 8"
proof -
  have "n = 4096 * (n div 4096) + 8 * (n div 8 mod 512) + n mod 8" for n :: nat
  proof -
    have "n div 4096 = n div 8 div 512" by (simp add: div_mult2_eq[symmetric])
    then show ?thesis using div_mult_mod_eq[of "n div 8" 512] div_mult_mod_eq[of n 8] by linarith
  qed
  then show ?thesis by metis
qed

lemma bitmap_bit_update:
  assumes "length (f (1 + k div 4096)) = 512" "\<And>n. n < 8 \<Longrightarrow> bit v n = (if n = k mod 8 then x else bit (f (1 + k div 4096) ! (k div 8 mod 512)) n)"
  shows "bitmap_bit (f(1 + k div 4096 := (f (1 + k div 4096))[k div 8 mod 512 := v])) j
    = (if j = k then x else bitmap_bit f j)"
proof (cases "j div 4096 = k div 4096 \<and> j div 8 mod 512 = k div 8 mod 512")
  case True
  then have "j mod 8 = k mod 8 \<longleftrightarrow> j = k" using frame_eq_iff[of j k] by auto
  with True assms show ?thesis by (simp add: bitmap_bit_def)
next
  case False
  then have "j \<noteq> k" by auto
  with False show ?thesis by (auto simp: bitmap_bit_def nth_update)
qed

section \<open>Free runs\<close>

text \<open>\<open>free_run g n p\<close>: none of the \<open>n\<close> frames from \<open>p\<close> is taken according to \<open>g\<close>.\<close>

definition free_run :: "(nat \<Rightarrow> bool) \<Rightarrow> nat \<Rightarrow> nat \<Rightarrow> bool" where
  "free_run g n p \<longleftrightarrow> (\<forall>i < n. \<not> g (p + i))"

definition least_run :: "(nat \<Rightarrow> bool) \<Rightarrow> nat \<Rightarrow> nat option" where
  "least_run g n = first_idx (free_run g n) [0..<4097 - n]"

definition buf_bit :: "bytes \<Rightarrow> nat \<Rightarrow> bool" where
  "buf_bit buf q = bit (buf ! (q div 8)) (q mod 8)"

definition bits_set :: "bytes \<Rightarrow> nat \<Rightarrow> nat \<Rightarrow> nat" where
  "bits_set buf q n = sum_list (map (\<lambda>i. if buf_bit buf (q + i) then 1 else 0) [0..<n])"

lemma bits_set_Suc: "bits_set buf q (Suc n) = (if buf_bit buf q then 1 else 0) + bits_set buf (Suc q) n"
proof -
  have "[0..<Suc n] = 0 # map Suc [0..<n]" by (simp add: map_Suc_upt upt_conv_Cons)
  then show ?thesis by (simp add: bits_set_def comp_def)
qed

lemma free_run_Suc: "free_run g (Suc n) p \<longleftrightarrow> \<not> g p \<and> free_run g n (Suc p)"
  by (auto simp: free_run_def All_less_Suc2)

lemma bits_set_0: "bits_set buf q n = 0 \<longleftrightarrow> free_run (buf_bit buf) n q"
  by (induction n arbitrary: q) (simp_all add: bits_set_Suc free_run_Suc, simp add: bits_set_def free_run_def)

lemma region_bits_eq:
  assumes "length buf = 512" "8 * i3 + i4 + i5 + n \<le> 4096" "i4 < 8"
  shows "region_bits buf i3 i4 i5 n = Some (bits_set buf (8 * i3 + i4 + i5) n)"
  using assms
proof (induction n arbitrary: i5)
  case 0
  then show ?case by (simp add: bits_set_def)
next
  case (Suc n)
  have idx: "(if 7 < i4 + i5 then i3 + (i4 + i5) div 8 else i3) = (8 * i3 + i4 + i5) div 8"
    "(if 7 < i4 + i5 then i4 + i5 - (i4 + i5) div 8 * 8 else i4 + i5) = (8 * i3 + i4 + i5) mod 8"
    by (auto simp: minus_div_mult_eq_mod add.assoc)
  have "(8 * i3 + i4 + i5) div 8 < 512" using Suc.prems(2) by linarith
  moreover have "region_bits buf i3 i4 (i5 + 1) n = Some (bits_set buf (8 * i3 + i4 + (i5 + 1)) n)"
    using Suc.prems by (intro Suc.IH) auto
  ultimately show ?case
    using Suc.prems(1) idx by (simp add: Let_def bits_set_Suc buf_bit_def)
qed

lemma region_bits_fault:
  assumes "length buf = 512" "4096 < 8 * i3 + i4 + i5 + n" "8 * i3 + i4 + i5 \<le> 4096" "i4 < 8"
  shows "region_bits buf i3 i4 i5 n = None"
  using assms
proof (induction n arbitrary: i5)
  case 0
  then show ?case by simp
next
  case (Suc n)
  have idx: "(if 7 < i4 + i5 then i3 + (i4 + i5) div 8 else i3) = (8 * i3 + i4 + i5) div 8"
    by (auto simp: add.assoc)
  show ?case
  proof (cases "8 * i3 + i4 + i5 = 4096")
    case True
    then have "peek buf (if 7 < i4 + i5 then i3 + (i4 + i5) div 8 else i3) = None"
      using Suc.prems(1) by (simp only: idx) simp
    then show ?thesis by (simp add: Let_def)
  next
    case False
    then have "region_bits buf i3 i4 (i5 + 1) n = None"
      using Suc.prems by (intro Suc.IH) auto
    then show ?thesis by (simp add: Let_def bind_eq_None_conv)
  qed
qed

lemma region_bits_pos:
  "length buf = 512 \<Longrightarrow> pos + n \<le> 4096 \<Longrightarrow>
     region_bits buf (pos div 8) (pos mod 8) 0 n = Some (bits_set buf pos n)"
  using region_bits_eq[of buf "pos div 8" "pos mod 8" 0 n] by simp

lemma region_bits_pos_fault:
  "length buf = 512 \<Longrightarrow> 4096 < pos + n \<Longrightarrow> pos \<le> 4096 \<Longrightarrow>
     region_bits buf (pos div 8) (pos mod 8) 0 n = None"
  using region_bits_fault[of buf "pos div 8" "pos mod 8" 0 n] by simp

lemma region_scan_eq:
  assumes "length buf = 512" "2 \<le> sz" "sz \<le> 4096" "pos + n = 4096" "pos + sz \<le> 4097"
  shows "region_scan buf sz pos n
    = map_option Some (map_option (\<lambda>k. pos + k) (first_idx (free_run (buf_bit buf) sz) [pos..<4097 - sz]))"
  using assms
proof (induction n arbitrary: pos)
  case 0
  then show ?case by simp
next
  case (Suc n)
  show ?case
  proof (cases "pos + sz \<le> 4096")
    case True
    then have "[pos..<4097 - sz] = pos # [Suc pos..<4097 - sz]" by (intro upt_conv_Cons) auto
    then show ?thesis
      using True Suc.prems Suc.IH[of "Suc pos"]
      by (auto simp: region_bits_pos bits_set_0 option.map_comp o_def)
  next
    case False
    then show ?thesis using Suc.prems by (simp add: region_bits_pos_fault)
  qed
qed

lemma first_idx_cong:
  "(\<And>x. x \<in> set xs \<Longrightarrow> p x = q x) \<Longrightarrow> first_idx p xs = first_idx q xs"
  by (induction xs) auto

lemma least_run_Some:
  assumes "least_run g n = Some p"
  shows "free_run g n p" "p + n < 4097" "\<And>q. q < p \<Longrightarrow> \<not> free_run g n q"
proof -
  have p: "p < 4097 - n" "free_run g n ([0..<4097 - n] ! p)"
    "\<And>j. j < p \<Longrightarrow> \<not> free_run g n ([0..<4097 - n] ! j)"
    using assms by (auto simp: least_run_def first_idx_Some)
  then show "free_run g n p" "p + n < 4097" by auto
  fix q assume "q < p"
  then show "\<not> free_run g n q" using p(1) p(3)[of q] by simp
qed

lemma least_run_None: "least_run g n = None \<Longrightarrow> p + n \<le> 4096 \<Longrightarrow> \<not> free_run g n p"
  by (auto simp: least_run_def first_idx_None)

context block_device
begin

section \<open>The last id\<close>

lemma table_last_id_eq:
  assumes "good s" "i + n = 128" "length buf = 512"
  shows "\<exists>s'. becomes (sec (dsk s)) s s' \<and>
    table_last_id E i n buf res s = Some (max res (max_id (drop (8 * i) (fs_table sec s))), s')"
  using assms
proof (induction n arbitrary: i buf res s)
  case 0
  then show ?case using good_bounds(1) by (auto intro!: exI[of _ s] disk_becomes_refl)
next
  case (Suc n)
  let ?b = "sec (dsk s) (unat (start_table s) + i)"
  have lba: "unat (table_lba s i) = unat (start_table s) + i" "unat (table_lba s i) < cap (dsk s)"
    using table_lba_ok[of s i] Suc.prems by auto
  obtain s1 where r: "read1 E (table_lba s i) buf s = Some (0, ?b, s1)"
    and b: "becomes (sec (dsk s)) s s1"
    using read1_eq[OF good_bounds(1)[OF Suc.prems(1)] lba(2) Suc.prems(3)] lba(1) by metis
  have len: "length ?b = 512" using sec_length good_bounds(1)[OF Suc.prems(1)] by blast
  have d: "drop (8 * i) (fs_table sec s)
      = map (entry_at ?b) [0..<8] @ drop (8 * (i + 1)) (fs_table sec s)"
    unfolding fs_table_def using Suc.prems(2) by (intro drop_table_of) simp
  define res1 where "res1 = fold (\<lambda>i3 res. let e = entry_at ?b i3 in if res < e_id e then e_id e else res) [0..<8] res"
  have res1: "res1 = max res (max_id (map (entry_at ?b) [0..<8]))"
    unfolding res1_def max_id_fold[symmetric] by (simp only: fold_map comp_def Let_def)
  obtain s2 where s2: "becomes (sec (dsk s1)) s1 s2" and t: "table_last_id E (i + 1) n ?b res1 s1
      = Some (max res1 (max_id (drop (8 * (i + 1)) (fs_table sec s1))), s2)"
    using Suc.IH[OF disk_becomes_good[OF b Suc.prems(1)], of "i + 1" ?b res1] Suc.prems len by auto
  have "max_id (drop (8 * i) (fs_table sec s))
      = max (max_id (map (entry_at ?b) [0..<8])) (max_id (drop (8 * (i + 1)) (fs_table sec s)))"
    by (simp only: d max_id_append)
  then have "max res1 (max_id (drop (8 * (i + 1)) (fs_table sec s1))) = max res (max_id (drop (8 * i) (fs_table sec s)))"
    using res1 reads_same(2)[OF b] by (simp only: max.assoc)
  then show ?case
    using r t reads_trans[OF b s2] by (intro exI[of _ s2]) (simp only: table_last_id.simps bind.bind_lunit
      case_prod_conv Let_def refl if_True res1_def[unfolded Let_def, symmetric] simp_thms)
qed

lemma table_max_effect:
  assumes "good s"
  obtains s' where "becomes (sec (dsk s)) s s'"
    and "read_from_fs_table_last_id E s = Some (max_id (fs_table sec s), s')"
  using table_last_id_eq[OF assms, of 0 128 "local_buf E 512 s" 0]
  by (auto simp: read_from_fs_table_last_id_def max_def word_gt_0)

lemma read_last_id_effect:
  assumes "good s"
  obtains s' where "becomes (sec (dsk s)) s s'" and "read_last_id_from_disk E s = Some (fs_last_id sec s, s')"
proof -
  have l: "ok (dsk s)" "unat (last_id_lba s) < cap (dsk s)" "unat (last_id_lba s) = unat (start_table s) - 1"
    using good_bounds[OF assms] last_id_lba_ok[OF assms] by auto
  obtain s1 where "read1 E (last_id_lba s) (local_buf E 512 s) s
      = Some (0, sec (dsk s) (unat (last_id_lba s)), s1)" and "becomes (sec (dsk s)) s s1"
    using read1_eq[OF l(1,2), of "local_buf E 512 s"] by auto
  then show thesis
    using l(3) by (intro that[of s1]) (simp_all add: read_last_id_from_disk_def fs_last_id_def)
qed

lemma reload_effect:
  assumes "good s"
  obtains s' where "reload_last_id_to_disk E s = Some s'" and "changes (id_sector s) s s'"
    and "fs_last_id sec s' = max_id (fs_table sec s)"
proof -
  obtain s1 where b: "becomes (sec (dsk s)) s s1"
    and r: "read_from_fs_table_last_id E s = Some (max_id (fs_table sec s), s1)"
    by (rule table_max_effect[OF assms])
  let ?b = "put_u64 (local_buf E 512 s) 0 (max_id (fs_table sec s))"
  have g: "good s1" by (rule disk_becomes_good[OF b assms])
  have l: "ok (dsk s1)" "unat (last_id_lba s1) < cap (dsk s1)" "unat (last_id_lba s1) = unat (start_table s) - 1"
    using good_bounds[OF g] last_id_lba_ok[OF g] reads_same[OF b] by auto
  obtain s2 where w: "write1 E (last_id_lba s1) ?b s1 = Some (0, s2)"
    and b2: "becomes ((sec (dsk s1))(unat (last_id_lba s1) := ?b)) s1 s2"
    using write1_eq[OF l(1,2), of ?b] by auto
  have "changes (id_sector s) s s2"
    using fs_changes_trans[OF reads_changes[OF b] becomes_changes[OF b2, of "id_sector s"]] l(3)
    by (simp add: id_sector_def)
  moreover have "fs_last_id sec s2 = max_id (fs_table sec s)"
    using disk_becomes_sec[OF b2] disk_becomes_vars(1)[OF b2] reads_same[OF b] l(3)
    by (simp add: fs_last_id_def)
  ultimately show thesis using that[of s2] r w by (simp add: reload_last_id_to_disk_def)
qed

section \<open>The bitmap\<close>

lemma bitmap_lba_ok:
  assumes "good s" "unat k < frame_bound s"
  shows "unat (bitmap_lba k) = 1 + unat k div 4096" "unat (bitmap_lba k) < cap (dsk s)"
    "unat (bitmap_lba k) \<in> bitmap_sectors s"
proof -
  have b: "unat k div 4096 < unat (fs_data_bitmap_size_sectors s)"
    using assms(2) by (simp add: frame_bound_def less_mult_imp_div_less mult.commute)
  then have "unat k < 2 ^ 40" using good_layout[OF assms(1)] assms(2) by (simp add: frame_bound_def)
  then show l: "unat (bitmap_lba k) = 1 + unat k div 4096" by (rule unat_bitmap_lba)
  show "unat (bitmap_lba k) < cap (dsk s)" using l b good_layout[OF assms(1)] by linarith
  show "unat (bitmap_lba k) \<in> bitmap_sectors s" using l b by (simp add: bitmap_sectors_def)
qed

lemma bitmap_rw_effect:
  assumes "good s" "unat k < frame_bound s"
    and v: "\<And>w n. n < 8 \<Longrightarrow> bit (v w) n = (if n = unat k mod 8 then x else bit w n)"
  obtains s' s1 where "read1 E (bitmap_lba k) (local_buf E 512 s) s
      = Some (0, sec (dsk s) (1 + unat k div 4096), s1)"
    and "write1 E (bitmap_lba k) ((sec (dsk s) (1 + unat k div 4096))
      [bitmap_byte k := v (sec (dsk s) (1 + unat k div 4096) ! bitmap_byte k)]) s1 = Some (0, s')"
    and "changes (bitmap_sectors s) s s'" and "fs_bit sec s' = (\<lambda>j. if j = unat k then x else fs_bit sec s j)"
proof -
  let ?b = "sec (dsk s) (1 + unat k div 4096)"
  let ?b' = "?b[bitmap_byte k := v (?b ! bitmap_byte k)]"
  note l = bitmap_lba_ok[OF assms(1,2)]
  have ok: "ok (dsk s)" using good_bounds[OF assms(1)] by simp
  have len: "length ?b = 512" using sec_length[OF ok] .
  obtain s1 where r: "read1 E (bitmap_lba k) (local_buf E 512 s) s = Some (0, ?b, s1)"
    and b: "becomes (sec (dsk s)) s s1"
    using read1_eq[OF ok l(2), of "local_buf E 512 s"] l(1) by auto
  have ok1: "ok (dsk s1)" "unat (bitmap_lba k) < cap (dsk s1)"
    using good_bounds(1)[OF disk_becomes_good[OF b assms(1)]] l(2) reads_same(5)[OF b] by auto
  obtain s2 where w: "write1 E (bitmap_lba k) ?b' s1 = Some (0, s2)"
    and b2: "becomes ((sec (dsk s1))(unat (bitmap_lba k) := ?b')) s1 s2"
    using write1_eq[OF ok1, of ?b'] len by auto
  have "changes (bitmap_sectors s) s1 s2"
    by (rule becomes_changes[OF b2]) (use l(3) in auto)
  from fs_changes_trans[OF reads_changes[OF b] this] have c: "changes (bitmap_sectors s) s s2" by simp
  have "fs_bit sec s2 j = (if j = unat k then x else fs_bit sec s j)" for j
    using bitmap_bit_update[of "sec (dsk s)" "unat k" "v (?b ! bitmap_byte k)" x j] len v
      disk_becomes_bit[OF b2, of j] reads_same(1)[OF b] l(1)
    by (simp add: bitmap_byte_eq fs_bit_def)
  then show thesis using r w c that by blast
qed

lemma bitmap_set_effect:
  assumes "good s" "unat k < frame_bound s"
  obtains s' where "bitmap_set E k s = Some s'" and "changes (bitmap_sectors s) s s'"
    and "fs_bit sec s' = (\<lambda>j. if j = unat k then True else fs_bit sec s j)"
proof -
  have "bit (w OR bitmap_mask k) n = (if n = unat k mod 8 then True else bit w n)" for w n
    by (auto simp: bit_or_iff bit_bitmap_mask)
  from bitmap_rw_effect[OF assms this] show thesis
    using that by (metis (no_types, lifting) bind.bind_lunit bitmap_set_def case_prod_conv)
qed

lemma bitmap_clear_effect:
  assumes "good s" "unat k < frame_bound s"
  obtains s' where "bitmap_clear E k s = Some s'" and "changes (bitmap_sectors s) s s'"
    and "fs_bit sec s' = (\<lambda>j. if j = unat k then False else fs_bit sec s j)"
proof -
  have "bit (w AND NOT (bitmap_mask k)) n = (if n = unat k mod 8 then False else bit w n)"
    if "n < 8" for w n
    using that by (auto simp: bit_and_iff bit_not_iff bit_bitmap_mask)
  from bitmap_rw_effect[OF assms this] show thesis
    using that by (metis (no_types, lifting) bind.bind_lunit bitmap_clear_def case_prod_conv)
qed

lemma bitmap_read_effect:
  assumes "good s" "unat k < frame_bound s"
  obtains s' st where "bitmap_read E k s = Some (st, s')" and "becomes (sec (dsk s)) s s'"
    and "st \<noteq> 0 \<longleftrightarrow> fs_bit sec s (unat k)"
proof -
  let ?b = "sec (dsk s) (1 + unat k div 4096)"
  note l = bitmap_lba_ok[OF assms]
  have ok: "ok (dsk s)" using good_bounds[OF assms(1)] by simp
  obtain s1 where r: "read1 E (bitmap_lba k) (local_buf E 512 s) s = Some (0, ?b, s1)"
    and b: "becomes (sec (dsk s)) s s1"
    using read1_eq[OF ok l(2), of "local_buf E 512 s"] l(1) by auto
  have "w AND bitmap_mask k \<noteq> 0 \<longleftrightarrow> bit w (unat k mod 8)" for w
  proof -
    have "bit (w AND bitmap_mask k) n \<longleftrightarrow> n = unat k mod 8 \<and> bit w (unat k mod 8)" for n
      by (auto simp: bit_and_iff bit_bitmap_mask)
    then show ?thesis by (metis bit_0_eq bit_word_eqI bot_apply bot_bool_def)
  qed
  then have "uint (?b ! bitmap_byte k AND bitmap_mask k) \<noteq> 0 \<longleftrightarrow> fs_bit sec s (unat k)"
    by (simp add: fs_bit_def bitmap_bit_def bitmap_byte_eq uint_0_iff)
  then show thesis using that[OF _ b] r by (simp add: bitmap_read_def)
qed

lemma frame_bound_small: "good s \<Longrightarrow> frame_bound s < 2 ^ 41"
  using good_layout(1,5)[of s] by (simp add: frame_bound_def)

lemma unat_frame_succ: "good s \<Longrightarrow> unat k < frame_bound s \<Longrightarrow> unat (k + 1 :: u64) = unat k + 1"
  using frame_bound_small[of s] unat_add_64[of k 1] by simp

lemma bitmap_set_range_effect:
  assumes "good s" "unat k + n \<le> frame_bound s"
  shows "\<exists>s'. bitmap_set_range E k n s = Some s' \<and> changes (bitmap_sectors s) s s' \<and>
    fs_bit sec s' = (\<lambda>j. (unat k \<le> j \<and> j < unat k + n) \<or> fs_bit sec s j)"
  using assms
proof (induction n arbitrary: k s)
  case 0
  then show ?case using good_bounds(1) by (auto intro!: exI[of _ s] fs_changes_refl)
next
  case (Suc n)
  have k: "unat k < frame_bound s" using Suc.prems by simp
  obtain s1 where 1: "bitmap_set E k s = Some s1" "changes (bitmap_sectors s) s s1"
    "fs_bit sec s1 = (\<lambda>j. if j = unat k then True else fs_bit sec s j)"
    by (rule bitmap_set_effect[OF Suc.prems(1) k])
  note v = fs_changes_vars[OF 1(2)]
  obtain s2 where 2: "bitmap_set_range E (k + 1) n s1 = Some s2" "changes (bitmap_sectors s1) s1 s2"
    "fs_bit sec s2 = (\<lambda>j. (unat (k + 1) \<le> j \<and> j < unat (k + 1) + n) \<or> fs_bit sec s1 j)"
    using Suc.IH[OF fs_changes_good[OF 1(2) Suc.prems(1)], of "k + 1"] Suc.prems(2)
      unat_frame_succ[OF Suc.prems(1) k] v(15) by auto
  have "changes (bitmap_sectors s) s s2" using fs_changes_trans[OF 1(2) 2(2)] v(13) by simp
  moreover have "fs_bit sec s2 = (\<lambda>j. (unat k \<le> j \<and> j < unat k + Suc n) \<or> fs_bit sec s j)"
    unfolding 2(3) 1(3) unat_frame_succ[OF Suc.prems(1) k] by (intro ext) auto
  ultimately show ?case using 1(1) 2(1) by simp
qed

lemma bitmap_clear_range_effect:
  assumes "good s" "unat k + n \<le> frame_bound s"
  shows "\<exists>s'. bitmap_clear_range E k n s = Some s' \<and> changes (bitmap_sectors s) s s' \<and>
    fs_bit sec s' = (\<lambda>j. \<not> (unat k \<le> j \<and> j < unat k + n) \<and> fs_bit sec s j)"
  using assms
proof (induction n arbitrary: k s)
  case 0
  then show ?case using good_bounds(1) by (auto intro!: exI[of _ s] fs_changes_refl)
next
  case (Suc n)
  have k: "unat k < frame_bound s" using Suc.prems by simp
  obtain s1 where 1: "bitmap_clear E k s = Some s1" "changes (bitmap_sectors s) s s1"
    "fs_bit sec s1 = (\<lambda>j. if j = unat k then False else fs_bit sec s j)"
    by (rule bitmap_clear_effect[OF Suc.prems(1) k])
  note v = fs_changes_vars[OF 1(2)]
  obtain s2 where 2: "bitmap_clear_range E (k + 1) n s1 = Some s2" "changes (bitmap_sectors s1) s1 s2"
    "fs_bit sec s2 = (\<lambda>j. \<not> (unat (k + 1) \<le> j \<and> j < unat (k + 1) + n) \<and> fs_bit sec s1 j)"
    using Suc.IH[OF fs_changes_good[OF 1(2) Suc.prems(1)], of "k + 1"] Suc.prems(2)
      unat_frame_succ[OF Suc.prems(1) k] v(15) by auto
  have "changes (bitmap_sectors s) s s2" using fs_changes_trans[OF 1(2) 2(2)] v(13) by simp
  moreover have "fs_bit sec s2 = (\<lambda>j. \<not> (unat k \<le> j \<and> j < unat k + Suc n) \<and> fs_bit sec s j)"
    unfolding 2(3) 1(3) unat_frame_succ[OF Suc.prems(1) k] by (intro ext) auto
  ultimately show ?case using 1(1) 2(1) by simp
qed

section \<open>The allocator\<close>

text \<open>
  A region of two or more frames is the least free run within the first bitmap sector; when that
  sector has none, the scan reads past its buffer.
\<close>

lemma get_data_region_effect:
  assumes "good s" "2 \<le> unat n" "unat n \<le> 4096"
  shows "\<exists>s'. becomes (sec (dsk s)) s s' \<and> get_data_region E 0 n s
    = map_option (\<lambda>p. (of_nat p, s')) (least_run (fs_bit sec s) (unat n))"
proof -
  let ?b = "sec (dsk s) 1"
  have ok: "ok (dsk s)" using good_bounds[OF assms(1)] by simp
  have len: "length ?b = 512" using sec_length[OF ok] .
  have l: "unat (1 + of_nat 0 :: u32) < cap (dsk s)" using good_layout[OF assms(1)] by simp
  obtain s1 where r: "read1 E (1 + of_nat 0) (local_buf E 512 s) s = Some (0, ?b, s1)"
    and b: "becomes (sec (dsk s)) s s1"
    using read1_eq[OF ok l, of "local_buf E 512 s"] by auto
  obtain m where m: "unat (fs_data_bitmap_size_sectors s) = Suc m"
    using good_layout[OF assms(1)] by (cases "unat (fs_data_bitmap_size_sectors s)") auto
  have bits: "buf_bit ?b q = fs_bit sec s q" if "q < 4096" for q
    using that by (simp add: buf_bit_def fs_bit_def bitmap_bit_def less_mult_imp_div_less)
  have "first_idx (free_run (buf_bit ?b) (unat n)) [0..<4097 - unat n] = least_run (fs_bit sec s) (unat n)"
    unfolding least_run_def by (rule first_idx_cong) (use bits in \<open>auto simp: free_run_def\<close>)
  then have sc: "region_scan ?b (unat n) 0 4096 = map_option Some (least_run (fs_bit sec s) (unat n))"
    using region_scan_eq[OF len assms(2,3), of 0 4096] assms(3) by (simp add: option.map_comp o_def option.map_ident)
  show ?thesis
    using r sc m b by (intro exI[of _ s1])
      (cases "least_run (fs_bit sec s) (unat n)", simp_all add: get_data_region_def)
qed

end

end
