(* ===== verification/FsPathLaws.thy ===== *)
theory FsPathLaws
  imports FsPath FsAlloc
begin

text \<open>
  What the path functions of \<open>FsPath\<close> compute: the words of a path are its components, the walk over
  them is a fold of lookups in the table, and \<open>path_resolve\<close> is the normal form of the component list.
\<close>

section \<open>Components\<close>

fun split_path :: "cstring \<Rightarrow> cstring list" where
  "split_path [] = [[]]"
| "split_path (c # p) = (if c = slash then [] # split_path p
     else (c # hd (split_path p)) # tl (split_path p))"

definition components :: "cstring \<Rightarrow> cstring list" where
  "components p = filter (\<lambda>w. w \<noteq> []) (split_path p)"

lemma split_path_nonempty [simp]: "split_path p \<noteq> []"
  by (cases p) auto

lemma hd_split_path: "hd (split_path p) = takeWhile (\<lambda>c. c \<noteq> slash) p"
  by (induction p) auto

lemma split_path_append_slash: "split_path (p @ slash # q) = split_path p @ split_path q"
  by (induction p) (auto simp: hd_append tl_append split: list.splits)

lemma components_Nil [simp]: "components [] = []"
  by (simp add: components_def)

lemma components_slash [simp]: "components (slash # p) = components p"
  by (simp add: components_def)

lemma components_append_slash [simp]: "components (p @ slash # q) = components p @ components q"
  by (simp add: components_def split_path_append_slash)

lemma components_ne: "w \<in> set (components p) \<Longrightarrow> w \<noteq> []"
  by (simp add: components_def)

lemma components_path_copy: "length path \<le> 1023 \<Longrightarrow> components (path_copy path) = components path"
proof -
  assume l: "length path \<le> 1023"
  show ?thesis
  proof (cases "1 < length path \<and> path ! (length path - 1) = slash")
    case True
    then have "path = take (length path - 1) path @ slash # []"
      using take_Suc_conv_app_nth[of "length path - 1" path] by (cases path rule: rev_cases) auto
    then have "components path = components (take (length path - 1) path)"
      using components_append_slash[of "take (length path - 1) path" "[]"] by simp
    with True l show ?thesis by (simp add: path_copy_def Let_def)
  next
    case False
    with l show ?thesis by (auto simp: path_copy_def Let_def)
  qed
qed

section \<open>Words\<close>

fun word_starts :: "bool \<Rightarrow> nat \<Rightarrow> bytes \<Rightarrow> nat list" where
  "word_starts nw i [] = []"
| "word_starts nw i (c # cs) =
     (if c = 0 then word_starts True (i + 1) cs
      else if nw then i # word_starts False (i + 1) cs else word_starts False (i + 1) cs)"

lemma path_words_eq:
  "i + n = length argv \<Longrightarrow> idx + length (word_starts nw i (drop i argv)) \<le> length argvs \<Longrightarrow>
     \<exists>argvs'. path_words argv i n argvs idx nw
        = Some (argvs', idx + length (word_starts nw i (drop i argv))) \<and> length argvs' = length argvs \<and>
       take (idx + length (word_starts nw i (drop i argv))) argvs'
        = take idx argvs @ word_starts nw i (drop i argv)"
proof (induction n arbitrary: i argvs idx nw)
  case 0
  then show ?case by simp
next
  case (Suc n)
  have d: "drop i argv = argv ! i # drop (i + 1) argv" using Suc.prems(1) by (simp add: Cons_nth_drop_Suc)
  have i: "i < length argv" using Suc.prems(1) by simp
  show ?case
  proof (cases "argv ! i \<noteq> 0 \<and> nw")
    case True
    let ?ws = "word_starts False (i + 1) (drop (i + 1) argv)"
    have l: "idx < length argvs" "idx + 1 + length ?ws \<le> length argvs"
      using Suc.prems(2) True by (simp_all add: d)
    obtain argvs' where a: "path_words argv (i + 1) n (argvs[idx := i]) (idx + 1) False
        = Some (argvs', idx + 1 + length ?ws)" "length argvs' = length argvs"
      "take (idx + 1 + length ?ws) argvs' = take (idx + 1) (argvs[idx := i]) @ ?ws"
      using Suc.IH[of "i + 1" "idx + 1" False "argvs[idx := i]"] Suc.prems(1) l by auto
    have "take (idx + 1) (argvs[idx := i]) = take idx argvs @ [i]"
      using l by (simp add: take_Suc_conv_app_nth)
    then show ?thesis using True a i l by (simp add: d)
  next
    case False
    then have w: "word_starts nw i (drop i argv) = word_starts (argv ! i = 0) (i + 1) (drop (i + 1) argv)"
      by (auto simp: d)
    then show ?thesis
      using Suc.IH[of "i + 1" idx "argv ! i = 0" argvs] Suc.prems False i
      by (cases "argv ! i = 0") (auto simp: d)
  qed
qed

lemma length_word_starts:
  "length (word_starts nw i (cs @ [0])) \<le> length (filter (\<lambda>c. c = 0) cs) + (if nw then 1 else 0)"
proof (induction cs arbitrary: nw i)
  case Nil
  then show ?case by simp
next
  case (Cons c cs)
  show ?case using Cons[of True "i + 1"] Cons[of False "i + 1"] by auto
qed

abbreviation unslash :: "cstring \<Rightarrow> bytes" where
  "unslash p \<equiv> map (\<lambda>c. if c = slash then 0 else c) p"

lemma cstr_of_unslash:
  "is_cstring p \<Longrightarrow> cstr_of (unslash p @ [0]) = takeWhile (\<lambda>c. c \<noteq> slash) p"
  by (induction p) (auto simp: cstr_of_def is_cstring_def)

lemma word_starts_components:
  "is_cstring rest \<Longrightarrow> argv = pre @ unslash rest @ [0] \<Longrightarrow>
     map (word_at argv) (word_starts nw (length pre) (unslash rest @ [0]))
       = (if nw then components rest else filter (\<lambda>w. w \<noteq> []) (tl (split_path rest)))"
proof (induction rest arbitrary: pre nw)
  case Nil
  then show ?case by simp
next
  case (Cons c rest)
  have c: "c \<noteq> 0" "is_cstring rest" using Cons.prems(1) by (auto simp: is_cstring_def)
  show ?case
  proof (cases "c = slash")
    case True
    then have "argv = (pre @ [0]) @ unslash rest @ [0]" using Cons.prems(2) by simp
    from Cons.IH[OF c(2) this, of True] show ?thesis using True by (simp add: components_def)
  next
    case False
    then have a: "argv = (pre @ [c]) @ unslash rest @ [0]" using Cons.prems(2) by simp
    have "word_at argv (length pre) = c # takeWhile (\<lambda>c. c \<noteq> slash) rest"
      using cstr_of_unslash[OF c(2)] c(1) False by (simp add: a word_at_def cstr_of_def)
    with Cons.IH[OF c(2) a, of False] False c show ?thesis by (simp add: components_def hd_split_path)
  qed
qed

lemma is_cstring_path_copy [simp]: "is_cstring path \<Longrightarrow> is_cstring (path_copy path)"
  by (simp add: path_copy_def Let_def)

lemma path_argvs_eq:
  assumes "is_cstring path"
  obtains argvs where "path_argvs path = Some (argvs, length (components path))"
    and "length argvs = path_argc path"
    and "map (word_at (path_argv path)) (take (length (components path)) argvs) = components path"
proof -
  let ?ws = "word_starts True 0 (path_argv path)"
  have comps: "map (word_at (path_argv path)) ?ws = components path"
    using word_starts_components[OF assms, of "path_argv path" "[]" True] by (simp add: path_argv_def)
  then have len: "length ?ws = length (components path)" by (metis length_map)
  have "filter (\<lambda>c. c = 0) (unslash path) = map (\<lambda>c. 0) (filter (\<lambda>c. c = slash) path)"
    using assms by (induction path) (auto simp: is_cstring_def)
  then have "length (filter (\<lambda>c. c = 0) (unslash path)) = length (filter (\<lambda>c. c = slash) path)" by simp
  then have b: "length ?ws \<le> path_argc path"
    using length_word_starts[of True 0 "unslash path"] by (simp add: path_argv_def path_argc_def)
  obtain argvs where "path_argvs path = Some (argvs, length ?ws)" "length argvs = path_argc path"
    "take (length ?ws) argvs = ?ws"
    using path_words_eq[of 0 "length (path_argv path)" "path_argv path" 0 True "replicate (path_argc path) 0"] b
    by (auto simp: path_argvs_def)
  then show thesis using that comps len by auto
qed

section \<open>Normal form\<close>

fun normalise :: "cstring list \<Rightarrow> cstring list \<Rightarrow> cstring list" where
  "normalise st [] = st"
| "normalise st (w # ws) =
     (if w = [dot] then normalise st ws
      else if w = [dot, dot] then normalise (butlast st) ws
      else normalise (st @ [w]) ws)"

fun join_words :: "cstring list \<Rightarrow> cstring" where
  "join_words [] = []"
| "join_words [w] = w"
| "join_words (w # ws) = w @ slash # join_words ws"

definition words_size :: "cstring list \<Rightarrow> nat" where
  "words_size ws = sum_list (map (\<lambda>w. length w + 1) ws)"

lemma words_size_simps [simp]:
  "words_size [] = 0" "words_size (w # ws) = length w + 1 + words_size ws"
  "words_size (us @ ws) = words_size us + words_size ws"
  by (simp_all add: words_size_def)

lemma words_size_split: "words_size (split_path p) = length p + 1"
proof (induction p)
  case (Cons c p)
  then show ?case by (cases "split_path p") auto
qed simp

lemma words_size_filter: "words_size (filter P ws) \<le> words_size ws"
  by (induction ws) auto

lemma words_size_components: "words_size (components p) \<le> length p + 1"
  using words_size_filter[of "\<lambda>w. w \<noteq> []" "split_path p"] by (simp add: components_def words_size_split)

lemma words_size_butlast: "words_size (butlast ws) \<le> words_size ws"
  by (cases ws rule: rev_cases) auto

lemma words_size_normalise: "words_size (normalise st ws) \<le> words_size st + words_size ws"
proof (induction st ws rule: normalise.induct)
  case (2 st w ws)
  then show ?case using words_size_butlast[of st] by auto
qed simp

lemma length_join_words: "length (join_words ws) \<le> words_size ws - 1"
  by (induction ws rule: join_words.induct) auto

lemma join_words_Cons: "ws \<noteq> [] \<Longrightarrow> join_words (w # ws) = w @ slash # join_words ws"
  by (cases ws) auto

lemma is_cstring_join: "(\<And>w. w \<in> set ws \<Longrightarrow> is_cstring w) \<Longrightarrow> is_cstring (join_words ws)"
  by (induction ws rule: join_words.induct) (auto simp: is_cstring_def)

lemma is_cstring_split: "is_cstring p \<Longrightarrow> w \<in> set (split_path p) \<Longrightarrow> is_cstring w"
proof (induction p arbitrary: w)
  case (Cons c p)
  then show ?case by (cases "split_path p") (auto simp: is_cstring_def split: if_splits)
qed (simp add: is_cstring_def)

lemma set_normalise: "set (normalise st ws) \<subseteq> set st \<union> (set ws - {[dot], [dot, dot]})"
proof (induction st ws rule: normalise.induct)
  case (2 st w ws)
  have "set (butlast st) \<subseteq> set st" by (auto dest: in_set_butlastD)
  with 2 show ?case by (cases "w = [dot]"; cases "w = [dot, dot]") auto
qed simp

lemma components_join:
  "(\<And>w. w \<in> set ws \<Longrightarrow> w \<noteq> [] \<and> slash \<notin> set w) \<Longrightarrow> components (join_words ws) = ws"
proof (induction ws rule: join_words.induct)
  case (2 w)
  have "split_path w = [w]" if "slash \<notin> set w" for w
    using that by (induction w) auto
  then show ?case using 2 by (simp add: components_def)
next
  case (3 w v vs)
  have "split_path w = [w]" if "slash \<notin> set w" for w
    using that by (induction w) auto
  then have "components w = [w]" using 3 by (simp add: components_def)
  then show ?case using 3 by simp
qed simp

lemma slash_split: "w \<in> set (split_path p) \<Longrightarrow> slash \<notin> set w"
proof (induction p arbitrary: w)
  case (Cons c p)
  then show ?case by (cases "split_path p") (auto split: if_splits)
qed simp

lemma normalise_clean: "(\<And>w. w \<in> set ws \<Longrightarrow> w \<noteq> [dot] \<and> w \<noteq> [dot, dot]) \<Longrightarrow> normalise st ws = st @ ws"
  by (induction ws arbitrary: st) auto

section \<open>\<open>path_resolve\<close>\<close>

lemma resolve_stack_eq:
  "stk = map (word_at argv) (take k c) \<Longrightarrow> k + length ps \<le> length c \<Longrightarrow>
     \<exists>c' k'. resolve_stack argv ps c k = Some (c', k') \<and>
       map (word_at argv) (take k' c') = normalise stk (map (word_at argv) ps)"
proof (induction ps arbitrary: c k stk)
  case Nil
  then show ?case by simp
next
  case (Cons p ps)
  consider "word_at argv p = [dot]" | "word_at argv p = [dot, dot]"
    | "word_at argv p \<noteq> [dot]" "word_at argv p \<noteq> [dot, dot]" by blast
  then show ?case
  proof cases
    case 1
    then show ?thesis using Cons by simp
  next
    case 2
    have "butlast stk = map (word_at argv) (take (if 0 < k then k - 1 else k) c)"
      using Cons.prems by (simp add: map_butlast[symmetric] butlast_take)
    with Cons.IH[OF this] show ?thesis using 2 Cons.prems(2) by (cases "k = 0") simp_all
  next
    case 3
    have "stk @ [word_at argv p] = map (word_at argv) (take (k + 1) (c[k := p]))"
      using Cons.prems by (simp add: take_Suc_conv_app_nth)
    then show ?thesis using 3 Cons.IH[of "stk @ [word_at argv p]" "k + 1" "c[k := p]"] Cons.prems by simp
  qed
qed

lemma resolve_out_eq:
  "j + length (join_words ws) \<le> length res \<Longrightarrow>
     resolve_out ws res j = Some (take j res @ join_words ws @ drop (j + length (join_words ws)) res,
       j + length (join_words ws))"
proof (induction ws arbitrary: res j)
  case Nil
  then show ?case by simp
next
  case (Cons w ws)
  show ?case
  proof (cases "ws = []")
    case True
    then show ?thesis using Cons.prems by (simp add: concat_copy_eq)
  next
    case False
    note jc = join_words_Cons[OF False, of w]
    let ?r = "(take j res @ w @ drop (j + length w) res)[j + length w := slash]"
    have l: "j + length w < length res" using Cons.prems jc by simp
    have r: "?r = take j res @ w @ slash # drop (j + length w + 1) res"
      using l by (simp add: list_update_append Cons_nth_drop_Suc[symmetric])
    have "take (j + length w + 1) ?r = take j res @ w @ [slash]" unfolding r using l by simp
    moreover have "drop (j + length w + 1 + length (join_words ws)) ?r
        = drop (j + length w + 1 + length (join_words ws)) res"
      unfolding r using l by (simp add: ac_simps)
    ultimately show ?thesis
      using Cons.IH[of "j + length w + 1" ?r] Cons.prems False jc l
      by (simp add: concat_copy_eq add.assoc)
  qed
qed

lemma path_resolve_eq:
  assumes "is_cstring path" "length path < 1023"
  shows "\<exists>b. path_resolve path s
    = Some (slash # join_words (normalise [] (components path)), s\<lparr>path_resolve_path_res := b\<rparr>)"
proof -
  let ?p = "path_copy path" and ?out = "join_words (normalise [] (components path))"
  have c: "components ?p = components path" using assms(2) by (simp add: components_path_copy)
  obtain argvs where a: "path_argvs ?p = Some (argvs, length (components path))"
    "length argvs = path_argc ?p"
    "map (word_at (path_argv ?p)) (take (length (components path)) argvs) = components path"
    using path_argvs_eq[of ?p] assms(1) c by auto
  have "length (components path) \<le> length argvs"
    using a(3) by (metis length_map length_take min.cobounded1)
  then obtain c' k' where r: "resolve_stack (path_argv ?p) (take (length (components path)) argvs) argvs 0 = Some (c', k')"
    "map (word_at (path_argv ?p)) (take k' c') = normalise [] (components path)"
    using resolve_stack_eq[of "[]" "path_argv ?p" 0 argvs "take (length (components path)) argvs"] a(3) by auto
  have "length ?out \<le> length path"
    using length_join_words[of "normalise [] (components path)"] words_size_normalise[of "[]" "components path"]
      words_size_components[of path] by simp
  then have l: "1 + length ?out < 1024" using assms(2) by simp
  have out: "resolve_out (normalise [] (components path)) (slash # replicate 1023 0) 1
      = Some (slash # ?out @ replicate (1023 - length ?out) 0, 1 + length ?out)"
    using resolve_out_eq[of 1 "normalise [] (components path)" "slash # replicate 1023 0"] l by simp
  have pk: "poke (replicate 1024 0) 0 slash = Some (slash # replicate 1023 (0 :: u8))"
  proof -
    have "replicate 1024 (0 :: u8) = 0 # replicate 1023 0" by (simp add: numeral_eq_Suc)
    then show ?thesis by (simp add: poke_def)
  qed
  let ?res = "(slash # ?out @ replicate (1023 - length ?out) 0)[1 + length ?out := 0]"
  have res: "?res = (slash # ?out) @ 0 # replicate (1022 - length ?out) 0"
  proof -
    have "1023 - length ?out = Suc (1022 - length ?out)" using l by simp
    then show ?thesis by (simp add: list_update_append)
  qed
  have "is_cstring (slash # ?out)"
  proof -
    have "is_cstring ?out"
      using set_normalise[of "[]" "components path"] is_cstring_split[OF assms(1)]
      by (intro is_cstring_join) (auto simp: components_def)
    then show ?thesis by (simp add: is_cstring_def)
  qed
  then have "cstr_of ?res = slash # ?out" unfolding res by (rule cstr_of_terminated)
  moreover have "poke (slash # ?out @ replicate (1023 - length ?out) 0) (1 + length ?out) 0 = Some ?res"
    using l by (simp add: poke_def)
  ultimately show ?thesis
    using a(1) r pk out by (intro exI[of _ ?res]) (simp add: path_resolve_def Let_def)
qed

section \<open>Lookups\<close>

text \<open>The id that \<open>name_and_parent_id_to_id\<close> finds in the table \<open>es\<close>, and the walk along a path.\<close>

definition lookup_name :: "fs_file_entry list \<Rightarrow> cstring \<Rightarrow> u64 \<Rightarrow> u64" where
  "lookup_name es w par =
     (case first_idx (\<lambda>e. fs_strcmp (e_name e) w 24 \<noteq> 0 \<and> e_parent_id e = par) es of
        None \<Rightarrow> fs_not_found | Some k \<Rightarrow> e_id (es ! k))"

definition walk_path :: "fs_file_entry list \<Rightarrow> cstring list \<Rightarrow> u64 \<Rightarrow> u64" where
  "walk_path es ws i = fold (lookup_name es) ws i"

definition start_id :: "cstring \<Rightarrow> u64 \<Rightarrow> u64" where
  "start_id path cur = (if rel_or_abs_path path = 1 then cur else 0)"

definition path_id :: "fs_file_entry list \<Rightarrow> cstring \<Rightarrow> u64 \<Rightarrow> u64" where
  "path_id es path cur =
     (if path = [dot] then cur else walk_path es (components path) (start_id path cur))"

lemma rel_or_abs_cases: "rel_or_abs_path path = 0 \<or> rel_or_abs_path path = 1"
  by (simp add: rel_or_abs_path_def)

lemma rel_or_abs_take: "0 < n \<Longrightarrow> rel_or_abs_path (take n path) = rel_or_abs_path path"
  by (simp add: rel_or_abs_path_def cat_def)

lemma rel_or_abs_path_copy: "rel_or_abs_path (path_copy path) = rel_or_abs_path path"
  by (simp add: path_copy_def Let_def rel_or_abs_take)

lemma dot_path: "is_cstring path \<Longrightarrow> cat path 0 = dot \<and> cat path 1 = 0 \<longleftrightarrow> path = [dot]"
  by (cases path; cases "tl path") (auto simp: is_cstring_def cat_def)

lemma last_slash_eq:
  "last_slash p = (if slash \<in> set p then int (length p - 1 - length (takeWhile (\<lambda>c. c \<noteq> slash) (rev p))) else -1)"
proof (induction p rule: rev_induct)
  case Nil
  then show ?case by (simp add: last_slash_def)
next
  case (snoc c p)
  have "fold (\<lambda>i iout. if (p @ [c]) ! i = slash then int i else iout) [0..<length p] (-1) = last_slash p"
    unfolding last_slash_def by (intro fold_cong) (auto simp: nth_append)
  then have "last_slash (p @ [c]) = (if c = slash then int (length p) else last_slash p)"
    by (simp add: last_slash_def)
  then show ?case using snoc by auto
qed

text \<open>A path with a slash is its part before the last slash, the slash, and a name.\<close>

lemma last_slash_split:
  assumes "slash \<in> set p"
  obtains d n where "p = d @ slash # n" "slash \<notin> set n" "last_slash p = int (length d)"
proof -
  obtain d n where p: "p = d @ slash # n" "slash \<notin> set n"
    using split_list_last[OF assms] by blast
  have "takeWhile (\<lambda>c. c \<noteq> slash) (rev n @ slash # rev d) = rev n"
    using p(2) by (subst takeWhile_append2) auto
  then have "last_slash p = int (length d)" by (simp add: last_slash_eq p)
  then show thesis using that p by blast
qed

lemma last_slash_none: "slash \<notin> set p \<Longrightarrow> last_slash p = -1"
  by (simp add: last_slash_eq)

lemma components_word: "slash \<notin> set n \<Longrightarrow> n \<noteq> [] \<Longrightarrow> components n = [n]"
  using components_join[of "[n]"] by simp

lemma strip_slashes_eq:
  assumes "length b = n"
  obtains k where "strip_slashes b n \<le> n" "b = take (strip_slashes b n) b @ replicate k slash"
    "0 < n \<Longrightarrow> 0 < strip_slashes b n"
    "1 < strip_slashes b n \<Longrightarrow> b ! (strip_slashes b n - 1) \<noteq> slash"
proof -
  have "strip_slashes b m \<le> m \<and> (\<exists>k. take m b = take (strip_slashes b m) b @ replicate k slash) \<and>
      (0 < m \<longrightarrow> 0 < strip_slashes b m) \<and>
      (1 < strip_slashes b m \<longrightarrow> b ! (strip_slashes b m - 1) \<noteq> slash)" if "m \<le> n" for m
    using that
  proof (induction m)
    case 0
    then show ?case by simp
  next
    case (Suc m)
    show ?case
    proof (cases "1 < Suc m \<and> b ! m = slash")
      case True
      obtain k where "take m b = take (strip_slashes b m) b @ replicate k slash" using Suc by auto
      then have "take (Suc m) b = take (strip_slashes b m) b @ replicate (Suc k) slash"
        using True Suc.prems assms by (simp add: take_Suc_conv_app_nth replicate_append_same)
      then have "\<exists>k. take (Suc m) b = take (strip_slashes b m) b @ replicate k slash" ..
      then show ?thesis using True Suc by auto
    next
      case False
      then show ?thesis by (auto intro: exI[of _ 0])
    qed
  qed
  from this[of n] assms that show thesis by auto
qed

lemma components_replicate: "components (p @ replicate k slash) = components p"
proof (induction k arbitrary: p)
  case (Suc k)
  have "p @ replicate (Suc k) slash = (p @ slash # []) @ replicate k slash" by simp
  also have "components \<dots> = components (p @ slash # [])" by (rule Suc)
  finally show ?case by simp
qed simp

context block_device
begin

lemma path_walk_effect:
  assumes "good s"
  shows "\<exists>s'. becomes (sec (dsk s)) s s' \<and> path_walk E ws i s = Some (walk_path (fs_table sec s) ws i, s')"
  using assms
proof (induction ws arbitrary: i s)
  case Nil
  then show ?case using good_bounds(1) by (auto simp: walk_path_def intro!: exI[of _ s] disk_becomes_refl)
next
  case (Cons w ws)
  obtain s1 where b: "becomes (sec (dsk s)) s s1"
    and 1: "name_and_parent_id_to_id E w i s = Some (lookup_name (fs_table sec s) w i, s1)"
    using name_lookup_effect[OF Cons.prems, of w i] by (auto simp: lookup_name_def)
  obtain s2 where b2: "becomes (sec (dsk s1)) s1 s2"
    and 2: "path_walk E ws (lookup_name (fs_table sec s) w i) s1
      = Some (walk_path (fs_table sec s1) ws (lookup_name (fs_table sec s) w i), s2)"
    using Cons.IH[OF disk_becomes_good[OF b Cons.prems]] by blast
  show ?case
    using 1 2 reads_same[OF b] reads_trans[OF b b2] by (intro exI[of _ s2]) (simp add: walk_path_def)
qed

lemma path_to_id_effect:
  assumes "good s" "is_cstring path" "length path \<le> 1023"
  obtains s' where "becomes (sec (dsk s)) s s'"
    and "path_to_id E path cur s = Some (path_id (fs_table sec s) path cur, s')"
proof (cases "path = [dot]")
  case True
  then show thesis using disk_becomes_refl[of ok s sec cap] good_bounds(1)[OF assms(1)] that[of s]
    by (simp add: path_to_id_def path_id_def)
next
  case False
  let ?p = "path_copy path"
  have c: "components ?p = components path" using components_path_copy[OF assms(3)] .
  obtain argvs where a: "path_argvs ?p = Some (argvs, length (components path))"
    "map (word_at (path_argv ?p)) (take (length (components path)) argvs) = components path"
    using path_argvs_eq[of ?p] assms(2) c by auto
  obtain s1 where b: "becomes (sec (dsk s)) s s1" and w: "path_walk E (components path) (start_id path cur) s
      = Some (walk_path (fs_table sec s) (components path) (start_id path cur), s1)"
    using path_walk_effect[OF assms(1)] by blast
  have nd: "\<not> (cat path 0 = dot \<and> cat path 1 = 0)" using dot_path[OF assms(2)] False by simp
  show thesis
  proof (cases "components path = []")
    case True
    then show thesis using a nd False disk_becomes_refl[of ok s sec cap] good_bounds(1)[OF assms(1)]
      by (intro that[of s])
        (auto simp: path_to_id_def path_id_def walk_path_def start_id_def rel_or_abs_path_copy)
  next
    case ne: False
    then show thesis using a w nd False
      by (intro that[OF b]) (auto simp: path_to_id_def path_id_def start_id_def rel_or_abs_path_copy)
  qed
qed

text \<open>The directory that \<open>fpath_to_path\<close> finds is where the walk ends before the last component.\<close>

lemma fpath_effect:
  assumes "good s" "is_cstring path" "length path \<le> 1023" "[dot] \<notin> set (components path)"
  obtains s' where "becomes (sec (dsk s)) s s'"
    and "fpath_to_path E path cur s
      = Some (walk_path (fs_table sec s) (butlast (components path)) (start_id path cur), s')"
proof -
  define b where "b = take (strip_slashes path (length path)) path"
  obtain k where k: "path = b @ replicate k slash" "0 < length path \<Longrightarrow> b \<noteq> []"
    "1 < length b \<Longrightarrow> last b \<noteq> slash"
  proof (rule strip_slashes_eq[OF refl, of path])
    fix k
    assume h: "strip_slashes path (length path) \<le> length path"
      "path = take (strip_slashes path (length path)) path @ replicate k slash"
      "0 < length path \<Longrightarrow> 0 < strip_slashes path (length path)"
      "1 < strip_slashes path (length path) \<Longrightarrow> path ! (strip_slashes path (length path) - 1) \<noteq> slash"
    have l: "length b = strip_slashes path (length path)" using h(1) by (simp add: b_def)
    have "last b \<noteq> slash" if "1 < length b"
    proof -
      have "last b = b ! (length b - 1)" using that by (intro last_conv_nth) auto
      also have "\<dots> = path ! (length b - 1)" using that l by (simp add: b_def)
      finally show ?thesis using h(4) that l by simp
    qed
    then show thesis using that[of k] h l by (auto simp: b_def)
  qed
  have comps: "components path = components b" unfolding k(1) by (rule components_replicate)
  have bl: "length b \<le> 1023" "is_cstring b" using assms(2,3) by (auto simp: b_def)
  have refl: "becomes (sec (dsk s)) s s" using disk_becomes_refl good_bounds(1)[OF assms(1)] by blast
  have f: "fpath_to_path E path cur s = (if last_slash b < 0 then Some (cur, s)
      else if last_slash b = 0 then Some (0, s) else path_to_id E (take (nat (last_slash b)) b) cur s)"
    using assms(3) by (simp add: fpath_to_path_def Let_def b_def)
  show thesis
  proof (cases "slash \<in> set b")
    case False
    have "hd path \<noteq> slash" if "path \<noteq> []"
      using that k(1,2) False by (cases b) auto
    then have "rel_or_abs_path path = 1"
      by (cases path) (auto simp: rel_or_abs_path_def)
    moreover have "butlast (components b) = []"
      using components_word[of b] False by (cases "b = []") auto
    ultimately show thesis
      using f False comps by (intro that[OF refl]) (simp add: last_slash_none walk_path_def start_id_def)
  next
    case True
    obtain d n where dn: "b = d @ slash # n" "slash \<notin> set n" "last_slash b = int (length d)"
      using last_slash_split[OF True] .
    have path: "path = d @ slash # n @ replicate k slash" using k(1) dn(1) by simp
    have bc: "butlast (components path) = components d \<and> (d = [] \<or> n \<noteq> [])"
    proof (cases "n = []")
      case n: True
      then have "d = []" using k(3) dn(1) by (cases d) auto
      then show ?thesis using comps dn n by simp
    next
      case False
      then show ?thesis using comps dn components_word[OF dn(2) False] by simp
    qed
    show thesis
    proof (cases "d = []")
      case d: True
      then have "rel_or_abs_path path = 0" using path by (simp add: rel_or_abs_path_def)
      then show thesis using f dn d bc
        by (intro that[OF refl]) (simp add: walk_path_def start_id_def)
    next
      case d: False
      have "rel_or_abs_path d = rel_or_abs_path path"
        using d path by (cases d) (auto simp: rel_or_abs_path_def)
      moreover have "d \<noteq> [dot]"
      proof
        assume "d = [dot]"
        then have "components path = [dot] # components (n @ replicate k slash)"
          using path components_append_slash[of d] components_word[of d] by simp
        then show False using assms(4) by simp
      qed
      moreover have "is_cstring d" "length d \<le> 1023" using bl dn(1) by auto
      ultimately show thesis
        using path_to_id_effect[OF assms(1), of d cur] f dn d bc that
        by (auto simp: path_id_def start_id_def)
    qed
  qed
qed

end

end
