(* ===== verification/FsIdPath.thy ===== *)
theory FsIdPath
  imports FsPathLaws
begin

text \<open>
  From an id back to a path: what \<open>id_to_path\<close> and \<open>path_to_abs\<close> write for an entry of the table, and
  why resolving an absolute path agrees with resolving the relative one it was made from.
\<close>

section \<open>Steps of the file system\<close>

text \<open>
  A step may change the text buffers, but no layout variable; sectors outside \<open>R\<close> keep their content.
\<close>

definition fs_step ::
  "('d \<Rightarrow> bool) \<Rightarrow> ('d \<Rightarrow> nat \<Rightarrow> bytes) \<Rightarrow> ('d \<Rightarrow> nat) \<Rightarrow> nat set \<Rightarrow> 'd fs \<Rightarrow> 'd fs \<Rightarrow> bool" where
  "fs_step ok sec cap R s s' \<longleftrightarrow> ok (dsk s') \<and> cap (dsk s') = cap (dsk s) \<and>
     (\<forall>i. i \<notin> R \<longrightarrow> sec (dsk s') i = sec (dsk s) i) \<and>
     start_table s' = start_table s \<and> start_storage s' = start_storage s \<and> sectors s' = sectors s \<and>
     fs_data_bitmap_size_sectors s' = fs_data_bitmap_size_sectors s \<and>
     length (name_buf s') = length (name_buf s)"

definition fs_idle :: "'d fs \<Rightarrow> bool" where
  "fs_idle s \<longleftrightarrow> id_to_path_point s = 0 \<and> \<not> id_to_path_first_one s \<and> length (name_buf s) = 24"

lemma fs_step_refl: "ok (dsk s) \<Longrightarrow> fs_step ok sec cap R s s"
  by (simp add: fs_step_def)

lemma fs_step_trans:
  "fs_step ok sec cap R s s1 \<Longrightarrow> fs_step ok sec cap Q s1 s2 \<Longrightarrow> fs_step ok sec cap (R \<union> Q) s s2"
  by (auto simp: fs_step_def)

lemma fs_step_mono: "fs_step ok sec cap R s s' \<Longrightarrow> R \<subseteq> Q \<Longrightarrow> fs_step ok sec cap Q s s'"
  by (auto simp: fs_step_def)

lemma fs_step_good: "fs_step ok sec cap R s s' \<Longrightarrow> fs_good ok cap s \<Longrightarrow> fs_good ok cap s'"
  by (auto simp: fs_step_def fs_good_def layout_ok_def)

lemma changes_step: "fs_changes ok sec cap R s s' \<Longrightarrow> fs_step ok sec cap R s s'"
  using fs_changes_vars[of ok sec cap R s s'] by (auto simp: fs_step_def fs_changes_def)

lemma changes_idle: "fs_changes ok sec cap R s s' \<Longrightarrow> fs_idle s' = fs_idle s"
  using fs_changes_vars[of ok sec cap R s s'] by (simp add: fs_idle_def)

lemma fs_step_vars:
  assumes "fs_step ok sec cap R s s'"
  shows "start_table s' = start_table s" "start_storage s' = start_storage s"
    "table_sectors s' = table_sectors s" "bitmap_sectors s' = bitmap_sectors s"
    "id_sector s' = id_sector s" "frame_bound s' = frame_bound s" "cap (dsk s') = cap (dsk s)"
    "sectors s' = sectors s" "length (name_buf s') = length (name_buf s)"
  using assms by (simp_all add: fs_step_def table_sectors_def bitmap_sectors_def id_sector_def frame_bound_def)

lemma fs_step_sec: "fs_step ok sec cap R s s' \<Longrightarrow> i \<notin> R \<Longrightarrow> sec (dsk s') i = sec (dsk s) i"
  by (simp add: fs_step_def)

lemma fs_step_table:
  "fs_step ok sec cap R s s' \<Longrightarrow> R \<inter> table_sectors s = {} \<Longrightarrow> fs_table sec s' = fs_table sec s"
  unfolding fs_table_def
  by (subst fs_step_vars(1), assumption, rule table_of_frame)
    (auto simp: table_sectors_def fs_step_def)

lemma fs_step_bit:
  "fs_step ok sec cap R s s' \<Longrightarrow> R \<inter> bitmap_sectors s = {} \<Longrightarrow> k < frame_bound s \<Longrightarrow>
     fs_bit sec s' k = fs_bit sec s k"
  unfolding fs_bit_def bitmap_bit_def frame_bound_def bitmap_sectors_def
  by (subst fs_step_sec[of ok sec cap R s s']) (auto simp: less_mult_imp_div_less mult.commute)

lemma fs_step_last_id:
  "fs_step ok sec cap R s s' \<Longrightarrow> R \<inter> id_sector s = {} \<Longrightarrow> fs_last_id sec s' = fs_last_id sec s"
  unfolding fs_last_id_def id_sector_def
  by (subst fs_step_vars(1), assumption, subst fs_step_sec[of ok sec cap R s s']) auto

text \<open>A step that writes nothing keeps every view of the disk.\<close>

lemma fs_step_same:
  assumes "fs_step ok sec cap {} s s'"
  shows "sec (dsk s') = sec (dsk s)" "fs_table sec s' = fs_table sec s" "fs_bit sec s' = fs_bit sec s"
    "fs_last_id sec s' = fs_last_id sec s"
proof -
  show s: "sec (dsk s') = sec (dsk s)" using assms by (auto simp: fs_step_def)
  show "fs_table sec s' = fs_table sec s" "fs_last_id sec s' = fs_last_id sec s"
    using s fs_step_vars(1)[OF assms] by (simp_all add: fs_table_def fs_last_id_def)
  show "fs_bit sec s' = fs_bit sec s" using s by (intro ext) (simp add: fs_bit_def)
qed

lemma becomes_step: "disk_becomes ok sec cap (sec (dsk s)) s s' \<Longrightarrow> fs_step ok sec cap {} s s'"
  by (rule changes_step, rule becomes_changes) auto

lemma becomes_idle: "disk_becomes ok sec cap f s s' \<Longrightarrow> fs_idle s' = fs_idle s"
  using disk_becomes_vars[of ok sec cap f s s'] by (simp add: fs_idle_def)

section \<open>The chain of ancestors\<close>

text \<open>The names from an entry up to the root, as the recursion of \<open>id_to_path\<close> meets them.\<close>

fun ancestry :: "fs_file_entry list \<Rightarrow> nat \<Rightarrow> u64 \<Rightarrow> cstring list option" where
  "ancestry es 0 i = None"
| "ancestry es (Suc n) i =
     (case first_idx (\<lambda>e. e_id e = i) es of
        None \<Rightarrow> Some []
      | Some k \<Rightarrow> if e_parent_id (es ! k) = 0 then Some [cstr_of (e_name (es ! k))]
                  else map_option ((#) (cstr_of (e_name (es ! k)))) (ancestry es n (e_parent_id (es ! k))))"

definition names_ok :: "fs_file_entry list \<Rightarrow> bool" where
  "names_ok es \<longleftrightarrow> (\<forall>e \<in> set es. length (e_name e) = 24 \<and> 0 \<in> set (e_name e))"

lemma names_ok_nth:
  "names_ok es \<Longrightarrow> k < length es \<Longrightarrow> cstrlen (e_name (es ! k)) = Some (length (cstr_of (e_name (es ! k)))) \<and>
     length (cstr_of (e_name (es ! k))) < 24"
  using cstrlen_bound[of "e_name (es ! k)"] by (auto simp: names_ok_def cstrlen_def)

lemma take_cstr: "take (length (cstr_of b)) b = cstr_of b"
  unfolding cstr_of_def by (metis takeWhile_eq_take)

lemma take_cstr_Suc: "0 \<in> set b \<Longrightarrow> take (length (cstr_of b) + 1) b = cstr_of b @ [0]"
proof -
  assume "0 \<in> set b"
  then have "length (cstr_of b) < length b" using cstrlen_bound[of b] by (simp add: cstrlen_def)
  moreover from this have "b ! length (cstr_of b) = 0"
    using nth_length_takeWhile[of "\<lambda>c. c \<noteq> 0" b] by (simp add: cstr_of_def)
  ultimately show ?thesis by (simp add: take_Suc_conv_app_nth take_cstr)
qed

definition row_is :: "bytes \<Rightarrow> cstring \<Rightarrow> bool" where
  "row_is row w \<longleftrightarrow> cstrlen row = Some (length w) \<and> take (length w) row = w"

lemma put_row_eq:
  assumes "p < length rows" "rows ! p = replicate 32 0" "is_cstring w" "length w < 24"
    and str: "str = w \<or> str = w @ [0]"
  obtains row where "put_row rows p str = Some (rows[p := row])" "row_is row w"
proof -
  have ri: "row_is (w @ replicate (32 - length w) 0) w"
  proof -
    have "replicate (32 - length w) (0 :: u8) = 0 # replicate (31 - length w) 0"
      using assms(4) by (cases "32 - length w") (auto simp: Suc_diff_Suc)
    then show ?thesis using assms(3) by (simp add: row_is_def)
  qed
  show thesis
  proof (cases "str = []")
    case True
    then have "w = []" using str by auto
    then have "put_row rows p str = Some (rows[p := w @ replicate (32 - length w) 0])"
      using True assms(1,2) list_update_id[of rows p] by (simp add: put_row_def)
    then show thesis using that ri by blast
  next
    case False
    have "concat_copy (replicate 32 0) 0 str = Some (w @ replicate (32 - length w) 0, length str)"
    proof -
      have "replicate (32 - length w) (0 :: u8) = 0 # replicate (31 - length w) 0"
        using assms(4) by (cases "32 - length w") (auto simp: Suc_diff_Suc)
      then show ?thesis using str assms(4) by (auto simp: concat_copy_eq)
    qed
    then have "put_row rows p str = Some (rows[p := w @ replicate (32 - length w) 0])"
      using False assms(1,2) by (simp add: put_row_def)
    then show thesis using that ri by blast
  qed
qed

lemma join_rows_eq:
  "i \<le> length rows \<Longrightarrow> i \<le> length ns \<Longrightarrow> (\<And>j. j < i \<Longrightarrow> row_is (rows ! j) (ns ! j)) \<Longrightarrow>
     join_rows rows i buf p = resolve_out (rev (take i ns)) buf p"
proof (induction i arbitrary: buf p)
  case 0
  then show ?case by simp
next
  case (Suc i)
  have r: "row_is (rows ! i) (ns ! i)" using Suc.prems(3)[of i] by simp
  have t: "rev (take (Suc i) ns) = ns ! i # rev (take i ns)"
    using Suc.prems(2) by (simp add: take_Suc_conv_app_nth)
  have e: "rev (take i ns) \<noteq> [] \<longleftrightarrow> Suc i \<noteq> 1" using Suc.prems(2) by auto
  have IH: "join_rows rows i = resolve_out (rev (take i ns))"
    using Suc.prems by (intro ext Suc.IH) auto
  show ?case
    using r Suc.prems(1) unfolding t join_rows.simps resolve_out.simps e IH by (simp add: row_is_def)
qed

text \<open>What \<open>path_to_abs\<close> puts before a relative path.\<close>

definition dir_prefix :: "cstring list \<Rightarrow> cstring" where
  "dir_prefix ns = (let b = slash # join_words (rev ns) in if last b = slash then b else b @ [slash])"

context block_device
begin

abbreviation step :: "nat set \<Rightarrow> 'd fs \<Rightarrow> 'd fs \<Rightarrow> bool" where
  "step \<equiv> fs_step ok sec cap"

text \<open>The inner calls of \<open>id_to_path\<close>, which only fill rows.\<close>

lemma id_to_path_inner:
  assumes "good s" "id_to_path_first_one s" "names_ok (fs_table sec s)"
    and "ancestry (fs_table sec s) n i = Some ns" "id_to_path_point s + length ns \<le> 512"
    and "length (id_to_path_path s) = 512"
    and "\<And>j. id_to_path_point s \<le> j \<Longrightarrow> j < 512 \<Longrightarrow> id_to_path_path s ! j = replicate 32 0"
  shows "\<exists>s'. id_to_path_fuel E n i buf s = Some (buf, s') \<and> step {} s s' \<and>
    name_buf s' = name_buf s \<and> id_to_path_point s' = id_to_path_point s + length ns \<and>
    length (id_to_path_path s') = 512 \<and>
    (\<forall>j < id_to_path_point s. id_to_path_path s' ! j = id_to_path_path s ! j) \<and>
    (\<forall>j < length ns. row_is (id_to_path_path s' ! (id_to_path_point s + j)) (ns ! j))"
  using assms
proof (induction n arbitrary: i ns s)
  case 0
  then show ?case by simp
next
  case (Suc n)
  let ?es = "fs_table sec s" and ?p = "id_to_path_point s" and ?rows = "id_to_path_path s"
  obtain s1 where b: "becomes (sec (dsk s)) s s1" and t: "search_table E (\<lambda>e. e_id e = i) s
    = Some (map_option (\<lambda>k. (k div 8, k mod 8, sec (dsk s) (unat (start_table s) + k div 8)))
        (first_idx (\<lambda>e. e_id e = i) ?es), s1)"
    by (rule search_table_eq[OF Suc.prems(1)])
  note v = disk_becomes_vars[OF b] and st = becomes_step[OF b] and same = reads_same[OF b]
  show ?case
  proof (cases "first_idx (\<lambda>e. e_id e = i) ?es")
    case None
    then have "ns = []" using Suc.prems(4) by simp
    then show ?thesis using None t Suc.prems(2,6) v st by (intro exI[of _ s1]) simp
  next
    case (Some k)
    then have k: "k < 1024" by (simp add: first_idx_Some)
    let ?e = "?es ! k"
    let ?w = "cstr_of (e_name ?e)"
    have e: "entry_at (sec (dsk s) (unat (start_table s) + k div 8)) (k mod 8) = ?e"
      using k by (simp add: nth_fs_table)
    have nm: "cstrlen (e_name ?e) = Some (length ?w)" "length ?w < 24" "0 \<in> set (e_name ?e)"
      using names_ok_nth[OF Suc.prems(3), of k] Suc.prems(3) k by (auto simp: names_ok_def)
    have p: "?p < length ?rows" "?rows ! ?p = replicate 32 0"
      using Suc.prems(4-7) Some by (auto split: if_splits)
    show ?thesis
    proof (cases "e_parent_id ?e = 0")
      case True
      then have ns: "ns = [?w]" using Suc.prems(4) Some by simp
      obtain row where r: "put_row ?rows ?p ?w = Some (?rows[?p := row])" "row_is row ?w"
        using put_row_eq[OF p is_cstring_cstr_of nm(2), of ?w] by auto
      let ?s' = "s1\<lparr>id_to_path_path := ?rows[?p := row], id_to_path_point := ?p + 1,
                    id_to_path_first_one := False\<rparr>"
      have "id_to_path_fuel E (Suc n) i buf s = Some (buf, ?s')"
        using t Some e True Suc.prems(2) nm(1) r(1) v by (simp add: take_cstr)
      moreover have "step {} s ?s'" using st by (simp add: fs_step_def)
      ultimately show ?thesis
        using r(2) p Suc.prems(6) v ns by (intro exI[of _ ?s']) simp
    next
      case False
      then obtain ms where ms: "ancestry ?es n (e_parent_id ?e) = Some ms" "ns = ?w # ms"
        using Suc.prems(4) Some by auto
      obtain row where r: "put_row ?rows ?p (take (length ?w + 1) (e_name ?e)) = Some (?rows[?p := row])"
          "row_is row ?w"
        using put_row_eq[OF p is_cstring_cstr_of nm(2), of "?w @ [0]"] take_cstr_Suc[OF nm(3)] by auto
      let ?s1 = "s1\<lparr>id_to_path_path := ?rows[?p := row], id_to_path_point := ?p + 1\<rparr>"
      have st1: "step {} s ?s1" using st by (simp add: fs_step_def)
      have tb: "fs_table sec ?s1 = ?es" using fs_step_same(2)[OF st1] .
      have "\<exists>s'. id_to_path_fuel E n (e_parent_id ?e) buf ?s1 = Some (buf, s') \<and> step {} ?s1 s' \<and>
        name_buf s' = name_buf ?s1 \<and> id_to_path_point s' = id_to_path_point ?s1 + length ms \<and>
        length (id_to_path_path s') = 512 \<and>
        (\<forall>j < id_to_path_point ?s1. id_to_path_path s' ! j = id_to_path_path ?s1 ! j) \<and>
        (\<forall>j < length ms. row_is (id_to_path_path s' ! (id_to_path_point ?s1 + j)) (ms ! j))"
      proof (rule Suc.IH)
        show "good ?s1" by (rule fs_step_good[OF st1 Suc.prems(1)])
        show "id_to_path_first_one ?s1" using Suc.prems(2) v by simp
        show "names_ok (fs_table sec ?s1)" "ancestry (fs_table sec ?s1) n (e_parent_id ?e) = Some ms"
          using tb Suc.prems(3) ms(1) by simp_all
        show "id_to_path_point ?s1 + length ms \<le> 512" "length (id_to_path_path ?s1) = 512"
          using Suc.prems(5,6) ms(2) by simp_all
        show "\<And>j. id_to_path_point ?s1 \<le> j \<Longrightarrow> j < 512 \<Longrightarrow> id_to_path_path ?s1 ! j = replicate 32 0"
          using Suc.prems(7) by simp
      qed
      then obtain s' where s': "id_to_path_fuel E n (e_parent_id ?e) buf ?s1 = Some (buf, s')" "step {} ?s1 s'"
        "name_buf s' = name_buf ?s1" "id_to_path_point s' = id_to_path_point ?s1 + length ms"
        "length (id_to_path_path s') = 512"
        "\<And>j. j < id_to_path_point ?s1 \<Longrightarrow> id_to_path_path s' ! j = id_to_path_path ?s1 ! j"
        "\<And>j. j < length ms \<Longrightarrow> row_is (id_to_path_path s' ! (id_to_path_point ?s1 + j)) (ms ! j)"
        by blast
      have "id_to_path_fuel E (Suc n) i buf s = Some (buf, s')"
        using t Some e False Suc.prems(2) nm(1) r(1) v s'(1) by simp
      moreover have "step {} s s'" using fs_step_trans[OF st1 s'(2)] by simp
      moreover have "row_is (id_to_path_path s' ! (?p + j)) (ns ! j)" if "j < length ns" for j
        using that s'(6)[of ?p] s'(7)[of "j - 1"] r(2) p(1) ms(2) by (cases j) auto
      moreover have "id_to_path_path s' ! j = ?rows ! j" if "j < ?p" for j
        using that s'(6)[of j] by simp
      ultimately show ?thesis using s'(3-5) ms(2) v by (intro exI[of _ s']) simp
    qed
  qed
qed

lemma id_to_path_outer:
  assumes "\<not> id_to_path_first_one s"
  shows "id_to_path_fuel E (Suc n) i buf s = do {
    (buf, s) \<leftarrow> id_to_path_fuel E (Suc n) i buf
       (s\<lparr>id_to_path_first_one := True, id_to_path_path := replicate 512 (replicate 32 0)\<rparr>);
    let s = s\<lparr>id_to_path_first_one := False\<rparr>;
    buf \<leftarrow> poke buf 0 slash;
    (buf, h) \<leftarrow> join_rows (id_to_path_path s) (id_to_path_point s) buf 1;
    buf \<leftarrow> poke buf h 0;
    Some (buf, s\<lparr>id_to_path_point := 0\<rparr>) }"
  using assms by (simp add: Let_def) (rule Option.bind_cong[OF refl], simp split: prod.splits option.splits)

lemma id_to_path_effect:
  assumes "good s" "fs_idle s" "names_ok (fs_table sec s)"
    and "ancestry (fs_table sec s) id_to_path_depth i = Some ns" "length ns \<le> 512"
    and "length buf = 1024" "length (join_words (rev ns)) < 1023"
  obtains s' r where "id_to_path E i buf s = Some (slash # join_words (rev ns) @ 0 # r, s')"
    and "step {} s s'" and "fs_idle s'" and "length r = 1022 - length (join_words (rev ns))"
proof -
  let ?s = "s\<lparr>id_to_path_first_one := True, id_to_path_path := replicate 512 (replicate 32 0)\<rparr>"
  let ?out = "join_words (rev ns)"
  have st: "step {} s ?s" using good_bounds(1)[OF assms(1)] by (simp add: fs_step_def)
  have idle: "id_to_path_point s = 0" "\<not> id_to_path_first_one s" "length (name_buf s) = 24"
    using assms(2) by (simp_all add: fs_idle_def)
  obtain s1 where s1: "id_to_path_fuel E id_to_path_depth i buf ?s = Some (buf, s1)" "step {} ?s s1"
    "name_buf s1 = name_buf ?s" "id_to_path_point s1 = length ns" "length (id_to_path_path s1) = 512"
    "\<And>j. j < length ns \<Longrightarrow> row_is (id_to_path_path s1 ! j) (ns ! j)"
    using id_to_path_inner[of ?s id_to_path_depth i ns buf] fs_step_good[OF st assms(1)]
      fs_step_same(2)[OF st] assms(3-5) idle by auto
  have pk: "poke buf 0 slash = Some (slash # tl buf)"
    using assms(6) by (cases buf) (simp_all add: poke_def)
  have "join_rows (id_to_path_path s1) (length ns) (slash # tl buf) 1
      = resolve_out (rev (take (length ns) ns)) (slash # tl buf) 1"
    using s1(5,6) assms(5) by (intro join_rows_eq) auto
  also have "\<dots> = Some (slash # ?out @ drop (length ?out) (tl buf), 1 + length ?out)"
    using resolve_out_eq[of 1 "rev ns" "slash # tl buf"] assms(6,7) by simp
  finally have j: "join_rows (id_to_path_path s1) (length ns) (slash # tl buf) 1
      = Some (slash # ?out @ drop (length ?out) (tl buf), 1 + length ?out)" .
  let ?r = "drop (Suc (length ?out)) (tl buf)"
  have "drop (length ?out) (tl buf) = (tl buf ! length ?out) # ?r"
    using assms(6,7) by (simp add: Cons_nth_drop_Suc)
  then have w: "poke (slash # ?out @ drop (length ?out) (tl buf)) (1 + length ?out) 0
      = Some (slash # ?out @ 0 # ?r)"
    using assms(6,7) by (simp add: poke_def list_update_append)
  have d: "id_to_path_depth = Suc 512" by (simp add: id_to_path_depth_def)
  let ?s' = "s1\<lparr>id_to_path_first_one := False, id_to_path_point := 0\<rparr>"
  have "id_to_path E i buf s = Some (slash # ?out @ 0 # ?r, ?s')"
    using s1(1,4) pk j w unfolding id_to_path_def d id_to_path_outer[OF idle(2)]
    by (simp del: id_to_path_fuel.simps)
  moreover have "step {} s ?s'" using fs_step_trans[OF st s1(2)] by (simp add: fs_step_def)
  moreover have "fs_idle ?s'" using s1(3) idle by (simp add: fs_idle_def)
  moreover have "length ?r = 1022 - length ?out" using assms(6) by simp
  ultimately show thesis using that by blast
qed

lemma path_to_abs_absolute:
  assumes "good s" "rel_or_abs_path path = 0" "fs_idle s"
  obtains s' where "path_to_abs E path cur s = Some (path, s')" and "step {} s s'" and "fs_idle s'"
proof -
  let ?s = "s\<lparr>path_to_abs_path_res := replicate 1024 0\<rparr>"
  have "step {} s ?s" using good_bounds(1)[OF assms(1)] by (simp add: fs_step_def)
  then show thesis using assms that[of ?s] by (simp add: path_to_abs_def fs_idle_def)
qed

lemma path_to_abs_relative:
  assumes "good s" "fs_idle s" "names_ok (fs_table sec s)" "rel_or_abs_path path = 1"
    and "ancestry (fs_table sec s) id_to_path_depth cur = Some ns" "length ns \<le> 512"
    and "is_cstring path" "length (dir_prefix ns @ path) \<le> 1023" "\<forall>w \<in> set ns. is_cstring w"
  obtains s' where "path_to_abs E path cur s = Some (dir_prefix ns @ path, s')"
    and "step {} s s'" and "fs_idle s'"
proof -
  let ?s = "s\<lparr>path_to_abs_path_res := replicate 1024 0\<rparr>" and ?out = "join_words (rev ns)"
  have st: "step {} s ?s" using good_bounds(1)[OF assms(1)] by (simp add: fs_step_def)
  have lo: "length ?out < 1023"
    using assms(8) by (auto simp: dir_prefix_def Let_def split: if_splits)
  obtain s1 r where i: "id_to_path E cur (replicate 1024 0) ?s = Some (slash # ?out @ 0 # r, s1)"
    and st1: "step {} ?s s1" and id1: "fs_idle s1" and lr: "length r = 1022 - length ?out"
    by (rule id_to_path_effect[of ?s cur ns "replicate 1024 0"])
      (use fs_step_good[OF st assms(1)] fs_step_same(2)[OF st] assms lo in \<open>auto simp: fs_idle_def\<close>)
  have cs: "is_cstring (slash # ?out)"
    using is_cstring_join[of "rev ns"] assms(9) by (simp add: is_cstring_def)
  have n: "cstrlen (slash # ?out @ 0 # r) = Some (1 + length ?out)"
    using cstrlen_terminated[OF cs, of r] by simp
  obtain res where res: "res = (if last (slash # ?out) = slash then slash # ?out @ 0 # r
      else slash # ?out @ slash # r)" by blast
  have p1: "(if 1 + length ?out = 0 \<or> (slash # ?out @ 0 # r) ! (1 + length ?out - 1) \<noteq> slash
      then do { res \<leftarrow> poke (slash # ?out @ 0 # r) (1 + length ?out) slash; Some (res, 1 + length ?out + 1) }
      else Some (slash # ?out @ 0 # r, 1 + length ?out)) = Some (res, length (dir_prefix ns))"
  proof -
    have "(slash # ?out @ 0 # r) ! (1 + length ?out - 1) = last (slash # ?out)"
      by (cases ?out rule: rev_cases) (auto simp: nth_append)
    then show ?thesis by (simp add: res poke_def dir_prefix_def Let_def list_update_append)
  qed
  have lres: "length res = 1024" "take (length (dir_prefix ns)) res = dir_prefix ns"
    using lr lo by (auto simp: res dir_prefix_def Let_def)
  have c: "concat_copy res (length (dir_prefix ns)) (take (1023 - length (dir_prefix ns)) path)
      = Some (dir_prefix ns @ path @ drop (length (dir_prefix ns) + length path) res,
              length (dir_prefix ns) + length path)"
    using concat_copy_eq[of "length (dir_prefix ns)" path res] assms(8) lres by simp
  let ?n = "length (dir_prefix ns) + length path"
  let ?r = "drop (Suc ?n) res"
  have f: "poke (dir_prefix ns @ path @ drop ?n res) ?n 0 = Some ((dir_prefix ns @ path) @ 0 # ?r)"
  proof -
    have "drop ?n res = res ! ?n # ?r" using lres(1) assms(8) by (simp add: Cons_nth_drop_Suc)
    then show ?thesis by (simp add: poke_def list_update_append)
  qed
  have "is_cstring (dir_prefix ns)" using cs by (simp add: dir_prefix_def Let_def is_cstring_def)
  then have k: "cstr_of ((dir_prefix ns @ path) @ 0 # ?r) = dir_prefix ns @ path"
    using assms(7) by (intro cstr_of_terminated) simp
  let ?s' = "s1\<lparr>path_to_abs_path_res := (dir_prefix ns @ path) @ 0 # ?r\<rparr>"
  have "path_to_abs E path cur s = Some (dir_prefix ns @ path, ?s')"
    using assms(4) i n p1 c f k by (simp add: path_to_abs_def Let_def del: One_nat_def)
  moreover have "step {} s ?s'" using fs_step_trans[OF st st1] by (simp add: fs_step_def)
  moreover have "fs_idle ?s'" using id1 by (simp add: fs_idle_def)
  ultimately show thesis using that by blast
qed

end

end
