(* ===== verification/FsTree.thy ===== *)
theory FsTree
  imports FsIdPath
begin

text \<open>
  The directory tree that the table stands for: the well-formedness of a table, how lookups and
  ancestries behave on a well-formed one, and that it is kept by adding and removing entries.
\<close>

section \<open>Well-formed tables\<close>

abbreviation ename :: "fs_file_entry \<Rightarrow> cstring" where
  "ename e \<equiv> cstr_of (e_name e)"

definition used :: "fs_file_entry \<Rightarrow> bool" where
  "used e \<longleftrightarrow> e_id e \<noteq> 0"

definition good_name :: "cstring \<Rightarrow> bool" where
  "good_name w \<longleftrightarrow> w \<noteq> [] \<and> slash \<notin> set w \<and> w \<noteq> [dot] \<and> w \<noteq> [dot, dot]"

definition is_dir_id :: "fs_file_entry list \<Rightarrow> u64 \<Rightarrow> bool" where
  "is_dir_id es d \<longleftrightarrow> d = 0 \<or> (\<exists>e \<in> set es. used e \<and> e_id e = d \<and> e_type e = 3)"

definition entries_ok :: "fs_file_entry list \<Rightarrow> bool" where
  "entries_ok es \<longleftrightarrow> (\<forall>e \<in> set es. if used e
     then e_id e \<noteq> fs_not_found \<and> good_name (ename e) \<and> is_dir_id es (e_parent_id e)
     else ename e = [] \<and> e_parent_id e = 0)"

definition distinct_entries :: "fs_file_entry list \<Rightarrow> bool" where
  "distinct_entries es \<longleftrightarrow> (\<forall>j < length es. \<forall>k < length es. used (es ! j) \<longrightarrow> used (es ! k) \<longrightarrow> j \<noteq> k \<longrightarrow>
     e_id (es ! j) \<noteq> e_id (es ! k) \<and>
     \<not> (e_parent_id (es ! j) = e_parent_id (es ! k) \<and> ename (es ! j) = ename (es ! k)))"

definition tree_ok :: "fs_file_entry list \<Rightarrow> bool" where
  "tree_ok es \<longleftrightarrow> names_ok es \<and> entries_ok es \<and> distinct_entries es"

lemma tree_ok_entry:
  assumes "tree_ok es" "e \<in> set es"
  shows "if used e then e_id e \<noteq> fs_not_found \<and> good_name (ename e) \<and> is_dir_id es (e_parent_id e)
     else ename e = [] \<and> e_parent_id e = 0"
  using assms unfolding tree_ok_def entries_ok_def by blast

lemma tree_ok_used:
  assumes "tree_ok es" "e \<in> set es" "used e"
  shows "e_id e \<noteq> fs_not_found" "e_id e \<noteq> 0" "good_name (ename e)" "is_dir_id es (e_parent_id e)"
    "length (ename e) < 24"
proof -
  show "e_id e \<noteq> fs_not_found" "good_name (ename e)" "is_dir_id es (e_parent_id e)"
    using tree_ok_entry[OF assms(1,2)] assms(3) by simp_all
  show "e_id e \<noteq> 0" using assms by (simp add: used_def)
  obtain k where "k < length es" "es ! k = e" using assms(2) by (auto simp: in_set_conv_nth)
  then show "length (ename e) < 24" using names_ok_nth[of es k] assms(1) by (auto simp: tree_ok_def)
qed

lemma tree_ok_free:
  "tree_ok es \<Longrightarrow> e \<in> set es \<Longrightarrow> \<not> used e \<Longrightarrow> ename e = [] \<and> e_parent_id e = 0"
  using tree_ok_entry[of es e] by simp

lemma first_idx_unique:
  "k < length xs \<Longrightarrow> p (xs ! k) \<Longrightarrow> (\<And>j. j < length xs \<Longrightarrow> p (xs ! j) \<Longrightarrow> j = k) \<Longrightarrow> first_idx p xs = Some k"
  unfolding first_idx_Some by (metis less_irrefl less_trans)

section \<open>Lookups\<close>

text \<open>\<open>fs_strcmp\<close> over the 24 bytes of a terminated name is equality of names.\<close>

lemma name_match:
  assumes "length (ename e) < 24" "is_cstring w"
  shows "fs_strcmp (e_name e) w 24 \<noteq> 0 \<longleftrightarrow> ename e = w"
proof -
  have "fs_strcmp (e_name e) w 24 = fs_strcmp (ename e) w 24"
    using fs_strcmp_cstr_of[of "e_name e" w 24] fs_strcmp_cstr_of[of "ename e" w 24]
    by (simp add: cstr_of_id)
  also have "\<dots> = (if ename e = w \<and> length (ename e) < 24 then 2
      else if take 24 (ename e) = take 24 w then 1 else 0)"
    using assms(2) by (intro fs_strcmp_result) simp
  moreover have "take 24 (ename e) \<noteq> take 24 w" if "ename e \<noteq> w"
  proof
    assume "take 24 (ename e) = take 24 w"
    then have "ename e = take 24 w" using assms(1) by simp
    then show False using that assms(1) by (cases "length w < 24") auto
  qed
  ultimately show ?thesis using assms(1) by auto
qed

lemma lookup_name_eq:
  assumes "tree_ok es" "is_cstring w" "w \<noteq> []"
  shows "lookup_name es w par =
    (case first_idx (\<lambda>e. used e \<and> ename e = w \<and> e_parent_id e = par) es of
       None \<Rightarrow> fs_not_found | Some k \<Rightarrow> e_id (es ! k))"
proof -
  have "first_idx (\<lambda>e. fs_strcmp (e_name e) w 24 \<noteq> 0 \<and> e_parent_id e = par) es
      = first_idx (\<lambda>e. used e \<and> ename e = w \<and> e_parent_id e = par) es"
  proof (rule first_idx_cong)
    fix e assume e: "e \<in> set es"
    then have "length (ename e) < 24"
      using names_ok_nth[of es] assms(1) by (auto simp: tree_ok_def in_set_conv_nth)
    then show "(fs_strcmp (e_name e) w 24 \<noteq> 0 \<and> e_parent_id e = par)
        = (used e \<and> ename e = w \<and> e_parent_id e = par)"
      using name_match[OF _ assms(2), of e] tree_ok_free[OF assms(1) e] assms(3) by auto
  qed
  then show ?thesis by (simp add: lookup_name_def)
qed

lemma lookup_used:
  assumes "tree_ok es" "k < length es" "used (es ! k)"
  shows "lookup_name es (ename (es ! k)) (e_parent_id (es ! k)) = e_id (es ! k)"
proof -
  have "first_idx (\<lambda>e. used e \<and> ename e = ename (es ! k) \<and> e_parent_id e = e_parent_id (es ! k)) es = Some k"
    using assms by (intro first_idx_unique) (auto simp: tree_ok_def distinct_entries_def)
  then show ?thesis
    using lookup_name_eq[OF assms(1), of "ename (es ! k)" "e_parent_id (es ! k)"]
      tree_ok_used(3)[OF assms(1) nth_mem[OF assms(2)] assms(3)]
    by (simp add: good_name_def)
qed

text \<open>The id that a lookup returns belongs to an entry with that name and parent, or is -1.\<close>

lemma lookup_cases:
  assumes "tree_ok es" "is_cstring w" "w \<noteq> []"
  obtains "lookup_name es w par = fs_not_found"
      "\<And>e. e \<in> set es \<Longrightarrow> used e \<Longrightarrow> \<not> (ename e = w \<and> e_parent_id e = par)"
    | k where "k < length es" "used (es ! k)" "ename (es ! k) = w" "e_parent_id (es ! k) = par"
      "lookup_name es w par = e_id (es ! k)"
proof (cases "first_idx (\<lambda>e. used e \<and> ename e = w \<and> e_parent_id e = par) es")
  case None
  then have "\<not> (ename e = w \<and> e_parent_id e = par)" if "e \<in> set es" "used e" for e
    using that by (auto simp: first_idx_None)
  moreover have "lookup_name es w par = fs_not_found"
    using None lookup_name_eq[OF assms, of par] by simp
  ultimately show thesis using that(1) by blast
next
  case (Some k)
  then have "lookup_name es w par = e_id (es ! k)" using lookup_name_eq[OF assms, of par] by simp
  moreover have "k < length es" "used (es ! k)" "ename (es ! k) = w" "e_parent_id (es ! k) = par"
    using Some by (auto simp: first_idx_Some)
  ultimately show thesis using that(2) by blast
qed

section \<open>Ancestries\<close>

lemma ancestry_names:
  assumes "tree_ok es" "ancestry es n i = Some ns" "i \<noteq> 0" "w \<in> set ns"
  shows "good_name w" "is_cstring w"
proof -
  have "good_name w \<and> is_cstring w" using assms(2-4)
  proof (induction n arbitrary: i ns)
    case 0
    then show ?case by simp
  next
    case (Suc n)
    show ?case
    proof (cases "first_idx (\<lambda>e. e_id e = i) es")
      case None
      then show ?thesis using Suc.prems by simp
    next
      case (Some k)
      then have k: "k < length es" "e_id (es ! k) = i" by (auto simp: first_idx_Some)
      then have u: "used (es ! k)" using Suc.prems(2) by (simp add: used_def)
      have g: "good_name (ename (es ! k))" using tree_ok_used(3)[OF assms(1) nth_mem[OF k(1)] u] .
      show ?thesis
        using Suc.prems Suc.IH[of "e_parent_id (es ! k)"] g Some by (auto split: if_splits)
    qed
  qed
  then show "good_name w" "is_cstring w" by auto
qed

text \<open>Walking down the ancestry of an entry leads back to it.\<close>

lemma walk_ancestry:
  assumes "tree_ok es" "ancestry es n i = Some ns" "\<exists>e \<in> set es. used e \<and> e_id e = i"
  shows "walk_path es (rev ns) 0 = i"
  using assms(2,3)
proof (induction n arbitrary: i ns)
  case 0
  then show ?case by simp
next
  case (Suc n)
  obtain k where k: "first_idx (\<lambda>e. e_id e = i) es = Some k"
    using Suc.prems(2) by (cases "first_idx (\<lambda>e. e_id e = i) es") (auto simp: first_idx_None)
  then have kl: "k < length es" "e_id (es ! k) = i" by (auto simp: first_idx_Some)
  then have u: "used (es ! k)" using Suc.prems(2) by (auto simp: used_def)
  have lk: "lookup_name es (ename (es ! k)) (e_parent_id (es ! k)) = i"
    using lookup_used[OF assms(1) kl(1) u] kl(2) by simp
  show ?case
  proof (cases "e_parent_id (es ! k) = 0")
    case True
    then show ?thesis using Suc.prems(1) k lk by (auto simp: walk_path_def)
  next
    case False
    then obtain ms where ms: "ancestry es n (e_parent_id (es ! k)) = Some ms" "ns = ename (es ! k) # ms"
      using Suc.prems(1) k by auto
    have "\<exists>e \<in> set es. used e \<and> e_id e = e_parent_id (es ! k)"
      using tree_ok_used(4)[OF assms(1) nth_mem[OF kl(1)] u] False by (auto simp: is_dir_id_def)
    from Suc.IH[OF ms(1) this] show ?thesis using ms(2) lk by (simp add: walk_path_def)
  qed
qed

lemma ancestry_root:
  assumes "tree_ok es" "ancestry es n 0 = Some ns"
  shows "ns = [] \<or> ns = [[]]"
proof (cases n)
  case 0
  then show ?thesis using assms(2) by simp
next
  case (Suc m)
  show ?thesis
  proof (cases "first_idx (\<lambda>e. e_id e = 0) es")
    case None
    then show ?thesis using assms(2) Suc by simp
  next
    case (Some k)
    then have "es ! k \<in> set es" "\<not> used (es ! k)" by (auto simp: first_idx_Some used_def)
    then show ?thesis using assms(2) Suc Some tree_ok_free[OF assms(1)] by auto
  qed
qed

lemma components_dir_prefix:
  assumes "\<And>w. w \<in> set ns \<Longrightarrow> good_name w"
  shows "components (dir_prefix ns @ path) = rev ns @ components path"
proof -
  have c: "components (slash # join_words (rev ns)) = rev ns"
    using components_join[of "rev ns"] assms by (auto simp: good_name_def)
  show ?thesis
  proof (cases "last (slash # join_words (rev ns)) = slash")
    case True
    then obtain p where p: "slash # join_words (rev ns) = p @ [slash]"
      by (metis append_butlast_last_id list.distinct(1))
    then have "components (dir_prefix ns @ path) = components (p @ slash # path)"
      using True by (simp add: dir_prefix_def Let_def)
    also have "\<dots> = components (p @ slash # []) @ components path" by simp
    finally show ?thesis using c p by simp
  next
    case False
    then have "components (dir_prefix ns @ path) = components ((slash # join_words (rev ns)) @ slash # path)"
      by (simp add: dir_prefix_def Let_def)
    then show ?thesis using c by (simp only: components_append_slash)
  qed
qed

lemma dir_prefix_absolute: "rel_or_abs_path (dir_prefix ns @ path) = 0"
  by (auto simp: rel_or_abs_path_def dir_prefix_def Let_def cat_def)

lemma dir_prefix_not_dot: "dir_prefix ns @ path \<noteq> [dot]"
  by (auto simp: dir_prefix_def Let_def)

lemma dir_prefix_root: "dir_prefix [] = [slash]" "dir_prefix [[]] = [slash]"
  by (simp_all add: dir_prefix_def)

text \<open>
  Resolving a relative path from directory \<open>cur\<close>, and resolving the absolute path that \<open>path_to_abs\<close>
  makes from it, give the same id; likewise for the directory part.
\<close>

lemma abs_walk:
  assumes "tree_ok es" "ancestry es n cur = Some ns" "cur = 0 \<or> (\<exists>e \<in> set es. used e \<and> e_id e = cur)"
  shows "path_id es (dir_prefix ns @ path) i = walk_path es (components path) cur"
    and "components path \<noteq> [] \<Longrightarrow> walk_path es (butlast (components (dir_prefix ns @ path))) 0
      = walk_path es (butlast (components path)) cur"
proof -
  have "components (dir_prefix ns @ path) = (if cur = 0 then [] else rev ns) @ components path \<and>
      walk_path es (if cur = 0 then [] else rev ns) 0 = cur"
  proof (cases "cur = 0")
    case True
    then have "dir_prefix ns = [slash]" using ancestry_root[OF assms(1)] assms(2) dir_prefix_root by auto
    then show ?thesis using True by (simp add: walk_path_def)
  next
    case False
    then show ?thesis
      using components_dir_prefix[of ns path] ancestry_names(1)[OF assms(1,2)]
        walk_ancestry[OF assms(1,2)] assms(3) by auto
  qed
  then show "path_id es (dir_prefix ns @ path) i = walk_path es (components path) cur"
    and "components path \<noteq> [] \<Longrightarrow> walk_path es (butlast (components (dir_prefix ns @ path))) 0
      = walk_path es (butlast (components path)) cur"
    by (simp_all add: path_id_def start_id_def dir_prefix_absolute dir_prefix_not_dot walk_path_def butlast_append)
qed

section \<open>Adding and removing entries\<close>

lemma is_dir_id_upd:
  assumes "k < length es" "\<not> used (es ! k)"
  shows "is_dir_id es d \<Longrightarrow> is_dir_id (es[k := e]) d"
proof -
  assume d: "is_dir_id es d"
  show ?thesis
  proof (cases "d = 0")
    case True
    then show ?thesis by (simp add: is_dir_id_def)
  next
    case False
    then obtain e' where e': "e' \<in> set es" "used e'" "e_id e' = d" "e_type e' = 3"
      using d by (auto simp: is_dir_id_def)
    then obtain j where "j < length es" "es ! j = e'" by (auto simp: in_set_conv_nth)
    then have "j \<noteq> k" using e'(2) assms(2) by auto
    then have "(es[k := e]) ! j = e'" "j < length (es[k := e])"
      using \<open>j < length es\<close> \<open>es ! j = e'\<close> by simp_all
    then have "e' \<in> set (es[k := e])" by (metis nth_mem)
    then show ?thesis using e' by (auto simp: is_dir_id_def)
  qed
qed

lemma set_update_cases: "x \<in> set (es[k := e]) \<Longrightarrow> x = e \<or> x \<in> set es"
  using set_update_subset_insert[of es k e] by auto

lemma names_ok_upd:
  "names_ok es \<Longrightarrow> length (e_name e) = 24 \<Longrightarrow> 0 \<in> set (e_name e) \<Longrightarrow> names_ok (es[k := e])"
  unfolding names_ok_def using set_update_subset_insert[of es k e] by blast

lemma tree_ok_add:
  assumes t: "tree_ok es" and k: "k < length es" "\<not> used (es ! k)"
    and e: "e_id e \<noteq> 0" "e_id e \<noteq> fs_not_found" "good_name (ename e)" "length (e_name e) = 24" "0 \<in> set (e_name e)"
      "is_dir_id es (e_parent_id e)"
    and new: "\<And>x. x \<in> set es \<Longrightarrow> used x \<Longrightarrow> e_id x \<noteq> e_id e"
      "\<And>x. x \<in> set es \<Longrightarrow> used x \<Longrightarrow> \<not> (e_parent_id x = e_parent_id e \<and> ename x = ename e)"
  shows "tree_ok (es[k := e])"
proof -
  have "names_ok (es[k := e])"
    using names_ok_upd t e(4,5) by (simp add: tree_ok_def)
  moreover have "entries_ok (es[k := e])"
    unfolding entries_ok_def
  proof
    fix x assume "x \<in> set (es[k := e])"
    then have "x = e \<or> x \<in> set es" by (rule set_update_cases)
    then show "if used x then e_id x \<noteq> fs_not_found \<and> good_name (ename x) \<and> is_dir_id (es[k := e]) (e_parent_id x)
        else ename x = [] \<and> e_parent_id x = 0"
    proof
      assume "x = e"
      then show ?thesis using e is_dir_id_upd[OF k] by (simp add: used_def)
    next
      assume "x \<in> set es"
      then show ?thesis using tree_ok_entry[OF t, of x] is_dir_id_upd[OF k] by (cases "used x") simp_all
    qed
  qed
  moreover have "distinct_entries (es[k := e])"
  proof -
    have d: "\<And>i j. i < length es \<Longrightarrow> j < length es \<Longrightarrow> used (es ! i) \<Longrightarrow> used (es ! j) \<Longrightarrow> i \<noteq> j \<Longrightarrow>
        e_id (es ! i) \<noteq> e_id (es ! j) \<and>
        \<not> (e_parent_id (es ! i) = e_parent_id (es ! j) \<and> ename (es ! i) = ename (es ! j))"
      using t by (auto simp: tree_ok_def distinct_entries_def)
    have n: "\<And>i. i < length es \<Longrightarrow> used (es ! i) \<Longrightarrow> e_id (es ! i) \<noteq> e_id e \<and>
        \<not> (e_parent_id (es ! i) = e_parent_id e \<and> ename (es ! i) = ename e)"
      using new nth_mem by blast
    show ?thesis unfolding distinct_entries_def
    proof (intro allI impI)
      fix i j assume ij: "i < length (es[k := e])" "j < length (es[k := e])"
        "used (es[k := e] ! i)" "used (es[k := e] ! j)" "i \<noteq> j"
      consider "i = k" | "j = k" | "i \<noteq> k" "j \<noteq> k" by blast
      then show "e_id (es[k := e] ! i) \<noteq> e_id (es[k := e] ! j) \<and>
        \<not> (e_parent_id (es[k := e] ! i) = e_parent_id (es[k := e] ! j) \<and>
           ename (es[k := e] ! i) = ename (es[k := e] ! j))"
      proof cases
        case 1
        then show ?thesis using ij n[of j] k(1) by auto
      next
        case 2
        then show ?thesis using ij n[of i] k(1) by auto
      next
        case 3
        then show ?thesis using ij d[of i j] by simp
      qed
    qed
  qed
  ultimately show ?thesis by (simp add: tree_ok_def)
qed

lemma ename_zero [simp]: "ename zero_entry = []"
  by (simp add: zero_entry_def cstr_of_def)

lemma tree_ok_remove:
  assumes t: "tree_ok es" and k: "k < length es"
    and nc: "\<And>x. x \<in> set es \<Longrightarrow> used x \<Longrightarrow> e_parent_id x \<noteq> 0 \<Longrightarrow> e_parent_id x \<noteq> e_id (es ! k)"
  shows "tree_ok (es[k := zero_entry])"
proof -
  have "names_ok (es[k := zero_entry])"
    using names_ok_upd[of es zero_entry] t by (simp add: tree_ok_def zero_entry_def)
  moreover have "entries_ok (es[k := zero_entry])"
    unfolding entries_ok_def
  proof
    fix x assume "x \<in> set (es[k := zero_entry])"
    then have "x = zero_entry \<or> x \<in> set es" by (rule set_update_cases)
    then show "if used x then e_id x \<noteq> fs_not_found \<and> good_name (ename x) \<and>
          is_dir_id (es[k := zero_entry]) (e_parent_id x)
        else ename x = [] \<and> e_parent_id x = 0"
    proof
      assume "x = zero_entry"
      then show ?thesis by (simp add: used_def zero_entry_def cstr_of_def)
    next
      assume x: "x \<in> set es"
      have "is_dir_id (es[k := zero_entry]) (e_parent_id x)" if u: "used x"
      proof (cases "e_parent_id x = 0")
        case True
        then show ?thesis by (simp add: is_dir_id_def)
      next
        case False
        then obtain d where d: "d \<in> set es" "used d" "e_id d = e_parent_id x" "e_type d = 3"
          using tree_ok_used(4)[OF t x u] by (auto simp: is_dir_id_def)
        then obtain i where i: "i < length es" "es ! i = d" by (auto simp: in_set_conv_nth)
        then have "i \<noteq> k" using nc[OF x u False] d(3) by auto
        then have "d \<in> set (es[k := zero_entry])"
          using i by (metis length_list_update nth_list_update_neq nth_mem)
        then show ?thesis using d by (auto simp: is_dir_id_def)
      qed
      then show ?thesis using tree_ok_entry[OF t x] by (cases "used x") simp_all
    qed
  qed
  moreover have "distinct_entries (es[k := zero_entry])"
  proof -
    have "used (es[k := zero_entry] ! j) \<Longrightarrow> j \<noteq> k" for j
      using k by (auto simp: used_def zero_entry_def)
    moreover have "es[k := zero_entry] ! j = es ! j" if "j \<noteq> k" for j
      using that by simp
    ultimately show ?thesis
      using t unfolding tree_ok_def distinct_entries_def length_list_update by metis
  qed
  ultimately show ?thesis by (simp add: tree_ok_def)
qed

end
