(* ===== verification/FsFileOps.thy ===== *)
theory FsFileOps
  imports FsFile FsTree
begin

text \<open>
  The effect of creating and removing files and directories on a working disk: on the table, on the
  bitmap and on the last id, with every sector that may change.
\<close>

section \<open>Names and paths\<close>

definition base_name :: "cstring \<Rightarrow> cstring" where
  "base_name path = drop (nat (last_slash path + 1)) path"

definition pad_name :: "cstring \<Rightarrow> bytes" where
  "pad_name w = w @ replicate (24 - length w) 0"

text \<open>\<open>abs_ready es cur path apath\<close>: \<open>path_to_abs\<close> makes \<open>apath\<close> from \<open>path\<close> and its buffers are long enough.\<close>

definition abs_ready :: "fs_file_entry list \<Rightarrow> u64 \<Rightarrow> cstring \<Rightarrow> cstring \<Rightarrow> bool" where
  "abs_ready es cur path apath \<longleftrightarrow> is_cstring path \<and> length apath \<le> 1023 \<and>
     (if rel_or_abs_path path = 0 then apath = path
      else names_ok es \<and> (\<exists>ns. ancestry es id_to_path_depth cur = Some ns \<and> length ns \<le> 512 \<and>
             apath = dir_prefix ns @ path))"

lemma ancestry_cstrings: "ancestry es n i = Some ns \<Longrightarrow> w \<in> set ns \<Longrightarrow> is_cstring w"
proof (induction n arbitrary: i ns)
  case (Suc n)
  then show ?case by (auto split: option.splits if_splits)
qed simp

lemma abs_ready_absolute: "abs_ready es cur path apath \<Longrightarrow> rel_or_abs_path apath = 0"
  by (auto simp: abs_ready_def dir_prefix_absolute split: if_splits)

lemma abs_ready_cstring: "abs_ready es cur path apath \<Longrightarrow> is_cstring apath"
proof -
  assume a: "abs_ready es cur path apath"
  show ?thesis
  proof (cases "rel_or_abs_path path = 0")
    case True
    then show ?thesis using a by (simp add: abs_ready_def)
  next
    case False
    then obtain ns where ns: "ancestry es id_to_path_depth cur = Some ns" "apath = dir_prefix ns @ path" "is_cstring path"
      using a by (auto simp: abs_ready_def)
    have "is_cstring (join_words (rev ns))"
      using ancestry_cstrings[OF ns(1)] by (intro is_cstring_join) auto
    then have "is_cstring (dir_prefix ns)" by (simp add: dir_prefix_def Let_def is_cstring_def)
    then show ?thesis using ns by simp
  qed
qed

lemma cstr_of_pad: "is_cstring w \<Longrightarrow> length w < 24 \<Longrightarrow> cstr_of (pad_name w) = w"
proof -
  assume w: "is_cstring w" "length w < 24"
  then have "pad_name w = w @ 0 # replicate (23 - length w) 0"
    by (simp add: pad_name_def Suc_diff_Suc[symmetric] del: replicate_Suc)
      (metis Suc_diff_Suc Suc_diff_le less_Suc_eq_le numeral_nat(7) replicate_Suc diff_Suc_Suc eval_nat_numeral(3))
  then show ?thesis using w(1) by simp
qed

lemma pad_name_ok: "is_cstring w \<Longrightarrow> length w < 24 \<Longrightarrow> length (pad_name w) = 24 \<and> 0 \<in> set (pad_name w)"
  by (simp add: pad_name_def)

lemma entry_name_eq:
  assumes "is_cstring w" "length w < 24" "length r = 23 - length w"
  shows "entry_name (w @ 0 # r) = pad_name w"
proof -
  have "cstr_of (take 24 (w @ 0 # r)) = w" using assms by simp
  moreover have "(w @ replicate (24 - length w) 0)[23 := 0] = w @ replicate (24 - length w) 0"
  proof (rule nth_equalityI)
    fix i assume "i < length ((w @ replicate (24 - length w) 0)[23 := 0])"
    then show "(w @ replicate (24 - length w) 0)[23 := 0] ! i = (w @ replicate (24 - length w) 0) ! i"
      using assms(2) by (cases "i = 23") (auto simp: nth_append)
  qed simp
  ultimately show ?thesis by (simp add: entry_name_def pad_name_def)
qed

lemma path_to_name_eq:
  assumes "is_cstring path" "length (base_name path) < 24" "length (name_buf s) = 24"
  obtains r where "path_to_name path s = Some (s\<lparr>name_buf := base_name path @ 0 # r\<rparr>)"
    and "length r = 23 - length (base_name path)"
proof -
  let ?w = "base_name path" and ?b = "name_buf s"
  have "concat_copy ?b 0 ?w = Some (?w @ drop (length ?w) ?b, length ?w)"
    using concat_copy_eq[of 0 ?w ?b] assms(2,3) by simp
  moreover have "drop (length ?w) ?b = ?b ! length ?w # drop (Suc (length ?w)) ?b"
    using assms(2,3) by (simp add: Cons_nth_drop_Suc)
  ultimately have "path_to_name path s = Some (s\<lparr>name_buf := ?w @ 0 # drop (Suc (length ?w)) ?b\<rparr>)"
    using assms(2,3) by (simp add: path_to_name_def base_name_def[symmetric] poke_def list_update_append Let_def)
  then show thesis using that assms(3) by simp
qed

lemma path_to_name_overflow:
  assumes "24 \<le> length (base_name path)" "length (name_buf s) = 24"
  shows "path_to_name path s = None"
proof (cases "length (base_name path) = 24")
  case True
  then show ?thesis using concat_copy_eq[of 0 "base_name path" "name_buf s"] assms(2)
    by (simp add: path_to_name_def base_name_def[symmetric])
next
  case False
  then show ?thesis using concat_copy_overflow[of 0 "name_buf s" "base_name path"] assms
    by (simp add: path_to_name_def base_name_def[symmetric])
qed

section \<open>Chains of regions\<close>

text \<open>
  The regions that \<open>free_file_regions\<close> visits: the first one and those that the last eight bytes of the
  previous one name, \<open>n\<close> at most.
\<close>

fun region_chain :: "(nat \<Rightarrow> bytes) \<Rightarrow> nat \<Rightarrow> u64 \<Rightarrow> nat \<Rightarrow> u64 \<Rightarrow> u64 list" where
  "region_chain f st rs 0 c = []"
| "region_chain f st rs (Suc n) c = c #
     (let nx = (if n \<noteq> 0 then u64_at (f (st + unat c + unat rs - 1)) 504 else fs_not_found)
      in if nx = fs_not_found \<or> nx = 0 then [] else region_chain f st rs n nx)"

definition in_region :: "u64 \<Rightarrow> u64 \<Rightarrow> nat \<Rightarrow> bool" where
  "in_region rs c j \<longleftrightarrow> unat c \<le> j \<and> j < unat c + unat rs"

text \<open>The frames of all regions of a chain.\<close>

definition chain_frames :: "u64 \<Rightarrow> u64 list \<Rightarrow> nat set" where
  "chain_frames rs cs = {j. \<exists>c \<in> set cs. in_region rs c j}"

text \<open>The links of a chain are read from its own regions: other sectors do not matter.\<close>

lemma region_chain_cong:
  assumes "0 < unat rs" "\<And>j. j \<in> chain_frames rs (region_chain f st rs n c) \<Longrightarrow> g (st + j) = f (st + j)"
  shows "region_chain g st rs n c = region_chain f st rs n c"
  using assms(2)
proof (induction n arbitrary: c)
  case (Suc n)
  let ?j = "unat c + unat rs - 1"
  have "in_region rs c ?j" using assms(1) by (auto simp: in_region_def)
  then have "g (st + ?j) = f (st + ?j)" by (intro Suc.prems) (auto simp: chain_frames_def)
  then have l: "g (st + unat c + unat rs - 1) = f (st + unat c + unat rs - 1)"
    using assms(1) by (simp add: add.assoc)
  let ?nx = "if n \<noteq> 0 then u64_at (f (st + unat c + unat rs - 1)) 504 else fs_not_found"
  show ?case
  proof (cases "?nx = fs_not_found \<or> ?nx = 0")
    case True
    then show ?thesis by (simp only: region_chain.simps Let_def l if_True)
  next
    case False
    have "region_chain f st rs (Suc n) c = c # region_chain f st rs n ?nx"
      using False by (simp only: region_chain.simps Let_def if_False)
    then have "region_chain g st rs n ?nx = region_chain f st rs n ?nx"
      by (intro Suc.IH Suc.prems) (auto simp: chain_frames_def)
    then show ?thesis using False by (simp only: region_chain.simps Let_def l if_False)
  qed
qed simp

text \<open>A region lies within the bitmap and on the disk.\<close>

definition region_fits :: "nat \<Rightarrow> 'd fs \<Rightarrow> u64 \<Rightarrow> u64 \<Rightarrow> bool" where
  "region_fits n s rs c \<longleftrightarrow> 0 < unat rs \<and> unat c + unat rs \<le> frame_bound s \<and>
     unat (start_storage s) + unat c + unat rs \<le> n"

lemma sectors_disjoint:
  assumes "layout_ok n s"
  shows "table_sectors s \<inter> bitmap_sectors s = {}" "table_sectors s \<inter> id_sector s = {}"
    "bitmap_sectors s \<inter> id_sector s = {}" "id_sector s \<inter> table_sectors s = {}"
    "bitmap_sectors s \<inter> table_sectors s = {}" "id_sector s \<inter> bitmap_sectors s = {}"
  using assms by (auto simp: layout_ok_def table_sectors_def bitmap_sectors_def id_sector_def)

definition file_regions_num :: "fs_file_entry \<Rightarrow> nat" where
  "file_regions_num e =
     (let n = (((e_size e + 7) div 8) * 8) div ucast (e_region_size e) in if n = 0 then 1 else unat n)"

definition file_chain :: "('d \<Rightarrow> nat \<Rightarrow> bytes) \<Rightarrow> 'd fs \<Rightarrow> fs_file_entry \<Rightarrow> u64 list" where
  "file_chain sec s e = (if e_region_size e = 0 then []
     else region_chain (sec (dsk s)) (unat (start_storage s)) (ucast (e_region_size e)) (file_regions_num e) (e_data_frame e))"

context block_device
begin

lemma path_to_abs_effect:
  assumes "good s" "fs_idle s" "abs_ready (fs_table sec s) cur path apath"
  obtains s' where "path_to_abs E path cur s = Some (apath, s')" and "step {} s s'" and "fs_idle s'"
proof (cases "rel_or_abs_path path = 0")
  case True
  then show thesis using path_to_abs_absolute[OF assms(1) True assms(2)] assms(3) that
    by (auto simp: abs_ready_def)
next
  case False
  then obtain ns where ns: "ancestry (fs_table sec s) id_to_path_depth cur = Some ns" "length ns \<le> 512"
    "apath = dir_prefix ns @ path" "names_ok (fs_table sec s)" "is_cstring path" "length apath \<le> 1023"
    using assms(3) by (auto simp: abs_ready_def)
  have "rel_or_abs_path path = 1" using False rel_or_abs_cases by blast
  then show thesis
    using path_to_abs_relative[OF assms(1,2) ns(4) _ ns(1,2,5)] ns ancestry_cstrings[OF ns(1)] that by blast
qed

lemma new_entry_head_effect:
  assumes "good s" "fs_idle s" "abs_ready (fs_table sec s) cur path apath"
    and "length (base_name path) < 24" "[dot] \<notin> set (components apath)"
  defines "parent \<equiv> walk_path (fs_table sec s) (butlast (components apath)) 0"
  obtains s' where "new_entry_head E path cur s
      = Some (if parent = fs_not_found \<or> fs_last_id sec s + 1 = fs_not_found then Inl 1
              else Inr (pad_name (base_name path), parent, fs_last_id sec s + 1), s')"
    and "step {} s s'" and "fs_idle s'"
proof -
  have p: "is_cstring path" "length (name_buf s) = 24"
    using assms(2,3) by (auto simp: abs_ready_def fs_idle_def)
  obtain r where n: "path_to_name path s = Some (s\<lparr>name_buf := base_name path @ 0 # r\<rparr>)"
    "length r = 23 - length (base_name path)"
    using path_to_name_eq[OF p(1) assms(4) p(2)] .
  let ?s = "s\<lparr>name_buf := base_name path @ 0 # r\<rparr>"
  have bn: "is_cstring (base_name path)" using p(1) by (simp add: base_name_def)
  have st: "step {} s ?s" using good_bounds(1)[OF assms(1)] n(2) p(2) assms(4) by (simp add: fs_step_def)
  have idle: "fs_idle ?s" using assms(2,4) n(2) by (simp add: fs_idle_def)
  note tb = fs_step_same[OF st]
  have g: "good ?s" by (rule fs_step_good[OF st assms(1)])
  obtain s1 where a: "path_to_abs E path cur ?s = Some (apath, s1)" "step {} ?s s1" "fs_idle s1"
    by (rule path_to_abs_effect[OF g idle]) (use assms(3) tb in auto)
  have g1: "good s1" by (rule fs_step_good[OF a(2) g])
  obtain s2 where f: "fpath_to_path E apath cur s1 = Some (parent, s2)" and b2: "becomes (sec (dsk s1)) s1 s2"
  proof (rule fpath_effect[OF g1 abs_ready_cstring[OF assms(3)] _ assms(5), of cur])
    show "length apath \<le> 1023" using assms(3) by (simp add: abs_ready_def)
    fix s' assume h: "becomes (sec (dsk s1)) s1 s'" "fpath_to_path E apath cur s1
        = Some (walk_path (fs_table sec s1) (butlast (components apath)) (start_id apath cur), s')"
    have "start_id apath cur = 0" using abs_ready_absolute[OF assms(3)] by (simp add: start_id_def)
    then show thesis using that h fs_step_same(2)[OF a(2)] tb by (simp add: parent_def)
  qed
  have g2: "good s2" by (rule disk_becomes_good[OF b2 g1])
  obtain s3 where l: "read_last_id_from_disk E s2 = Some (fs_last_id sec s2, s3)" and b3: "becomes (sec (dsk s2)) s2 s3"
    by (rule read_last_id_effect[OF g2])
  have li: "fs_last_id sec s2 = fs_last_id sec s"
    using reads_same(4)[OF b2] fs_step_same(4)[OF a(2)] tb by simp
  have s02: "step {} s s2"
    using fs_step_trans[OF fs_step_trans[OF st a(2)] becomes_step[OF b2]] by simp
  have s03: "step {} s s3" using fs_step_trans[OF s02 becomes_step[OF b3]] by simp
  have en: "entry_name (name_buf ?s) = pad_name (base_name path)"
    using entry_name_eq[OF bn assms(4) n(2)] by simp
  show thesis
  proof (cases "parent = fs_not_found")
    case True
    then show thesis using n(1) a(1) f en that[OF _ s02] becomes_idle[OF b2] a(3)
      by (simp add: new_entry_head_def Let_def)
  next
    case False
    then show thesis using n(1) a(1) f en l li that[OF _ s03] becomes_idle[OF b3] becomes_idle[OF b2] a(3)
      by (simp add: new_entry_head_def Let_def)
  qed
qed

section \<open>Creation\<close>

text \<open>Storing a new entry and updating the last id.\<close>

lemma add_entry_effect:
  assumes "good s" "wf_entry e" "first_idx is_free (fs_table sec s) = Some k"
  obtains s1 s2 where "write_entry_to_table E e s = Some (0, s1)" and "reload_last_id_to_disk E s1 = Some s2"
    and "changes (table_sectors s \<union> id_sector s) s s2" and "fs_table sec s2 = (fs_table sec s)[k := e]"
    and "fs_last_id sec s2 = max_id ((fs_table sec s)[k := e])"
proof -
  obtain s1 where w: "write_entry_to_table E e s = Some (0, s1)" "changes (table_sectors s) s s1"
    "fs_table sec s1 = (fs_table sec s)[k := e]"
    using write_entry_effect[OF assms(1,2)] assms(3) by auto
  have g1: "good s1" by (rule fs_changes_good[OF w(2) assms(1)])
  obtain s2 where r: "reload_last_id_to_disk E s1 = Some s2" "changes (id_sector s1) s1 s2"
    "fs_last_id sec s2 = max_id (fs_table sec s1)"
    by (rule reload_effect[OF g1])
  have i: "id_sector s1 = id_sector s" using fs_changes_vars(14)[OF w(2)] .
  have "fs_table sec s2 = fs_table sec s1"
    using fs_changes_table[OF r(2)] sectors_disjoint(4)[OF good_bounds(3)[OF g1]] by simp
  then show thesis using that[OF w(1) r(1)] fs_changes_trans[OF w(2) r(2)] w(3) r(3) i by simp
qed

lemma mk_dir_effect:
  assumes "good s" "fs_idle s" "abs_ready (fs_table sec s) cur path apath"
    and "length (base_name path) < 24" "[dot] \<notin> set (components apath)"
    and "parent = walk_path (fs_table sec s) (butlast (components apath)) 0" "parent \<noteq> fs_not_found"
    and "fs_last_id sec s + 1 \<noteq> fs_not_found" "first_idx is_free (fs_table sec s) = Some k"
    and "e = \<lparr>e_name = pad_name (base_name path), e_size = 4, e_parent_id = parent,
        e_id = fs_last_id sec s + 1, e_type = 3, e_region_size = 0, e_flags = 0, e_data_frame = 0\<rparr>"
  obtains s' where "fs_mk_dir E path cur s = Some (0, s')" and "step (table_sectors s \<union> id_sector s) s s'"
    and "fs_idle s'" and "fs_table sec s' = (fs_table sec s)[k := e]"
    and "fs_last_id sec s' = max_id ((fs_table sec s)[k := e])"
proof -
  obtain s1 where h: "new_entry_head E path cur s
      = Some (Inr (pad_name (base_name path), parent, fs_last_id sec s + 1), s1)" "step {} s s1" "fs_idle s1"
    using new_entry_head_effect[OF assms(1-5)] assms(6-8) by auto
  note tb = fs_step_same[OF h(2)] and v = fs_step_vars[OF h(2)]
  have g1: "good s1" by (rule fs_step_good[OF h(2) assms(1)])
  have wf: "wf_entry e" using assms(4,10) by (simp add: wf_entry_def pad_name_def)
  obtain s2 s3 where w: "write_entry_to_table E e s1 = Some (0, s2)" "reload_last_id_to_disk E s2 = Some s3"
    "changes (table_sectors s1 \<union> id_sector s1) s1 s3" "fs_table sec s3 = (fs_table sec s1)[k := e]"
    "fs_last_id sec s3 = max_id ((fs_table sec s1)[k := e])"
    by (rule add_entry_effect[OF g1 wf]) (use assms(9) tb in auto)
  have "fs_mk_dir E path cur s = Some (0, s3)"
    using h(1) w(1,2) assms(10) by (simp add: fs_mk_dir_def)
  moreover have "step (table_sectors s \<union> id_sector s) s s3"
    using fs_step_trans[OF h(2) changes_step[OF w(3)]] v by simp
  moreover have "fs_idle s3" using changes_idle[OF w(3)] h(3) by simp
  ultimately show thesis using that w(4,5) tb by simp
qed

lemma alloc_effect:
  assumes "good s" "2 \<le> unat n" "least_run (fs_bit sec s) (unat n) = Some p"
  obtains s1 s2 where "get_data_region E 0 n s = Some (of_nat p, s1)"
    and "bitmap_set_range E (of_nat p) (unat n) s1 = Some s2"
    and "changes (bitmap_sectors s) s s2" and "unat (of_nat p :: u64) = p" and "p + unat n \<le> 4096"
    and "fs_bit sec s2 = (\<lambda>j. in_region n (of_nat p) j \<or> fs_bit sec s j)"
proof -
  have p: "p + unat n < 4097" by (rule least_run_Some(2)[OF assms(3)])
  then have up: "unat (of_nat p :: u64) = p" by (simp add: unat_of_nat take_bit_nat_eq_self)
  obtain s1 where r: "get_data_region E 0 n s = Some (of_nat p, s1)" and b: "becomes (sec (dsk s)) s s1"
    using get_data_region_effect[OF assms(1,2)] p assms(3) by auto
  have g1: "good s1" by (rule disk_becomes_good[OF b assms(1)])
  have fb: "4096 \<le> frame_bound s1"
    using good_layout(4,5)[OF g1] by (simp add: frame_bound_def)
  obtain s2 where w: "bitmap_set_range E (of_nat p) (unat n) s1 = Some s2" "changes (bitmap_sectors s1) s1 s2"
    "fs_bit sec s2 = (\<lambda>j. (unat (of_nat p :: u64) \<le> j \<and> j < unat (of_nat p :: u64) + unat n) \<or> fs_bit sec s1 j)"
    using bitmap_set_range_effect[OF g1, of "of_nat p" "unat n"] p fb up by auto
  have "changes (bitmap_sectors s) s s2"
    using fs_changes_trans[OF reads_changes[OF b] w(2)] fs_changes_vars(13)[OF reads_changes[OF b]] by simp
  then show thesis using that[OF r w(1)] up p w(3) reads_same(3)[OF b] by (simp add: in_region_def)
qed

lemma mk_file_size_effect:
  assumes "good s" "fs_idle s" "abs_ready (fs_table sec s) cur path apath"
    and "length (base_name path) < 24" "[dot] \<notin> set (components apath)"
    and "parent = walk_path (fs_table sec s) (butlast (components apath)) 0" "parent \<noteq> fs_not_found"
    and "fs_last_id sec s + 1 \<noteq> fs_not_found" "first_idx is_free (fs_table sec s) = Some k"
    and "2 \<le> unat n" "least_run (fs_bit sec s) (unat n) = Some p"
    and "e = \<lparr>e_name = pad_name (base_name path), e_size = 0, e_parent_id = parent,
        e_id = fs_last_id sec s + 1, e_type = 2, e_region_size = ucast n, e_flags = 0, e_data_frame = of_nat p\<rparr>"
  obtains s' where "fs_mk_file_size E path cur n s = Some (0, s')"
    and "step (bitmap_sectors s \<union> table_sectors s \<union> id_sector s) s s'" and "fs_idle s'"
    and "fs_table sec s' = (fs_table sec s)[k := e]"
    and "fs_last_id sec s' = max_id ((fs_table sec s)[k := e])"
    and "\<forall>j < frame_bound s. fs_bit sec s' j = (in_region n (of_nat p) j \<or> fs_bit sec s j)"
proof -
  obtain s1 where h: "new_entry_head E path cur s
      = Some (Inr (pad_name (base_name path), parent, fs_last_id sec s + 1), s1)" "step {} s s1" "fs_idle s1"
    using new_entry_head_effect[OF assms(1-5)] assms(6-8) by auto
  note tb = fs_step_same[OF h(2)] and v = fs_step_vars[OF h(2)]
  have g1: "good s1" by (rule fs_step_good[OF h(2) assms(1)])
  obtain s2 s3 where a: "get_data_region E 0 n s1 = Some (of_nat p, s2)"
    "bitmap_set_range E (of_nat p) (unat n) s2 = Some s3" "changes (bitmap_sectors s1) s1 s3"
    "unat (of_nat p :: u64) = p" "p + unat n \<le> 4096"
    "fs_bit sec s3 = (\<lambda>j. in_region n (of_nat p) j \<or> fs_bit sec s1 j)"
    by (rule alloc_effect[OF g1 assms(10)]) (use assms(11) tb in auto)
  have g3: "good s3" by (rule fs_changes_good[OF a(3) g1])
  note v3 = fs_changes_vars[OF a(3)]
  have t3: "fs_table sec s3 = fs_table sec s"
    using fs_changes_table[OF a(3)] sectors_disjoint(5)[OF good_bounds(3)[OF g1]] tb by simp
  have wf: "wf_entry e" using assms(4,12) by (simp add: wf_entry_def pad_name_def)
  obtain s4 s5 where w: "write_entry_to_table E e s3 = Some (0, s4)" "reload_last_id_to_disk E s4 = Some s5"
    "changes (table_sectors s3 \<union> id_sector s3) s3 s5" "fs_table sec s5 = (fs_table sec s3)[k := e]"
    "fs_last_id sec s5 = max_id ((fs_table sec s3)[k := e])"
    by (rule add_entry_effect[OF g3 wf]) (use assms(9) t3 in auto)
  have nf: "of_nat p \<noteq> fs_not_found"
    using a(4,5) by (auto simp: word_unat_eq_iff fs_not_found_def unsigned_minus_1_eq_mask mask_eq_exp_minus_1)
  have "fs_mk_file_size E path cur n s = Some (0, s5)"
    using h(1) a(1,2) w(1,2) assms(12) nf by (simp add: fs_mk_file_size_def)
  moreover have "step (bitmap_sectors s \<union> table_sectors s \<union> id_sector s) s s5"
    using fs_step_trans[OF h(2) changes_step[OF fs_changes_trans[OF a(3) w(3)]]] v v3
    by (simp add: Un_assoc)
  moreover have "fs_idle s5" using changes_idle[OF w(3)] changes_idle[OF a(3)] h(3) by simp
  moreover have "fs_bit sec s5 j = (in_region n (of_nat p) j \<or> fs_bit sec s j)" if "j < frame_bound s" for j
  proof -
    have "(table_sectors s3 \<union> id_sector s3) \<inter> bitmap_sectors s3 = {}"
      using sectors_disjoint(1,6)[OF good_bounds(3)[OF g3]] by auto
    then have "fs_bit sec s5 j = fs_bit sec s3 j"
      using fs_changes_bit[OF w(3)] that v v3 by simp
    then show ?thesis using a(6) tb by simp
  qed
  ultimately show thesis using that w(4,5) t3 by simp
qed

lemma mk_file_is_mk_file_size: "fs_mk_file E path cur s = fs_mk_file_size E path cur 8 s"
  unfolding fs_mk_file_def fs_mk_file_size_def data_file_region_size_def ..

section \<open>Removal\<close>

lemma storage_lba_ok:
  assumes "good s" "unat (start_storage s) + unat k < cap (dsk s)"
  shows "unat (storage_lba s k) = unat (start_storage s) + unat k" "unat (storage_lba s k) < cap (dsk s)"
proof -
  have "unat (start_storage s + k) = unat (start_storage s) + unat k"
    using assms good_bounds(2)[OF assms(1)] by (simp add: unat_word_ariths)
  then show "unat (storage_lba s k) = unat (start_storage s) + unat k"
    using assms good_bounds(2)[OF assms(1)] by (simp add: storage_lba_def unat_ucast_32)
  then show "unat (storage_lba s k) < cap (dsk s)" using assms(2) by simp
qed

lemma free_regions_effect:
  assumes "good s" "length buf = 512"
    and "\<And>c. c \<in> set (region_chain (sec (dsk s)) (unat (start_storage s)) rs n c0) \<Longrightarrow> region_fits (cap (dsk s)) s rs c"
  shows "\<exists>s'. free_regions E rs n c0 buf s = Some s' \<and> changes (bitmap_sectors s) s s' \<and>
    fs_bit sec s' = (\<lambda>j. (\<forall>c \<in> set (region_chain (sec (dsk s)) (unat (start_storage s)) rs n c0).
       \<not> in_region rs c j) \<and> fs_bit sec s j)"
  using assms
proof (induction n arbitrary: c0 buf s)
  case 0
  then show ?case using good_bounds(1)
    by (auto intro!: exI[of _ s] fs_changes_refl)
next
  case (Suc n)
  let ?st = "unat (start_storage s)"
  let ?nx = "if n \<noteq> 0 then u64_at (sec (dsk s) (?st + unat c0 + unat rs - 1)) 504 else fs_not_found"
  have fit: "region_fits (cap (dsk s)) s rs c0" using Suc.prems(3)[of c0] by simp
  have f: "0 < unat rs" "unat c0 + unat rs \<le> frame_bound s" "?st + unat c0 + unat rs \<le> cap (dsk s)"
    using fit by (auto simp: region_fits_def)
  have u: "unat (c0 + rs - 1) = unat c0 + unat rs - 1"
  proof -
    have s: "unat c0 + unat rs < 2 ^ 64" using f(3) good_bounds(2)[OF Suc.prems(1)] by simp
    have "c0 + rs \<noteq> 0" using f(1) s by (auto simp: word_unat_eq_iff unat_word_ariths)
    then have "unat (c0 + rs - 1) = unat (c0 + rs) - 1" by (rule unat_minus_one)
    then show ?thesis using s by (simp add: unat_word_ariths)
  qed
  have l: "?st + unat (c0 + rs - 1) < cap (dsk s)" using u f by simp
  obtain s1 buf1 where r: "(if n \<noteq> 0 then do {
          let sector_buf = fill buf 512 0;
          (st, sector_buf, s) \<leftarrow> read1 E (storage_lba s (c0 + rs - 1)) sector_buf s;
          Some (u64_at sector_buf 504, sector_buf, s) }
        else Some (fs_not_found, buf, s)) = Some (?nx, buf1, s1)"
    and b: "becomes (sec (dsk s)) s s1" and lb: "length buf1 = 512"
  proof (cases "n = 0")
    case True
    then show thesis using that[of buf s] disk_becomes_refl[of ok s sec cap] good_bounds(1)[OF Suc.prems(1)]
        Suc.prems(2) by simp
  next
    case False
    obtain s1 where "read1 E (storage_lba s (c0 + rs - 1)) (fill buf 512 0) s
        = Some (0, sec (dsk s) (unat (storage_lba s (c0 + rs - 1))), s1)" "becomes (sec (dsk s)) s s1"
      using read1_eq[OF good_bounds(1)[OF Suc.prems(1)] storage_lba_ok(2)[OF Suc.prems(1) l], of "fill buf 512 0"]
        Suc.prems(2) by auto
    moreover have "unat (storage_lba s (c0 + rs - 1)) = ?st + unat c0 + unat rs - 1"
      using storage_lba_ok(1)[OF Suc.prems(1) l] u f(1) by simp
    ultimately show thesis
      using False that[of "sec (dsk s) (?st + unat c0 + unat rs - 1)" s1]
        sec_length[OF good_bounds(1)[OF Suc.prems(1)]] by (simp add: Let_def)
  qed
  note same = reads_same[OF b] and ch1 = reads_changes[OF b]
  have g1: "good s1" by (rule disk_becomes_good[OF b Suc.prems(1)])
  have v1: "frame_bound s1 = frame_bound s" "bitmap_sectors s1 = bitmap_sectors s"
    using fs_changes_vars[OF ch1] by simp_all
  obtain s2 where c: "bitmap_clear_range E c0 (unat rs) s1 = Some s2" "changes (bitmap_sectors s1) s1 s2"
    "fs_bit sec s2 = (\<lambda>j. \<not> (unat c0 \<le> j \<and> j < unat c0 + unat rs) \<and> fs_bit sec s1 j)"
    using bitmap_clear_range_effect[OF g1, of c0 "unat rs"] f(2) v1 by auto
  have ch2: "changes (bitmap_sectors s) s s2" using fs_changes_trans[OF ch1 c(2)] v1 by simp
  show ?case
  proof (cases "?nx = fs_not_found \<or> ?nx = 0")
    case True
    then have chain: "region_chain (sec (dsk s)) ?st rs (Suc n) c0 = [c0]"
      by (simp only: region_chain.simps Let_def if_True)
    have "free_regions E rs (Suc n) c0 buf s = Some s2"
      using r c(1) True by (simp only: free_regions.simps bind.bind_lunit case_prod_conv if_True)
    then show ?thesis using ch2 c(3) same(3) unfolding chain by (auto simp: in_region_def fun_eq_iff)
  next
    case False
    have chain: "region_chain (sec (dsk s)) ?st rs (Suc n) c0 = c0 # region_chain (sec (dsk s)) ?st rs n ?nx"
      using False by (simp only: region_chain.simps Let_def if_False)
    have n0: "n \<noteq> 0"
    proof
      assume "n = 0"
      then show False using False by simp
    qed
    have v2: "unat (start_storage s2) = ?st" "cap (dsk s2) = cap (dsk s)" "frame_bound s2 = frame_bound s"
      "bitmap_sectors s2 = bitmap_sectors s"
      using fs_changes_vars[OF ch2] by simp_all
    have same_data: "sec (dsk s2) i = sec (dsk s) i" if "unat (start_storage s) \<le> i" for i
    proof -
      have "i \<notin> bitmap_sectors s" using that good_layout[OF Suc.prems(1)] by (auto simp: bitmap_sectors_def)
      then show ?thesis using fs_changes_sec[OF ch2] by simp
    qed
    have chain2: "region_chain (sec (dsk s2)) ?st rs m c = region_chain (sec (dsk s)) ?st rs m c" for m c
      using same_data f(1) by (induction m arbitrary: c) (auto simp: Let_def)
    have fits2: "region_fits (cap (dsk s2)) s2 rs c" if "c \<in> set (region_chain (sec (dsk s)) ?st rs n ?nx)" for c
      using Suc.prems(3)[of c] that chain v2 by (auto simp: region_fits_def)
    obtain s3 where s3: "free_regions E rs n ?nx buf1 s2 = Some s3" "changes (bitmap_sectors s2) s2 s3"
      "fs_bit sec s3 = (\<lambda>j. (\<forall>c \<in> set (region_chain (sec (dsk s)) ?st rs n ?nx).
         \<not> in_region rs c j) \<and> fs_bit sec s2 j)"
      using Suc.IH[OF fs_changes_good[OF ch2 Suc.prems(1)] lb, of ?nx] fits2 v2(1) chain2 by auto
    have "free_regions E rs (Suc n) c0 buf s = Some s3"
      using r c(1) False s3(1) by (simp only: free_regions.simps bind.bind_lunit case_prod_conv if_False)
    moreover have "changes (bitmap_sectors s) s s3" using fs_changes_trans[OF ch2 s3(2)] v2 by simp
    ultimately show ?thesis using s3(3) c(3) same(3) unfolding chain
      by (intro exI[of _ s3]) (auto simp: in_region_def fun_eq_iff)
  qed
qed

lemma free_file_effect:
  assumes "good s" "\<And>c. c \<in> set (file_chain sec s e) \<Longrightarrow> region_fits (cap (dsk s)) s (ucast (e_region_size e)) c"
  obtains s' where "free_file_regions E e s = Some s'" and "changes (bitmap_sectors s) s s'"
    and "fs_bit sec s' = (\<lambda>j. (\<forall>c \<in> set (file_chain sec s e).
       \<not> in_region (ucast (e_region_size e)) c j) \<and> fs_bit sec s j)"
proof (cases "e_region_size e = 0")
  case True
  then show thesis using that[of s] good_bounds(1)[OF assms(1)]
    by (simp add: free_file_regions_def file_chain_def fs_changes_refl)
next
  case False
  have nz: "(ucast (e_region_size e) :: u64) \<noteq> 0"
    using False unat_ucast_16[of "e_region_size e"] by (auto simp: word_unat_eq_iff)
  let ?n = "file_regions_num e"
  have "free_file_regions E e s = free_regions E (ucast (e_region_size e)) ?n (e_data_frame e) (local_buf E 512 s) s"
    using nz by (simp add: free_file_regions_def file_regions_num_def Let_def)
  moreover have fc: "file_chain sec s e
      = region_chain (sec (dsk s)) (unat (start_storage s)) (ucast (e_region_size e)) ?n (e_data_frame e)"
    using False by (simp add: file_chain_def)
  ultimately show thesis
    using free_regions_effect[OF assms(1), of "local_buf E 512 s" "ucast (e_region_size e)" ?n "e_data_frame e"]
      assms(2) that by auto
qed

lemma drop_entry_effect:
  assumes "good s" "k < 1024"
  obtains s1 s2 where "erase_table_entry E (k div 8) (k mod 8) s = Some s1"
    and "reload_last_id_to_disk E s1 = Some s2"
    and "changes (table_sectors s \<union> id_sector s) s s2" and "fs_table sec s2 = (fs_table sec s)[k := zero_entry]"
    and "fs_last_id sec s2 = max_id ((fs_table sec s)[k := zero_entry])"
proof -
  obtain s1 where w: "erase_table_entry E (k div 8) (k mod 8) s = Some s1" "changes (table_sectors s) s s1"
    "fs_table sec s1 = (fs_table sec s)[k := zero_entry]"
    by (rule erase_effect[OF assms])
  have g1: "good s1" by (rule fs_changes_good[OF w(2) assms(1)])
  obtain s2 where r: "reload_last_id_to_disk E s1 = Some s2" "changes (id_sector s1) s1 s2"
    "fs_last_id sec s2 = max_id (fs_table sec s1)"
    by (rule reload_effect[OF g1])
  have i: "id_sector s1 = id_sector s" using fs_changes_vars(14)[OF w(2)] .
  have "fs_table sec s2 = fs_table sec s1"
    using fs_changes_table[OF r(2)] sectors_disjoint(4)[OF good_bounds(3)[OF g1]] by simp
  then show thesis using that[OF w(1) r(1)] fs_changes_trans[OF w(2) r(2)] w(3) r(3) i by simp
qed

lemma rm_file_effect:
  assumes "good s" "i \<noteq> 0" "i \<noteq> fs_not_found" "first_idx (\<lambda>e. e_id e = i) (fs_table sec s) = Some k"
    and "e_type (fs_table sec s ! k) = 2"
    and "\<And>c. c \<in> set (file_chain sec s (fs_table sec s ! k)) \<Longrightarrow>
          region_fits (cap (dsk s)) s (ucast (e_region_size (fs_table sec s ! k))) c"
  obtains s' where "fs_rm_file_by_id E i s = Some (0, s')"
    and "changes (bitmap_sectors s \<union> table_sectors s \<union> id_sector s) s s'"
    and "fs_table sec s' = (fs_table sec s)[k := zero_entry]"
    and "fs_last_id sec s' = max_id ((fs_table sec s)[k := zero_entry])"
    and "\<forall>j < frame_bound s. fs_bit sec s' j = ((\<forall>c \<in> set (file_chain sec s (fs_table sec s ! k)).
       \<not> in_region (ucast (e_region_size (fs_table sec s ! k))) c j) \<and> fs_bit sec s j)"
proof -
  let ?e = "fs_table sec s ! k"
  have k: "k < 1024" using assms(4) by (simp add: first_idx_Some)
  obtain s1 where f: "find_entry_by_id E i s = Some (Some (?e, k div 8, k mod 8), s1)" and b: "becomes (sec (dsk s)) s s1"
    using find_entry_effect[OF assms(1), of i] assms(2-4) by auto
  note same = reads_same[OF b] and ch1 = reads_changes[OF b]
  note v1 = fs_changes_vars[OF ch1]
  have g1: "good s1" by (rule disk_becomes_good[OF b assms(1)])
  have fc: "file_chain sec s1 ?e = file_chain sec s ?e" using same v1 by (simp add: file_chain_def)
  obtain s2 where r: "free_file_regions E ?e s1 = Some s2" "changes (bitmap_sectors s1) s1 s2"
    "fs_bit sec s2 = (\<lambda>j. (\<forall>c \<in> set (file_chain sec s1 ?e). \<not> in_region (ucast (e_region_size ?e)) c j) \<and> fs_bit sec s1 j)"
    by (rule free_file_effect[OF g1, of ?e]) (use assms(6) fc same v1 in \<open>auto simp: region_fits_def\<close>)
  have g2: "good s2" by (rule fs_changes_good[OF r(2) g1])
  have t2: "fs_table sec s2 = fs_table sec s"
    using fs_changes_table[OF r(2)] sectors_disjoint(5)[OF good_bounds(3)[OF g1]] same by simp
  note v2 = fs_changes_vars[OF r(2)]
  obtain s3 s4 where d: "erase_table_entry E (k div 8) (k mod 8) s2 = Some s3" "reload_last_id_to_disk E s3 = Some s4"
    "changes (table_sectors s2 \<union> id_sector s2) s2 s4" "fs_table sec s4 = (fs_table sec s2)[k := zero_entry]"
    "fs_last_id sec s4 = max_id ((fs_table sec s2)[k := zero_entry])"
    by (rule drop_entry_effect[OF g2 k])
  have "fs_rm_file_by_id E i s = Some (0, s4)"
    using f r(1) d(1,2) assms(5) by (simp add: fs_rm_file_by_id_def)
  moreover have "changes (bitmap_sectors s \<union> table_sectors s \<union> id_sector s) s s4"
    using fs_changes_trans[OF ch1 fs_changes_trans[OF r(2) d(3)]] v1 v2 by (simp add: Un_assoc)
  moreover have "fs_bit sec s4 j = ((\<forall>c \<in> set (file_chain sec s ?e). \<not> in_region (ucast (e_region_size ?e)) c j) \<and> fs_bit sec s j)"
    if "j < frame_bound s" for j
  proof -
    have "(table_sectors s2 \<union> id_sector s2) \<inter> bitmap_sectors s2 = {}"
      using sectors_disjoint(1,6)[OF good_bounds(3)[OF g2]] by auto
    then have "fs_bit sec s4 j = fs_bit sec s2 j"
      using fs_changes_bit[OF d(3)] that v1 v2 by simp
    then show ?thesis using r(3) fc same by simp
  qed
  ultimately show thesis using that d(4,5) t2 by simp
qed

lemma rm_dir_effect:
  assumes "good s" "i \<noteq> 0" "i \<noteq> fs_not_found" "first_idx (\<lambda>e. e_id e = i) (fs_table sec s) = Some k"
    and "e_type (fs_table sec s ! k) = 3"
  defines "busy \<equiv> \<exists>e \<in> set (fs_table sec s). used e \<and> e_parent_id e = i"
  obtains s' where "fs_rm_dir_by_id E i s = Some (if busy then 1 else 0, s')"
    and "changes (table_sectors s \<union> id_sector s) s s'"
    and "fs_table sec s' = (if busy then fs_table sec s else (fs_table sec s)[k := zero_entry])"
    and "fs_last_id sec s' = (if busy then fs_last_id sec s else max_id ((fs_table sec s)[k := zero_entry]))"
    and "changes (if busy then {} else table_sectors s \<union> id_sector s) s s'"
proof -
  let ?e = "fs_table sec s ! k"
  have k: "k < 1024" using assms(4) by (simp add: first_idx_Some)
  obtain s1 where f: "find_entry_by_id E i s = Some (Some (?e, k div 8, k mod 8), s1)" and b: "becomes (sec (dsk s)) s s1"
    using find_entry_effect[OF assms(1), of i] assms(2-4) by auto
  have g1: "good s1" by (rule disk_becomes_good[OF b assms(1)])
  obtain s2 where c: "dir_has_children E i s1 = Some (if busy then 1 else 0, s2)" and b2: "becomes (sec (dsk s1)) s1 s2"
    using has_children_effect[OF g1, of i] reads_same(2)[OF b] by (auto simp: busy_def used_def)
  have b12: "becomes (sec (dsk s)) s s2" by (rule reads_trans[OF b b2])
  have g2: "good s2" by (rule disk_becomes_good[OF b12 assms(1)])
  note same = reads_same[OF b12] and ch = reads_changes[OF b12]
  show thesis
  proof (cases busy)
    case True
    then show thesis using that[of s2] f c assms(5) same fs_changes_mono[OF ch]
      by (simp add: fs_rm_dir_by_id_def)
  next
    case False
    obtain s3 s4 where d: "erase_table_entry E (k div 8) (k mod 8) s2 = Some s3" "reload_last_id_to_disk E s3 = Some s4"
      "changes (table_sectors s2 \<union> id_sector s2) s2 s4" "fs_table sec s4 = (fs_table sec s2)[k := zero_entry]"
      "fs_last_id sec s4 = max_id ((fs_table sec s2)[k := zero_entry])"
      by (rule drop_entry_effect[OF g2 k])
    have "fs_rm_dir_by_id E i s = Some (0, s4)"
      using f c d(1,2) assms(5) False by (simp add: fs_rm_dir_by_id_def)
    then show thesis
      using that[of s4] False d(3-5) same fs_changes_trans[OF ch d(3)] fs_changes_vars[OF ch] by simp
  qed
qed

end

end
