(* ===== verification/FsVolume.thy ===== *)
theory FsVolume
  imports FsFileOps
begin

text \<open>
  The abstract file system that a volume stands for: a map from (directory, name) to (id, type), the frames that
  every file owns, and the invariant of a volume. The operations of \<open>FsFile\<close> are shown to act on the map and on the frames as an
  abstract file system would.
\<close>

section \<open>The directory map\<close>

type_synonym dirmap = "u64 \<times> cstring \<Rightarrow> (u64 \<times> u16) option"

definition dir_map :: "fs_file_entry list \<Rightarrow> dirmap" where
  "dir_map es pn =
     (case first_idx (\<lambda>e. used e \<and> ename e = snd pn \<and> e_parent_id e = fst pn) es of
        None \<Rightarrow> None | Some k \<Rightarrow> Some (e_id (es ! k), e_type (es ! k)))"

fun resolve :: "dirmap \<Rightarrow> cstring list \<Rightarrow> u64 \<Rightarrow> u64 option" where
  "resolve m [] d = Some d"
| "resolve m (w # ws) d = (case m (d, w) of None \<Rightarrow> None | Some it \<Rightarrow> resolve m ws (fst it))"

lemma dir_map_Some:
  assumes "dir_map es (p, w) = Some (i, t)"
  obtains k where "k < length es" "used (es ! k)" "ename (es ! k) = w" "e_parent_id (es ! k) = p"
    "e_id (es ! k) = i" "e_type (es ! k) = t"
  using assms by (auto simp: dir_map_def first_idx_Some split: option.splits)

lemma dir_map_None:
  "dir_map es (p, w) = None \<longleftrightarrow> (\<forall>e \<in> set es. used e \<longrightarrow> \<not> (ename e = w \<and> e_parent_id e = p))"
proof -
  have "dir_map es (p, w) = None \<longleftrightarrow> first_idx (\<lambda>e. used e \<and> ename e = w \<and> e_parent_id e = p) es = None"
    by (simp add: dir_map_def split: option.splits)
  then show ?thesis by (auto simp: first_idx_None)
qed

lemma dir_map_entry:
  assumes "tree_ok es" "k < length es" "used (es ! k)"
  shows "dir_map es (e_parent_id (es ! k), ename (es ! k)) = Some (e_id (es ! k), e_type (es ! k))"
proof -
  have "first_idx (\<lambda>e. used e \<and> ename e = ename (es ! k) \<and> e_parent_id e = e_parent_id (es ! k)) es = Some k"
    using assms by (intro first_idx_unique) (auto simp: tree_ok_def distinct_entries_def)
  then show ?thesis by (simp add: dir_map_def)
qed

lemma lookup_dir_map:
  assumes "tree_ok es" "is_cstring w" "w \<noteq> []"
  shows "lookup_name es w p = (case dir_map es (p, w) of None \<Rightarrow> fs_not_found | Some it \<Rightarrow> fst it)"
  using lookup_name_eq[OF assms, of p] by (simp add: dir_map_def split: option.splits)

lemma no_children_of_not_found:
  assumes "tree_ok es"
  shows "dir_map es (fs_not_found, w) = None"
proof (rule ccontr)
  assume "dir_map es (fs_not_found, w) \<noteq> None"
  then obtain e where e: "e \<in> set es" "used e" "e_parent_id e = fs_not_found" by (auto simp: dir_map_None)
  have "fs_not_found \<noteq> 0" by (simp add: fs_not_found_def)
  then obtain d where "d \<in> set es" "used d" "e_id d = fs_not_found"
    using tree_ok_used(4)[OF assms e(1,2)] e(3) by (auto simp: is_dir_id_def)
  then show False using tree_ok_used(1)[OF assms] by blast
qed

lemma walk_resolve:
  assumes "tree_ok es" "\<forall>w \<in> set ws. is_cstring w \<and> w \<noteq> []"
  shows "walk_path es ws d = (case resolve (dir_map es) ws d of None \<Rightarrow> fs_not_found | Some i \<Rightarrow> i)"
  using assms(2)
proof (induction ws arbitrary: d)
  case Nil
  then show ?case by (simp add: walk_path_def)
next
  case (Cons w ws)
  have step: "walk_path es (w # ws) d = walk_path es ws (lookup_name es w d)" by (simp add: walk_path_def)
  have lk: "lookup_name es w d = (case dir_map es (d, w) of None \<Rightarrow> fs_not_found | Some it \<Rightarrow> fst it)"
    using lookup_dir_map[OF assms(1)] Cons.prems by simp
  show ?case
  proof (cases "dir_map es (d, w)")
    case None
    have "walk_path es ws fs_not_found = fs_not_found"
      using Cons.IH[of fs_not_found] Cons.prems no_children_of_not_found[OF assms(1)] by (cases ws) simp_all
    then show ?thesis using None by (simp add: step lk)
  next
    case (Some it)
    then show ?thesis using Cons.IH[of "fst it"] Cons.prems by (simp add: step lk)
  qed
qed

lemma components_cstrings: "is_cstring p \<Longrightarrow> \<forall>w \<in> set (components p). is_cstring w \<and> w \<noteq> []"
  using is_cstring_split[of p] components_ne by (auto simp: components_def)

section \<open>Updates of the map\<close>

lemma first_idx_update:
  "k < length es \<Longrightarrow> \<not> P (es ! k) \<Longrightarrow> \<not> P e \<Longrightarrow> first_idx P (es[k := e]) = first_idx P es"
proof (induction es arbitrary: k)
  case Nil
  then show ?case by simp
next
  case (Cons x es)
  then show ?case by (cases k) auto
qed

lemma dir_map_other:
  assumes "k < length es" "\<not> (used (es ! k) \<and> ename (es ! k) = w \<and> e_parent_id (es ! k) = p)"
    "\<not> (used e \<and> ename e = w \<and> e_parent_id e = p)"
  shows "dir_map (es[k := e]) (p, w) = dir_map es (p, w)"
proof -
  let ?P = "\<lambda>e. used e \<and> ename e = w \<and> e_parent_id e = p"
  have f: "first_idx ?P (es[k := e]) = first_idx ?P es" by (rule first_idx_update) (use assms in auto)
  have "es[k := e] ! j = es ! j" if "first_idx ?P es = Some j" for j
  proof -
    have "?P (es ! j)" using that by (simp add: first_idx_Some)
    then have "j \<noteq> k" using assms(2) by blast
    then show ?thesis by simp
  qed
  then show ?thesis by (simp add: dir_map_def f split: option.split)
qed

lemma dir_map_add:
  assumes "tree_ok (es[k := e])" "k < length es" "\<not> used (es ! k)" "used e"
  shows "dir_map (es[k := e]) = (dir_map es)((e_parent_id e, ename e) \<mapsto> (e_id e, e_type e))"
proof (rule ext)
  fix pw :: "u64 \<times> cstring"
  obtain p w where pw: "pw = (p, w)" by (cases pw)
  show "dir_map (es[k := e]) pw = ((dir_map es)((e_parent_id e, ename e) \<mapsto> (e_id e, e_type e))) pw"
  proof (cases "pw = (e_parent_id e, ename e)")
    case True
    then show ?thesis using dir_map_entry[OF assms(1), of k] assms(2,4) by simp
  next
    case False
    have "dir_map (es[k := e]) (p, w) = dir_map es (p, w)"
      by (rule dir_map_other[OF assms(2)]) (use assms(3) False pw in auto)
    then show ?thesis using False pw by auto
  qed
qed

lemma dir_map_remove:
  assumes "tree_ok es" "k < length es" "used (es ! k)"
  shows "dir_map (es[k := zero_entry]) = (dir_map es)((e_parent_id (es ! k), ename (es ! k)) := None)"
proof (rule ext)
  fix pw :: "u64 \<times> cstring"
  obtain p w where pw: "pw = (p, w)" by (cases pw)
  have z: "\<not> used zero_entry" by (simp add: used_def zero_entry_def)
  show "dir_map (es[k := zero_entry]) pw = ((dir_map es)((e_parent_id (es ! k), ename (es ! k)) := None)) pw"
  proof (cases "pw = (e_parent_id (es ! k), ename (es ! k))")
    case True
    have "\<not> (used x \<and> ename x = ename (es ! k) \<and> e_parent_id x = e_parent_id (es ! k))"
      if x: "x \<in> set (es[k := zero_entry])" for x
    proof -
      obtain j where j: "j < length es" "x = es[k := zero_entry] ! j" using x unfolding in_set_conv_nth length_list_update by blast
      show ?thesis
      proof (cases "j = k")
        case True
        then show ?thesis using j assms(2) z by simp
      next
        case False
        then show ?thesis using j assms by (auto simp: tree_ok_def distinct_entries_def)
      qed
    qed
    then have "dir_map (es[k := zero_entry]) pw = None" unfolding True dir_map_None by blast
    then show ?thesis by (simp add: True)
  next
    case False
    have "dir_map (es[k := zero_entry]) (p, w) = dir_map es (p, w)"
      by (rule dir_map_other[OF assms(2)]) (use z False pw in auto)
    then show ?thesis using False pw by auto
  qed
qed

section \<open>Frames of files\<close>

definition file_frames :: "fs_file_entry \<Rightarrow> nat set" where
  "file_frames e = {f. in_region (ucast (e_region_size e)) (e_data_frame e) f}"

definition is_file :: "fs_file_entry \<Rightarrow> bool" where
  "is_file e \<longleftrightarrow> used e \<and> e_type e = 2"

text \<open>The first region of every file fits on the disk and is allocated, and no two files share a frame.\<close>

definition regions_ok :: "(u64 \<Rightarrow> u64 \<Rightarrow> bool) \<Rightarrow> (nat \<Rightarrow> bool) \<Rightarrow> fs_file_entry list \<Rightarrow> bool" where
  "regions_ok fits bits es \<longleftrightarrow>
     (\<forall>e \<in> set es. is_file e \<longrightarrow> fits (ucast (e_region_size e)) (e_data_frame e) \<and> (\<forall>f \<in> file_frames e. bits f)) \<and>
     (\<forall>j < length es. \<forall>k < length es. j \<noteq> k \<longrightarrow> is_file (es ! j) \<longrightarrow> is_file (es ! k) \<longrightarrow>
        file_frames (es ! j) \<inter> file_frames (es ! k) = {})"

lemma regions_ok_bits:
  assumes "regions_ok fits bits es" "\<And>e f. e \<in> set es \<Longrightarrow> is_file e \<Longrightarrow> f \<in> file_frames e \<Longrightarrow> bits f \<Longrightarrow> bits' f"
  shows "regions_ok fits bits' es"
  using assms unfolding regions_ok_def by blast

lemma regions_ok_add:
  assumes r: "regions_ok fits bits es" and k: "k < length es"
    and e: "is_file e \<Longrightarrow> fits (ucast (e_region_size e)) (e_data_frame e) \<and> (\<forall>f \<in> file_frames e. \<not> bits f \<and> bits' f)"
    and keep: "\<And>f. bits f \<Longrightarrow> bits' f"
  shows "regions_ok fits bits' (es[k := e])"
proof -
  have all: "fits (ucast (e_region_size x)) (e_data_frame x) \<and> (\<forall>f \<in> file_frames x. bits' f)"
    if "x \<in> set (es[k := e])" "is_file x" for x
    using set_update_cases[OF that(1)] r e keep that(2) by (auto simp: regions_ok_def)
  have apart: "file_frames e \<inter> file_frames x = {}" if "x \<in> set es" "is_file x" "is_file e" for x
    using r e that by (auto simp: regions_ok_def)
  have "file_frames (es[k := e] ! i) \<inter> file_frames (es[k := e] ! j) = {}"
    if "i < length es" "j < length es" "i \<noteq> j" "is_file (es[k := e] ! i)" "is_file (es[k := e] ! j)" for i j
  proof -
    consider "i = k" | "j = k" | "i \<noteq> k" "j \<noteq> k" by blast
    then show ?thesis
    proof cases
      case 1
      then show ?thesis using that apart[of "es ! j"] k by simp
    next
      case 2
      then show ?thesis using that apart[of "es ! i"] k by (simp add: Int_commute)
    next
      case 3
      then show ?thesis using that r by (simp add: regions_ok_def)
    qed
  qed
  then show ?thesis using all by (simp add: regions_ok_def)
qed

lemma regions_ok_remove:
  assumes r: "regions_ok fits bits es" and k: "k < length es" and z: "\<not> is_file e"
    and keep: "\<And>f. bits f \<Longrightarrow> f \<notin> file_frames (es ! k) \<or> \<not> is_file (es ! k) \<Longrightarrow> bits' f"
  shows "regions_ok fits bits' (es[k := e])"
proof -
  have idx: "i \<noteq> k \<and> es[k := e] ! i = es ! i" if "i < length es" "is_file (es[k := e] ! i)" for i
    using that z k by (cases "i = k") auto
  have all: "fits (ucast (e_region_size x)) (e_data_frame x) \<and> (\<forall>f \<in> file_frames x. bits' f)"
    if x0: "x \<in> set (es[k := e])" "is_file x" for x
  proof -
    obtain i where i: "i < length es" "x = es[k := e] ! i"
      using x0(1) unfolding in_set_conv_nth length_list_update by blast
    then have x: "i \<noteq> k" "x = es ! i" "x \<in> set es" using idx[OF i(1)] x0(2) by auto
    have "f \<notin> file_frames (es ! k) \<or> \<not> is_file (es ! k)" if "f \<in> file_frames x" for f
      using r i(1) k x(1,2) that x0(2) unfolding regions_ok_def by blast
    then show ?thesis using r keep x(3) x0(2) by (auto simp: regions_ok_def)
  qed
  have "file_frames (es[k := e] ! i) \<inter> file_frames (es[k := e] ! j) = {}"
    if ij: "i < length es" "j < length es" "i \<noteq> j" "is_file (es[k := e] ! i)" "is_file (es[k := e] ! j)" for i j
  proof -
    have "es[k := e] ! i = es ! i" "es[k := e] ! j = es ! j" using idx ij by blast+
    then show ?thesis using r ij by (simp add: regions_ok_def)
  qed
  then show ?thesis using all by (simp add: regions_ok_def)
qed

lemma not_file_zero [simp]: "\<not> is_file zero_entry"
  by (simp add: is_file_def used_def zero_entry_def)

section \<open>The invariant of a volume\<close>

definition volume_ok :: "('d \<Rightarrow> bool) \<Rightarrow> ('d \<Rightarrow> nat \<Rightarrow> bytes) \<Rightarrow> ('d \<Rightarrow> nat) \<Rightarrow> 'd fs \<Rightarrow> bool" where
  "volume_ok ok sec cap s \<longleftrightarrow> fs_good ok cap s \<and> fs_idle s \<and> tree_ok (fs_table sec s) \<and>
     fs_last_id sec s = max_id (fs_table sec s) \<and>
     regions_ok (region_fits (cap (dsk s)) s) (fs_bit sec s) (fs_table sec s)"

text \<open>What no operation on a mounted volume changes: where the frames start, how many there are and the size of the disk.\<close>

definition same_geometry :: "('d \<Rightarrow> nat) \<Rightarrow> 'd fs \<Rightarrow> 'd fs \<Rightarrow> bool" where
  "same_geometry cap s s' \<longleftrightarrow> start_storage s' = start_storage s \<and>
     fs_data_bitmap_size_sectors s' = fs_data_bitmap_size_sectors s \<and> cap (dsk s') = cap (dsk s)"

lemma step_geometry: "fs_step ok sec cap R s s' \<Longrightarrow> same_geometry cap s s'"
  by (simp add: same_geometry_def fs_step_def)

lemma geometry_trans: "same_geometry cap s s1 \<Longrightarrow> same_geometry cap s1 s2 \<Longrightarrow> same_geometry cap s s2"
  by (simp add: same_geometry_def)

lemma geometry_fits: "same_geometry cap s s' \<Longrightarrow> region_fits (cap (dsk s')) s' = region_fits (cap (dsk s)) s"
  by (simp add: same_geometry_def region_fits_def frame_bound_def fun_eq_iff)

lemma geometry_bound: "same_geometry cap s s' \<Longrightarrow> frame_bound s' = frame_bound s"
  by (simp add: same_geometry_def frame_bound_def)

text \<open>A table with one more entry, in a slot that was free.\<close>

definition adds_entry :: "fs_file_entry list \<Rightarrow> fs_file_entry list \<Rightarrow> fs_file_entry \<Rightarrow> bool" where
  "adds_entry es es' e \<longleftrightarrow> (\<exists>k < length es. \<not> used (es ! k) \<and> used e \<and> es' = es[k := e])"

lemma adds_entry_count:
  assumes "adds_entry es es' e"
  shows "length (filter used es') = Suc (length (filter used es))" "set es' \<subseteq> insert e (set es)"
proof -
  obtain k where k: "k < length es" "\<not> used (es ! k)" "used e" "es' = es[k := e]" using assms by (auto simp: adds_entry_def)
  show "set es' \<subseteq> insert e (set es)" unfolding k(4) by (rule set_update_subset_insert)
  have "filter used es = filter used (take k es) @ filter used (drop (Suc k) es)"
    using k(2) by (subst id_take_nth_drop[OF k(1)]) simp
  moreover have "filter used es' = filter used (take k es) @ e # filter used (drop (Suc k) es)"
    using k(3) by (simp add: k(4) upd_conv_take_nth_drop[OF k(1)])
  ultimately show "length (filter used es') = Suc (length (filter used es))" by simp
qed

text \<open>
  \<open>new_path m table cur path parent w\<close>: the path names a new entry \<open>w\<close> of the existing directory \<open>parent\<close>, and the buffers of
  the path functions are long enough for it.
\<close>

definition new_path :: "fs_file_entry list \<Rightarrow> u64 \<Rightarrow> cstring \<Rightarrow> u64 \<Rightarrow> cstring \<Rightarrow> bool" where
  "new_path es cur path parent w \<longleftrightarrow> (\<exists>apath. abs_ready es cur path apath \<and> [dot] \<notin> set (components apath) \<and>
     resolve (dir_map es) (butlast (components apath)) 0 = Some parent) \<and>
     w = base_name path \<and> length w < 24 \<and> good_name w \<and> is_dir_id es parent \<and> dir_map es (parent, w) = None"

definition room_for_entry :: "fs_file_entry list \<Rightarrow> bool" where
  "room_for_entry es \<longleftrightarrow> (\<exists>e \<in> set es. \<not> used e) \<and> max_id es + 1 \<noteq> fs_not_found \<and> max_id es \<noteq> fs_not_found"

lemma dir_not_missing:
  assumes "tree_ok es" "is_dir_id es d"
  shows "d \<noteq> fs_not_found"
proof (cases "d = 0")
  case True
  then show ?thesis by (simp add: fs_not_found_def)
next
  case False
  then show ?thesis using assms tree_ok_used(1)[OF assms(1)] by (auto simp: is_dir_id_def)
qed

lemma first_free:
  assumes "room_for_entry es"
  obtains k where "first_idx is_free es = Some k" "k < length es" "\<not> used (es ! k)"
proof -
  have "first_idx is_free es \<noteq> None"
    using assms by (auto simp: room_for_entry_def first_idx_None is_free_def used_def)
  then obtain k where "first_idx is_free es = Some k" by auto
  then show thesis using that by (auto simp: first_idx_Some is_free_def used_def)
qed

lemma tree_ok_new_entry:
  assumes t: "tree_ok es" and room: "room_for_entry es" and k: "k < length es" "\<not> used (es ! k)"
    and w: "length w < 24" "good_name w" "is_cstring w" "is_dir_id es parent" "dir_map es (parent, w) = None"
    and e: "e_name e = pad_name w" "e_parent_id e = parent" "e_id e = max_id es + 1"
  shows "tree_ok (es[k := e])" "used e" "dir_map (es[k := e]) = (dir_map es)((parent, w) \<mapsto> (e_id e, e_type e))"
    "max_id (es[k := e]) = e_id e"
proof -
  have nm: "ename e = w" "length (e_name e) = 24" "0 \<in> set (e_name e)"
    using e(1) cstr_of_pad[OF w(3,1)] pad_name_ok[OF w(3,1)] by simp_all
  have mx: "max_id es \<noteq> fs_not_found" "max_id es + 1 \<noteq> fs_not_found" using room by (simp_all add: room_for_entry_def)
  have nz: "e_id e \<noteq> 0" using less_succ_u64[OF mx(1)] e(3) by auto
  then show u: "used e" by (simp add: used_def)
  show tr: "tree_ok (es[k := e])"
  proof (rule tree_ok_add[OF t k nz])
    show "e_id e \<noteq> fs_not_found" using mx(2) e(3) by simp
    show "good_name (ename e)" "is_dir_id es (e_parent_id e)" using w nm e(2) by simp_all
    show "length (e_name e) = 24" "0 \<in> set (e_name e)" by (rule nm)+
    fix x assume "x \<in> set es" "used x"
    then show "e_id x \<noteq> e_id e" using max_id_fresh[OF mx(1)] e(3) by simp
    show "\<not> (e_parent_id x = e_parent_id e \<and> ename x = ename e)"
      using w(5) \<open>x \<in> set es\<close> \<open>used x\<close> nm(1) e(2) by (auto simp: dir_map_None)
  qed
  show "dir_map (es[k := e]) = (dir_map es)((parent, w) \<mapsto> (e_id e, e_type e))"
    using dir_map_add[OF tr k u] nm(1) e(2) by simp
  have "x \<in> set (es[k := e]) \<Longrightarrow> e_id x \<le> e_id e" for x
    using set_update_cases[of x es k e] max_id_ge[of x es] less_succ_u64[OF mx(1)] e(3) by (auto intro: order_trans less_imp_le)
  then have "max_id (es[k := e]) \<le> e_id e" using max_id_in[of "es[k := e]"] by (metis word_zero_le)
  moreover have "e \<in> set (es[k := e])" using k(1) by (rule set_update_memI)
  then have "e_id e \<le> max_id (es[k := e])" by (rule max_id_ge)
  ultimately show "max_id (es[k := e]) = e_id e" by (rule antisym)
qed

lemma file_frames_bound: "region_fits n s (ucast (e_region_size e)) (e_data_frame e) \<Longrightarrow> f \<in> file_frames e \<Longrightarrow> f < frame_bound s"
  by (auto simp: region_fits_def file_frames_def in_region_def)

lemma region_fits_cong:
  "start_storage s' = start_storage s \<Longrightarrow> frame_bound s' = frame_bound s \<Longrightarrow> region_fits n s' = region_fits n s"
  by (auto simp: region_fits_def fun_eq_iff)

lemma regions_ok_same_bits:
  assumes "regions_ok (region_fits n s) bits es" "\<forall>f < frame_bound s. bits' f = bits f"
  shows "regions_ok (region_fits n s) bits' es"
proof (rule regions_ok_bits[OF assms(1)])
  fix e f assume "e \<in> set es" "is_file e" "f \<in> file_frames e" "bits f"
  moreover from this have "region_fits n s (ucast (e_region_size e)) (e_data_frame e)"
    using assms(1) unfolding regions_ok_def by blast
  ultimately show "bits' f" using assms(2) file_frames_bound by blast
qed

lemma new_path_facts:
  assumes t: "tree_ok es" and np: "new_path es cur path parent w"
  obtains apath where "abs_ready es cur path apath" "[dot] \<notin> set (components apath)"
    "parent = walk_path es (butlast (components apath)) 0" "w = base_name path" "length w < 24" "good_name w"
    "is_cstring w" "is_dir_id es parent" "dir_map es (parent, w) = None" "parent \<noteq> fs_not_found"
proof -
  from np obtain apath where ap: "abs_ready es cur path apath" "[dot] \<notin> set (components apath)"
    "resolve (dir_map es) (butlast (components apath)) 0 = Some parent" by (auto simp: new_path_def)
  from np have w: "w = base_name path" "length w < 24" "good_name w" "is_dir_id es parent" "dir_map es (parent, w) = None"
    unfolding new_path_def by blast+
  have cs: "is_cstring apath" "is_cstring path" using abs_ready_cstring[OF ap(1)] ap(1) by (simp_all add: abs_ready_def)
  have wc: "is_cstring w" using cs(2) by (simp add: w(1) base_name_def)
  have "parent = walk_path es (butlast (components apath)) 0"
    using walk_resolve[OF t, of "butlast (components apath)" 0] components_cstrings[OF cs(1)] ap(3)
    by (auto dest: in_set_butlastD)
  then show thesis using that ap w wc dir_not_missing[OF t w(4)] by blast
qed

context block_device
begin

abbreviation (input) vol :: "'d fs \<Rightarrow> bool" where
  "vol \<equiv> volume_ok ok sec cap"

lemma mk_dir_volume:
  assumes v: "vol s" and np: "new_path (fs_table sec s) cur path parent w" and room: "room_for_entry (fs_table sec s)"
  obtains s' where "fs_mk_dir E path cur s = Some (0, s')" and "vol s'"
    and "dir_map (fs_table sec s') = (dir_map (fs_table sec s))((parent, w) \<mapsto> (fs_last_id sec s + 1, 3))"
    and "\<forall>f < frame_bound s. fs_bit sec s' f = fs_bit sec s f"
    and "\<forall>i \<ge> unat (start_storage s). sec (dsk s') i = sec (dsk s) i"
    and "\<exists>e. adds_entry (fs_table sec s) (fs_table sec s') e \<and> e_type e = 3"
    and "fs_last_id sec s' = fs_last_id sec s + 1" and "same_geometry cap s s'"
proof -
  note vd = v[unfolded volume_ok_def]
  let ?es = "fs_table sec s"
  from vd have t: "tree_ok ?es" and g: "good s" and idle: "fs_idle s" and lid: "fs_last_id sec s = max_id ?es"
    and reg: "regions_ok (region_fits (cap (dsk s)) s) (fs_bit sec s) ?es" by simp_all
  obtain apath where ap: "abs_ready ?es cur path apath" "[dot] \<notin> set (components apath)"
    "parent = walk_path ?es (butlast (components apath)) 0"
    and w: "w = base_name path" "length w < 24" "good_name w" "is_cstring w" "is_dir_id ?es parent"
    "dir_map ?es (parent, w) = None" "parent \<noteq> fs_not_found"
    by (rule new_path_facts[OF t np])
  obtain k where k: "first_idx is_free ?es = Some k" "k < length ?es" "\<not> used (?es ! k)"
    by (rule first_free[OF room])
  define e where "e = \<lparr>e_name = pad_name w, e_size = 4, e_parent_id = parent,
        e_id = fs_last_id sec s + 1, e_type = 3, e_region_size = 0, e_flags = 0, e_data_frame = 0\<rparr>"
  have el: "e_name e = pad_name w" "e_parent_id e = parent" "e_id e = max_id ?es + 1" "e_type e = 3"
    by (simp_all add: e_def lid)
  note new = tree_ok_new_entry[OF t room k(2,3) w(2-6) el(1-3)]
  obtain s' where s': "fs_mk_dir E path cur s = Some (0, s')" "step (table_sectors s \<union> id_sector s) s s'" "fs_idle s'"
    "fs_table sec s' = ?es[k := e]" "fs_last_id sec s' = max_id (?es[k := e])"
    by (rule mk_dir_effect[OF g idle ap(1) _ ap(2,3) w(7), of k e])
      (use w room k(1) lid in \<open>auto simp: room_for_entry_def e_def\<close>)
  note sv = fs_step_vars[OF s'(2)]
  have bits: "\<forall>f < frame_bound s. fs_bit sec s' f = fs_bit sec s f"
    using fs_step_bit[OF s'(2)] sectors_disjoint(1,6)[OF good_bounds(3)[OF g]] by (metis Int_Un_distrib2 Un_empty)
  have "regions_ok (region_fits (cap (dsk s)) s) (fs_bit sec s) (?es[k := e])"
    by (rule regions_ok_add[OF reg k(2)]) (simp_all add: is_file_def el)
  then have "regions_ok (region_fits (cap (dsk s)) s) (fs_bit sec s') (?es[k := e])"
    by (rule regions_ok_same_bits[OF _ bits])
  then have "regions_ok (region_fits (cap (dsk s')) s') (fs_bit sec s') (fs_table sec s')"
    using region_fits_cong[of s' s] sv s'(4) by simp
  then have "vol s'"
    unfolding volume_ok_def using s' new(1) fs_step_good[OF s'(2) g] by simp
  moreover have "\<forall>i \<ge> unat (start_storage s). sec (dsk s') i = sec (dsk s) i"
    using fs_step_sec[OF s'(2)] good_layout[OF g] by (auto simp: table_sectors_def id_sector_def)
  moreover have "adds_entry ?es (fs_table sec s') e" unfolding adds_entry_def using k(2,3) new(2) s'(4) by blast
  moreover have "fs_last_id sec s' = fs_last_id sec s + 1" using s'(5) new(4) el(3) lid by simp
  ultimately show thesis using that[of s'] s' new(3) bits el lid step_geometry[OF s'(2)] by auto
qed

lemma mk_file_volume:
  assumes v: "vol s" and np: "new_path (fs_table sec s) cur path parent w" and room: "room_for_entry (fs_table sec s)"
    and run: "least_run (fs_bit sec s) 8 = Some p" and fits: "region_fits (cap (dsk s)) s 8 (of_nat p)"
  obtains s' where "fs_mk_file E path cur s = Some (0, s')" and "vol s'"
    and "dir_map (fs_table sec s') = (dir_map (fs_table sec s))((parent, w) \<mapsto> (fs_last_id sec s + 1, 2))"
    and "\<forall>f < frame_bound s. fs_bit sec s' f = (in_region 8 (of_nat p) f \<or> fs_bit sec s f)"
    and "\<forall>i \<ge> unat (start_storage s). sec (dsk s') i = sec (dsk s) i"
    and "\<exists>e. adds_entry (fs_table sec s) (fs_table sec s') e \<and> e_type e = 2 \<and> e_region_size e = 8"
    and "fs_last_id sec s' = fs_last_id sec s + 1" and "same_geometry cap s s'"
proof -
  note vd = v[unfolded volume_ok_def]
  let ?es = "fs_table sec s"
  from vd have t: "tree_ok ?es" and g: "good s" and idle: "fs_idle s" and lid: "fs_last_id sec s = max_id ?es"
    and reg: "regions_ok (region_fits (cap (dsk s)) s) (fs_bit sec s) ?es" by simp_all
  obtain apath where ap: "abs_ready ?es cur path apath" "[dot] \<notin> set (components apath)"
    "parent = walk_path ?es (butlast (components apath)) 0"
    and w: "w = base_name path" "length w < 24" "good_name w" "is_cstring w" "is_dir_id ?es parent"
    "dir_map ?es (parent, w) = None" "parent \<noteq> fs_not_found"
    by (rule new_path_facts[OF t np])
  obtain k where k: "first_idx is_free ?es = Some k" "k < length ?es" "\<not> used (?es ! k)"
    by (rule first_free[OF room])
  define e where "e = \<lparr>e_name = pad_name w, e_size = 0, e_parent_id = parent,
        e_id = fs_last_id sec s + 1, e_type = 2, e_region_size = 8, e_flags = 0, e_data_frame = of_nat p\<rparr>"
  have el: "e_name e = pad_name w" "e_parent_id e = parent" "e_id e = max_id ?es + 1" "e_type e = 2"
    "e_region_size e = 8" "e_data_frame e = of_nat p"
    by (simp_all add: e_def lid)
  note new = tree_ok_new_entry[OF t room k(2,3) w(2-6) el(1-3)]
  have r8: "unat (8 :: u64) = 8" by simp
  obtain s' where s': "fs_mk_file_size E path cur 8 s = Some (0, s')"
    "step (bitmap_sectors s \<union> table_sectors s \<union> id_sector s) s s'" "fs_idle s'"
    "fs_table sec s' = ?es[k := e]" "fs_last_id sec s' = max_id (?es[k := e])"
    "\<forall>f < frame_bound s. fs_bit sec s' f = (in_region 8 (of_nat p) f \<or> fs_bit sec s f)"
    by (rule mk_file_size_effect[OF g idle ap(1) _ ap(2,3) w(7), of k 8 p e])
      (use w room k(1) lid run in \<open>auto simp: room_for_entry_def e_def\<close>)
  note sv = fs_step_vars[OF s'(2)]
  have fr: "file_frames e = {f. in_region 8 (of_nat p) f}" by (simp add: file_frames_def el)
  have "\<not> fs_bit sec s f" if "f \<in> file_frames e" for f
  proof -
    have pb: "p + 8 < 4097" and free: "\<forall>i < 8. \<not> fs_bit sec s (p + i)"
      using least_run_Some[OF run] by (simp_all add: free_run_def)
    have "unat (of_nat p :: u64) = p" using pb by (simp add: unat_of_nat take_bit_nat_eq_self)
    then have "p \<le> f \<and> f < p + 8" using that unfolding fr in_region_def by (simp add: r8)
    then have "p \<le> f" "f - p < 8" by linarith+
    then show ?thesis using free[rule_format, of "f - p"] by simp
  qed
  then have "regions_ok (region_fits (cap (dsk s)) s) (\<lambda>f. in_region 8 (of_nat p) f \<or> fs_bit sec s f) (?es[k := e])"
    by (intro regions_ok_add[OF reg k(2)]) (use fits in \<open>simp_all add: el fr\<close>)
  then have "regions_ok (region_fits (cap (dsk s)) s) (fs_bit sec s') (?es[k := e])"
    by (rule regions_ok_same_bits[OF _ s'(6)])
  then have "regions_ok (region_fits (cap (dsk s')) s') (fs_bit sec s') (fs_table sec s')"
    using region_fits_cong[of s' s] sv s'(4) by simp
  then have "vol s'"
    unfolding volume_ok_def using s' new(1) fs_step_good[OF s'(2) g] by simp
  moreover have "\<forall>i \<ge> unat (start_storage s). sec (dsk s') i = sec (dsk s) i"
    using fs_step_sec[OF s'(2)] good_layout[OF g] by (auto simp: table_sectors_def id_sector_def bitmap_sectors_def)
  moreover have "adds_entry ?es (fs_table sec s') e" unfolding adds_entry_def using k(2,3) new(2) s'(4) by blast
  moreover have "fs_last_id sec s' = fs_last_id sec s + 1" using s'(5) new(4) el(3) lid by simp
  ultimately show thesis using that[of s'] s' new(3) el lid mk_file_is_mk_file_size[of path cur s] step_geometry[OF s'(2)] by auto
qed

text \<open>Removal, by the id that a path leads to.\<close>

lemma entry_of_id:
  assumes "tree_ok es" "k < length es" "used (es ! k)"
  shows "first_idx (\<lambda>e. e_id e = e_id (es ! k)) es = Some k"
proof (rule first_idx_unique[OF assms(2) refl])
  fix j assume j: "j < length es" "e_id (es ! j) = e_id (es ! k)"
  then have "used (es ! j)" using assms(3) by (simp add: used_def)
  then show "j = k" using assms j by (auto simp: tree_ok_def distinct_entries_def)
qed

lemma rm_file_volume:
  assumes v: "vol s" and k: "k < 1024" "is_file (fs_table sec s ! k)"
    and one: "file_chain sec s (fs_table sec s ! k) = [e_data_frame (fs_table sec s ! k)]"
  obtains s' where "fs_rm_file_by_id E (e_id (fs_table sec s ! k)) s = Some (0, s')" and "vol s'"
    and "dir_map (fs_table sec s') = (dir_map (fs_table sec s))
      ((e_parent_id (fs_table sec s ! k), ename (fs_table sec s ! k)) := None)"
    and "\<forall>f < frame_bound s. fs_bit sec s' f = (f \<notin> file_frames (fs_table sec s ! k) \<and> fs_bit sec s f)"
    and "\<forall>i \<ge> unat (start_storage s). sec (dsk s') i = sec (dsk s) i"
proof -
  note vd = v[unfolded volume_ok_def]
  let ?es = "fs_table sec s" and ?e = "fs_table sec s ! k"
  from vd have t: "tree_ok ?es" and g: "good s" and idle: "fs_idle s"
    and reg: "regions_ok (region_fits (cap (dsk s)) s) (fs_bit sec s) ?es" by simp_all
  have kl: "k < length ?es" and u: "used ?e" and ty: "e_type ?e = 2" using k by (simp_all add: is_file_def)
  have mem: "?e \<in> set ?es" using kl by (rule nth_mem)
  have fit: "region_fits (cap (dsk s)) s (ucast (e_region_size ?e)) (e_data_frame ?e)"
    using reg mem k(2) unfolding regions_ok_def by blast
  obtain s' where s': "fs_rm_file_by_id E (e_id ?e) s = Some (0, s')"
    "changes (bitmap_sectors s \<union> table_sectors s \<union> id_sector s) s s'"
    "fs_table sec s' = ?es[k := zero_entry]" "fs_last_id sec s' = max_id (?es[k := zero_entry])"
    "\<forall>f < frame_bound s. fs_bit sec s' f = ((\<forall>c \<in> set (file_chain sec s ?e).
       \<not> in_region (ucast (e_region_size ?e)) c f) \<and> fs_bit sec s f)"
    by (rule rm_file_effect[OF g _ _ entry_of_id[OF t kl u] ty])
      (use tree_ok_used(1,2)[OF t mem u] fit one in auto)
  have bits: "\<forall>f < frame_bound s. fs_bit sec s' f = (f \<notin> file_frames ?e \<and> fs_bit sec s f)"
    using s'(5) by (simp add: one file_frames_def)
  have nc: "e_parent_id x \<noteq> e_id ?e" if x: "x \<in> set ?es" "used x" "e_parent_id x \<noteq> 0" for x
  proof
    assume "e_parent_id x = e_id ?e"
    then obtain d where d: "d \<in> set ?es" "used d" "e_id d = e_id ?e" "e_type d = 3"
      using tree_ok_used(4)[OF t x(1,2)] x(3) unfolding is_dir_id_def by auto
    from d(1) obtain j where j: "j < length ?es" "?es ! j = d" unfolding in_set_conv_nth by blast
    have "first_idx (\<lambda>e. e_id e = e_id ?e) ?es = Some j" using entry_of_id[OF t j(1)] j(2) d(2,3) by simp
    then have "j = k" using entry_of_id[OF t kl u] by simp
    then show False using j(2) d(4) ty by simp
  qed
  have tr: "tree_ok (?es[k := zero_entry])" by (rule tree_ok_remove[OF t kl nc])
  have "regions_ok (region_fits (cap (dsk s)) s) (\<lambda>f. f \<notin> file_frames ?e \<and> fs_bit sec s f) (?es[k := zero_entry])"
    by (rule regions_ok_remove[OF reg kl]) (use k(2) in simp_all)
  then have "regions_ok (region_fits (cap (dsk s)) s) (fs_bit sec s') (?es[k := zero_entry])"
    by (rule regions_ok_same_bits[OF _ bits])
  then have "regions_ok (region_fits (cap (dsk s')) s') (fs_bit sec s') (fs_table sec s')"
    using region_fits_cong[of s' s] fs_changes_vars[OF s'(2)] s'(3) by simp
  then have "vol s'"
    unfolding volume_ok_def using s' tr fs_changes_good[OF s'(2) g] changes_idle[OF s'(2)] idle by simp
  moreover have "\<forall>i \<ge> unat (start_storage s). sec (dsk s') i = sec (dsk s) i"
    using fs_changes_sec[OF s'(2)] good_layout[OF g] by (auto simp: table_sectors_def id_sector_def bitmap_sectors_def)
  ultimately show thesis using that s'(1,3) bits dir_map_remove[OF t kl u] by simp
qed

lemma rm_dir_volume:
  assumes v: "vol s" and k: "k < 1024" "used (fs_table sec s ! k)" "e_type (fs_table sec s ! k) = 3"
  defines "vacant \<equiv> \<forall>w. dir_map (fs_table sec s) (e_id (fs_table sec s ! k), w) = None"
  obtains s' where "fs_rm_dir_by_id E (e_id (fs_table sec s ! k)) s = Some (if vacant then 0 else 1, s')" and "vol s'"
    and "dir_map (fs_table sec s') = (if vacant then (dir_map (fs_table sec s))
      ((e_parent_id (fs_table sec s ! k), ename (fs_table sec s ! k)) := None) else dir_map (fs_table sec s))"
    and "\<forall>f < frame_bound s. fs_bit sec s' f = fs_bit sec s f"
    and "\<forall>i \<ge> unat (start_storage s). sec (dsk s') i = sec (dsk s) i"
    and "fs_table sec s' = (if vacant then (fs_table sec s)[k := zero_entry] else fs_table sec s)"
    and "fs_last_id sec s' = max_id (fs_table sec s')"
    and "\<forall>i. i \<notin> (if vacant then table_sectors s \<union> id_sector s else {}) \<longrightarrow> sec (dsk s') i = sec (dsk s) i"
proof -
  note vd = v[unfolded volume_ok_def]
  let ?es = "fs_table sec s" and ?e = "fs_table sec s ! k"
  from vd have t: "tree_ok ?es" and g: "good s" and idle: "fs_idle s" and lid: "fs_last_id sec s = max_id ?es"
    and reg: "regions_ok (region_fits (cap (dsk s)) s) (fs_bit sec s) ?es" by simp_all
  have kl: "k < length ?es" using k by simp
  have mem: "?e \<in> set ?es" using kl by (rule nth_mem)
  have em: "vacant \<longleftrightarrow> \<not> (\<exists>x \<in> set ?es. used x \<and> e_parent_id x = e_id ?e)"
    unfolding vacant_def dir_map_None by blast
  obtain s' where s': "fs_rm_dir_by_id E (e_id ?e) s = Some (if vacant then 0 else 1, s')"
    "changes (table_sectors s \<union> id_sector s) s s'"
    "fs_table sec s' = (if vacant then ?es[k := zero_entry] else ?es)"
    "fs_last_id sec s' = (if vacant then max_id (?es[k := zero_entry]) else fs_last_id sec s)"
    "changes (if vacant then table_sectors s \<union> id_sector s else {}) s s'"
  proof -
    have e: "(if \<exists>x \<in> set ?es. used x \<and> e_parent_id x = e_id ?e then a else b) = (if vacant then b else a)" for a b :: 'x
      unfolding em by (cases "\<exists>x \<in> set ?es. used x \<and> e_parent_id x = e_id ?e")
        (simp_all only: if_True if_False not_True_eq_False not_False_eq_True)
    show thesis
    proof (rule rm_dir_effect[OF g _ _ entry_of_id[OF t kl k(2)] k(3), unfolded e])
      show "e_id ?e \<noteq> 0" "e_id ?e \<noteq> fs_not_found" using tree_ok_used(1,2)[OF t mem k(2)] by simp_all
    qed (rule that)
  qed
  have bits: "\<forall>f < frame_bound s. fs_bit sec s' f = fs_bit sec s f"
    using fs_changes_bit[OF s'(2)] sectors_disjoint(1,6)[OF good_bounds(3)[OF g]] by (metis Int_Un_distrib2 Un_empty)
  have tr: "tree_ok (fs_table sec s')"
    using s'(3) t em by (auto intro: tree_ok_remove[OF t kl])
  have nf: "\<not> is_file ?e" using k(3) by (simp add: is_file_def)
  have "regions_ok (region_fits (cap (dsk s)) s) (fs_bit sec s) (?es[k := zero_entry])"
    by (rule regions_ok_remove[OF reg kl]) simp_all
  then have "regions_ok (region_fits (cap (dsk s)) s) (fs_bit sec s) (fs_table sec s')"
    using reg s'(3) by simp
  then have "regions_ok (region_fits (cap (dsk s)) s) (fs_bit sec s') (fs_table sec s')"
    by (rule regions_ok_same_bits[OF _ bits])
  then have "regions_ok (region_fits (cap (dsk s')) s') (fs_bit sec s') (fs_table sec s')"
    using region_fits_cong[of s' s] fs_changes_vars[OF s'(2)] by simp
  then have "vol s'"
    unfolding volume_ok_def using s' tr lid fs_changes_good[OF s'(2) g] changes_idle[OF s'(2)] idle by simp
  moreover have "\<forall>i \<ge> unat (start_storage s). sec (dsk s') i = sec (dsk s) i"
    using fs_changes_sec[OF s'(2)] good_layout[OF g] by (auto simp: table_sectors_def id_sector_def)
  moreover have "fs_last_id sec s' = max_id (fs_table sec s')" using s'(3,4) lid by simp
  moreover have "\<forall>i. i \<notin> (if vacant then table_sectors s \<union> id_sector s else {}) \<longrightarrow> sec (dsk s') i = sec (dsk s) i"
    using fs_changes_sec[OF s'(5)] by blast
  ultimately show thesis using that[of s'] s'(1,3) bits dir_map_remove[OF t kl k(2)] by simp
qed

end

end
