(* ===== verification/FsData.thy ===== *)
theory FsData
  imports FsVolume
begin

text \<open>
  The data of files that fit into one region: what \<open>fs_write_file\<close> leaves in the sectors of the region, what
  \<open>fs_read_file\<close> copies out of them, and that writing a file changes no other file, no directory and no allocation.
\<close>

section \<open>The content of a region\<close>

text \<open>The bytes that a file of one region holds: its sectors one after the other, cut at its size.\<close>

definition region_bytes :: "(nat \<Rightarrow> bytes) \<Rightarrow> nat \<Rightarrow> nat \<Rightarrow> bytes" where
  "region_bytes f a n = concat (map f [a..<a + n])"

definition file_data :: "('d \<Rightarrow> nat \<Rightarrow> bytes) \<Rightarrow> 'd fs \<Rightarrow> fs_file_entry \<Rightarrow> bytes" where
  "file_data sec s e = take (unat (e_size e))
     (region_bytes (sec (dsk s)) (unat (start_storage s) + unat (e_data_frame e)) (unat (e_region_size e)))"

lemma length_region_bytes:
  "(\<And>i. length (f i) = 512) \<Longrightarrow> length (region_bytes f a n) = 512 * n"
  by (simp add: region_bytes_def length_concat o_def sum_list_triv)

lemma nth_region_bytes:
  assumes "\<And>i. length (f i) = 512" "i < 512 * n"
  shows "region_bytes f a n ! i = f (a + i div 512) ! (i mod 512)"
  using assms(2)
proof (induction n)
  case 0
  then show ?case by simp
next
  case (Suc n)
  have l: "length (region_bytes f a n) = 512 * n" by (rule length_region_bytes[OF assms(1)])
  have "region_bytes f a (Suc n) = region_bytes f a n @ f (a + n)" by (simp add: region_bytes_def)
  moreover have "i div 512 = n" "i mod 512 = i - 512 * n" if "\<not> i < 512 * n"
  proof -
    have "512 * n \<le> i" "i < 512 * n + 512" using that Suc.prems by simp_all
    then show "i div 512 = n" by (intro div_nat_eqI) simp_all
    then show "i mod 512 = i - 512 * n" by (simp add: modulo_nat_def mult.commute)
  qed
  ultimately show ?case using Suc l by (simp add: nth_append)
qed

text \<open>Sector \<open>j\<close> of a region after a write of \<open>sz\<close> bytes.\<close>

definition written_sector :: "bytes \<Rightarrow> nat \<Rightarrow> nat \<Rightarrow> bytes" where
  "written_sector src sz j = map (\<lambda>k. if j * 512 + k < sz then src ! (j * 512 + k) else 0) [0..<512]"

lemma length_written_sector [simp]: "length (written_sector src sz j) = 512"
  by (simp add: written_sector_def)

section \<open>The loops over bytes\<close>

lemma fill_payload_eq:
  assumes "sz \<le> length src" "k + n \<le> length buf" "off + k + n < 2 ^ 64" "sz < 2 ^ 64"
  shows "fill_payload src 0 (of_nat off) (of_nat sz) k n buf =
    Some (take k buf @ map (\<lambda>i. if off + i < sz then src ! (off + i) else 0) [k..<k + n] @ drop (k + n) buf)"
  using assms(2,3)
proof (induction n arbitrary: k buf)
  case 0
  then show ?case by simp
next
  case (Suc n)
  let ?v = "if off + k < sz then src ! (off + k) else 0"
  have u: "unat (of_nat off + of_nat k :: u64) = off + k"
    using Suc.prems(2) by (simp add: unat_of_nat take_bit_nat_eq_self flip: of_nat_add)
  have us: "unat (of_nat sz :: u64) = sz" using assms(4) by (simp add: unat_of_nat take_bit_nat_eq_self)
  have c: "(of_nat off + of_nat k :: u64) < of_nat sz \<longleftrightarrow> off + k < sz" by (simp add: word_less_nat_alt u us)
  have v: "(if (of_nat off + of_nat k :: u64) < of_nat sz then peek src (unat (0 + (of_nat off + of_nat k :: u64))) else Some 0) = Some ?v"
    using assms(1) by (simp add: c u)
  have "fill_payload src 0 (of_nat off) (of_nat sz) (Suc k) n (buf[k := ?v]) =
      Some (take (Suc k) (buf[k := ?v]) @ map (\<lambda>i. if off + i < sz then src ! (off + i) else 0) [Suc k..<Suc k + n] @
        drop (Suc k + n) (buf[k := ?v]))"
    using Suc.prems by (intro Suc.IH) simp_all
  moreover have "take (Suc k) (buf[k := ?v]) = take k buf @ [?v]" using Suc.prems(1) by (simp add: take_Suc_conv_app_nth)
  moreover have "[k..<k + Suc n] = k # [Suc k..<Suc k + n]" by (simp add: upt_rec)
  ultimately show ?case
    using Suc.prems(1) v by (simp only: fill_payload.simps Let_def bind.bind_lunit) (simp add: poke_def)
qed

lemma fs_ptr_to_sector_zero: "length b = 512 \<Longrightarrow> fs_ptr_to_sector b 0 = take 504 b @ replicate 8 0"
  by (simp add: fs_ptr_to_sector_def put_u64_eq copy_into_eq)

lemma copy_payload_eq:
  assumes "k + n \<le> length sb" "unat out + n \<le> length buffer \<or> unat to_read \<le> length buffer" "unat out \<le> unat to_read"
  shows "copy_payload sb k n buffer out to_read =
    (let m = min n (unat to_read - unat out) in
     Some (take (unat out) buffer @ take m (drop k sb) @ drop (unat out + m) buffer, out + of_nat m))"
  using assms
proof (induction n arbitrary: k buffer out)
  case 0
  then show ?case by simp
next
  case (Suc n)
  show ?case
  proof (cases "out < to_read")
    case False
    then have "unat to_read - unat out = 0" by (simp add: word_less_nat_alt)
    then show ?thesis using False by simp
  next
    case True
    then have lt: "unat out < unat to_read" by (simp add: word_less_nat_alt)
    have out1: "unat (out + 1) = unat out + 1"
    proof -
      have "unat to_read < 2 ^ 64" using unsigned_less[of to_read] by simp
      then have "unat out + 1 < 2 ^ 64" using lt by simp
      then show ?thesis by (simp add: unat_word_ariths)
    qed
    have ol: "unat out < length buffer" using Suc.prems(2) lt by auto
    let ?b = "buffer[unat out := sb ! k]"
    have "copy_payload sb (k + 1) n ?b (out + 1) to_read =
      (let m = min n (unat to_read - unat (out + 1)) in
       Some (take (unat (out + 1)) ?b @ take m (drop (k + 1) sb) @ drop (unat (out + 1) + m) ?b, out + 1 + of_nat m))"
      by (rule Suc.IH) (use Suc.prems lt out1 in auto)
    moreover have "take (unat (out + 1)) ?b = take (unat out) buffer @ [sb ! k]"
      using ol by (simp add: out1 take_Suc_conv_app_nth)
    moreover have "min (Suc n) (unat to_read - unat out) = Suc (min n (unat to_read - unat (out + 1)))"
      using lt by (simp add: out1)
    moreover have "take (Suc m) (drop k sb) = sb ! k # take m (drop (k + 1) sb)" for m
      using Suc.prems(1) by (simp add: Cons_nth_drop_Suc[symmetric])
    ultimately show ?thesis
      using True Suc.prems(1) ol by (simp add: Let_def out1 poke_def add.assoc)
  qed
qed

section \<open>Writing into a region\<close>

lemma written_sector_inner:
  "length b = 512 \<Longrightarrow> map (\<lambda>i. if j * 512 + i < sz then src ! (j * 512 + i) else 0) [0..<512] @ drop 512 b = written_sector src sz j"
  by (simp add: written_sector_def)

lemma written_sector_last:
  assumes "sz \<le> j * 512 + 504" "length b = 512"
  shows "fs_ptr_to_sector (map (\<lambda>i. if j * 512 + i < sz then src ! (j * 512 + i) else 0) [0..<504] @ drop 504 b) 0
    = written_sector src sz j"
proof -
  have "[0..<512] = [0..<504] @ [504..<504 + 8]" by (subst upt_add_eq_append[symmetric]) simp_all
  then have "written_sector src sz j = map (\<lambda>i. if j * 512 + i < sz then src ! (j * 512 + i) else 0) [0..<504]
      @ map (\<lambda>i. if j * 512 + i < sz then src ! (j * 512 + i) else 0) [504..<504 + 8]"
    by (simp only: written_sector_def map_append)
  moreover have "map (\<lambda>i. if j * 512 + i < sz then src ! (j * 512 + i) else 0) [504..<504 + 8] = replicate 8 0"
    using assms(1) by (intro replicate_eqI) auto
  ultimately show ?thesis using assms(2) by (simp add: fs_ptr_to_sector_zero)
qed

text \<open>The disk after the sectors from \<open>j\<close> on of the region at sector \<open>a\<close> have been written.\<close>

definition region_write :: "(nat \<Rightarrow> bytes) \<Rightarrow> bytes \<Rightarrow> nat \<Rightarrow> nat \<Rightarrow> nat \<Rightarrow> nat \<Rightarrow> nat \<Rightarrow> bytes" where
  "region_write f src sz a n j i = (if a + j \<le> i \<and> i < a + n then written_sector src sz (i - a) else f i)"

lemma region_write_step:
  "j < n \<Longrightarrow> region_write (f(a + j := written_sector src sz j)) src sz a n (j + 1) = region_write f src sz a n j"
  by (auto simp: region_write_def fun_eq_iff)

lemma fs_region_capacity_unat: "0 < unat r \<Longrightarrow> unat r \<le> 2 ^ 16 \<Longrightarrow> unat (fs_region_capacity r) = (unat r - 1) * 512 + 504"
proof -
  assume r: "0 < unat r" "unat r \<le> 2 ^ 16"
  have "unat (r - 1) = unat r - 1" using r by (intro unat_minus_one) auto
  moreover have "unat ((r - 1) * 512 + 504) = unat (r - 1) * 512 + 504"
    using r calculation by (simp add: unat_word_ariths(1,2) del: distrib_right distrib_right_numeral left_diff_distrib left_diff_distrib_numeral)
  ultimately show ?thesis by (simp only: fs_region_capacity_def fs_last_sector_payload_def)
qed

lemma last_index: "0 < unat r \<Longrightarrow> j < unat r \<Longrightarrow> (of_nat j :: u64) = r - 1 \<longleftrightarrow> j = unat r - 1"
proof -
  assume r: "0 < unat r" "j < unat r"
  have "unat (r - 1) = unat r - 1" using r by (intro unat_minus_one) auto
  moreover have "unat r < 2 ^ 64" using unsigned_less[of r] by simp
  moreover from this have "unat (of_nat j :: u64) = j" using r by (simp add: unat_of_nat take_bit_nat_eq_self)
  ultimately show ?thesis by (simp add: word_unat_eq_iff)
qed

text \<open>The number of bytes that \<open>fs_read_file_inside\<close> copies.\<close>

definition read_count :: "u64 \<Rightarrow> fs_file_entry \<Rightarrow> nat" where
  "read_count mx e = min (unat (if mx = 0 then fs_read_default_limit else mx) - 1) (unat (e_size e))"

context block_device
begin

lemma region_lba:
  assumes "good s" "region_fits (cap (dsk s)) s rs c" "j < unat rs"
  shows "unat (storage_lba s (c + of_nat j)) = unat (start_storage s) + unat c + j"
    "unat (storage_lba s (c + of_nat j)) < cap (dsk s)"
proof -
  have f: "unat (start_storage s) + unat c + unat rs \<le> cap (dsk s)" using assms(2) by (simp add: region_fits_def)
  have u: "unat (c + of_nat j) = unat c + j"
    using f assms(3) good_bounds(2)[OF assms(1)] by (intro unat_add_64) simp
  have l: "unat (start_storage s) + unat (c + of_nat j) < cap (dsk s)" using u f assms(3) by simp
  show "unat (storage_lba s (c + of_nat j)) = unat (start_storage s) + unat c + j"
    using storage_lba_ok(1)[OF assms(1) l] u by simp
  show "unat (storage_lba s (c + of_nat j)) < cap (dsk s)" by (rule storage_lba_ok(2)[OF assms(1) l])
qed

lemma write_sectors_effect:
  assumes "good s" "region_fits (cap (dsk s)) s rs c" "unat rs \<le> 2 ^ 16" "j + n = unat rs" "length buf = 512"
    and "sz \<le> length src" "sz \<le> (unat rs - 1) * 512 + 504"
  shows "\<exists>s' buf'. write_sectors E src 0 (of_nat sz) False rs e c j n buf s = Some (Inr c, buf', s') \<and>
    becomes (region_write (sec (dsk s)) src sz (unat (start_storage s) + unat c) (unat rs) j) s s'"
  using assms(1,2,4,5)
proof (induction n arbitrary: j buf s)
  case 0
  then show ?case using disk_becomes_refl[of ok s sec cap] good_bounds(1)[OF 0(1)]
    by (auto simp: region_write_def[abs_def] not_le[symmetric] cong: if_cong)
next
  case (Suc n)
  let ?f = "sec (dsk s)" and ?a = "unat (start_storage s) + unat c"
  have j: "j < unat rs" "0 < unat rs" using Suc.prems(3) by simp_all
  note l = region_lba[OF Suc.prems(1,2) j(1)]
  let ?l = "storage_lba s (c + of_nat j)"
  obtain s1 where r: "read1 E ?l buf s = Some (0, ?f (?a + j), s1)" and b: "becomes ?f s s1"
    using read1_eq[OF good_bounds(1)[OF Suc.prems(1)] l(2) Suc.prems(4)] l(1) by metis
  have len: "length (?f (?a + j)) = 512" using sec_length good_bounds(1)[OF Suc.prems(1)] by blast
  have g1: "good s1" by (rule disk_becomes_good[OF b Suc.prems(1)])
  have off: "(of_nat j * 512 :: u64) = of_nat (j * 512)" by simp
  have fp: "fill_payload src 0 (of_nat j * 512) (of_nat sz) 0 p (?f (?a + j))
      = Some (map (\<lambda>i. if j * 512 + i < sz then src ! (j * 512 + i) else 0) [0..<p] @ drop p (?f (?a + j)))"
    if "p \<le> 512" for p
    unfolding off using fill_payload_eq[OF assms(6), of 0 p "?f (?a + j)" "j * 512"] that len j assms(3,7) by simp
  have c1: "cap (dsk s1) = cap (dsk s)" using reads_same(5)[OF b] .
  obtain s2 where w: "write1 E ?l (written_sector src sz j) s1 = Some (0, s2)"
    and b2: "becomes (?f(?a + j := written_sector src sz j)) s1 s2"
    using write1_eq[OF good_bounds(1)[OF g1], of ?l "written_sector src sz j"] l c1 reads_same(1)[OF b] by auto
  have b12: "becomes (?f(?a + j := written_sector src sz j)) s s2" by (rule disk_becomes_trans[OF b b2])
  note v2 = disk_becomes_vars[OF b12]
  have g2: "good s2" by (rule disk_becomes_good[OF b12 Suc.prems(1)])
  have c2: "cap (dsk s2) = cap (dsk s)" using b12 by (simp add: disk_becomes_def)
  have fit2: "region_fits (cap (dsk s2)) s2 rs c"
    using Suc.prems(2) v2 c2 by (simp add: region_fits_def frame_bound_def)
  obtain s3 buf3 where s3: "write_sectors E src 0 (of_nat sz) False rs e c (j + 1) n (written_sector src sz j) s2 = Some (Inr c, buf3, s3)"
    "becomes (region_write (sec (dsk s2)) src sz (unat (start_storage s2) + unat c) (unat rs) (j + 1)) s2 s3"
    using Suc.IH[OF g2 fit2, of "j + 1" "written_sector src sz j"] Suc.prems(3) by auto
  have "write_sectors E src 0 (of_nat sz) False rs e c j (Suc n) buf s = Some (Inr c, buf3, s3)"
  proof (cases "j = unat rs - 1")
    case True
    then have last: "(of_nat j :: u64) = rs - 1" using last_index[OF j(2,1)] by simp
    have "fs_ptr_to_sector (map (\<lambda>i. if j * 512 + i < sz then src ! (j * 512 + i) else 0) [0..<504] @ drop 504 (?f (?a + j))) 0
        = written_sector src sz j"
      using written_sector_last[OF _ len, of sz j src] assms(7) True by simp
    then show ?thesis
      using r fp[of 504] last w s3(1) by (simp add: sector_payload_def Let_def)
  next
    case False
    then have last: "(of_nat j :: u64) \<noteq> rs - 1" using last_index[OF j(2,1)] by simp
    show ?thesis
      using r fp[of 512] last w s3(1) written_sector_inner[OF len] by (simp add: sector_payload_def Let_def)
  qed
  moreover have "becomes (region_write ?f src sz ?a (unat rs) j) s s3"
    using disk_becomes_trans[OF b12 s3(2)] v2(2) disk_becomes_sec[OF b12] region_write_step[OF j(1), of ?f ?a src sz] by simp
  ultimately show ?case by blast
qed

lemma write_inside_effect:
  assumes "good s" "region_fits (cap (dsk s)) s (ucast (e_region_size e)) (e_data_frame e)"
    and "(if n = 0 then cstrlen src else Some (unat n)) = Some sz" "sz \<le> length src"
    and "sz \<le> (unat (e_region_size e) - 1) * 512 + 504"
  obtains s' where "fs_write_file_inside E src n e s = Some (e\<lparr>e_size := of_nat sz\<rparr>, s')"
    and "becomes (region_write (sec (dsk s)) src sz (unat (start_storage s) + unat (e_data_frame e))
      (unat (e_region_size e)) 0) s s'"
proof -
  let ?r = "ucast (e_region_size e) :: u64"
  have ur: "unat ?r = unat (e_region_size e)" by (rule unat_ucast_16)
  have "unat (e_region_size e) < 2 ^ 16" using unsigned_less[of "e_region_size e"] by simp
  moreover have r0: "0 < unat ?r" using assms(2) by (simp add: region_fits_def)
  ultimately have r: "0 < unat ?r" "unat ?r \<le> 2 ^ 16" using ur by simp_all
  have nz: "?r \<noteq> 0" using r(1) by auto
  have sz: "unat (of_nat sz :: u64) = sz"
    using assms(5) r ur by (simp add: unat_of_nat take_bit_nat_eq_self)
  have cap: "\<not> fs_region_capacity ?r < of_nat sz"
    using fs_region_capacity_unat[OF r] assms(5) ur by (simp add: word_less_nat_alt sz)
  have n: "(if n = 0 then map_option of_nat (cstrlen src) else Some n) = Some (of_nat sz :: u64)"
    using assms(3) by (auto split: if_splits)
  obtain s' buf' where w: "write_sectors E src 0 (of_nat sz) False ?r e (e_data_frame e) 0 (unat ?r) (local_buf E 512 s) s
      = Some (Inr (e_data_frame e), buf', s')"
    "becomes (region_write (sec (dsk s)) src sz (unat (start_storage s) + unat (e_data_frame e)) (unat ?r) 0) s s'"
    using write_sectors_effect[OF assms(1,2) r(2), of 0 "unat ?r" "local_buf E 512 s" sz src e] assms(4,5) ur by auto
  have "write_regions E src (of_nat sz) ?r e (e_data_frame e) 0 (local_buf E 512 s) s = Some (e\<lparr>e_size := of_nat sz\<rparr>, s')"
    using w(1) cap by (subst write_regions.simps) simp
  then have "fs_write_file_inside E src n e s = Some (e\<lparr>e_size := of_nat sz\<rparr>, s')"
    using nz n by (simp add: fs_write_file_inside_def Let_def)
  then show thesis using that w(2) ur by simp
qed

section \<open>Reading out of a region\<close>

lemma region_bytes_drop:
  assumes "\<And>i. length (f i) = 512" "j < n"
  shows "take 512 (drop (j * 512) (region_bytes f a n)) = f (a + j)"
proof (rule nth_equalityI)
  fix i assume "i < length (take 512 (drop (j * 512) (region_bytes f a n)))"
  then have i: "i < 512" by simp
  then have "j * 512 + i < 512 * n" using assms(2) by simp
  then show "take 512 (drop (j * 512) (region_bytes f a n)) ! i = f (a + j) ! i"
    using nth_region_bytes[where f = f and a = a, OF assms(1), of "j * 512 + i" n] i length_region_bytes[where f = f and a = a, OF assms(1), of n] assms(2)
    by simp
qed (use assms length_region_bytes[where f = f and a = a, OF assms(1), of n] in simp)

lemma read_sectors_effect:
  assumes "good s" "region_fits (cap (dsk s)) s rs c" "j + n = unat rs" "length buf = 512"
    and "unat out = min (unat t) (j * 512)" "unat t \<le> (unat rs - 1) * 512 + 504" "unat t \<le> length buffer"
  defines "data \<equiv> region_bytes (sec (dsk s)) (unat (start_storage s) + unat c) (unat rs)"
  shows "\<exists>s' buf' nx'. read_sectors E rs c j n nx buffer out t buf s
      = Some (take (unat out) buffer @ take (unat t - unat out) (drop (unat out) data) @ drop (unat t) buffer, t, nx', buf', s') \<and>
    becomes (sec (dsk s)) s s'"
  using assms(1-7) unfolding data_def
proof (induction n arbitrary: j buf nx buffer out s)
  case 0
  have "0 < unat rs" using 0(2) by (simp add: region_fits_def)
  then have "unat out = unat t" using 0 by (simp add: min_def)
  then have "out = t" by (simp add: word_unat_eq_iff)
  then show ?case using disk_becomes_refl[of ok s sec cap] good_bounds(1)[OF 0(1)] by auto
next
  case (Suc n)
  let ?f = "sec (dsk s)" and ?a = "unat (start_storage s) + unat c"
  let ?d = "region_bytes ?f ?a (unat rs)"
  have okd: "ok (dsk s)" using good_bounds(1)[OF Suc.prems(1)] .
  have j: "j < unat rs" "0 < unat rs" using Suc.prems(3) by simp_all
  show ?case
  proof (cases "out < t")
    case False
    then have "out = t" using Suc.prems(5) by (simp add: word_unat_eq_iff word_less_nat_alt)
    then show ?thesis using disk_becomes_refl[of ok s sec cap] okd by auto
  next
    case True
    then have lt: "unat out < unat t" by (simp add: word_less_nat_alt)
    then have out: "unat out = j * 512" using Suc.prems(5) by auto
    note l = region_lba[OF Suc.prems(1,2) j(1)]
    let ?l = "storage_lba s (c + of_nat j)"
    obtain s1 where r: "read1 E ?l (fill buf 512 0) s = Some (0, ?f (?a + j), s1)" and b: "becomes ?f s s1"
      using read1_eq[OF okd l(2), of "fill buf 512 0"] l(1) Suc.prems(4) by auto
    note same = reads_same[OF b]
    have len: "length (?f (?a + j)) = 512" using sec_length okd by blast
    let ?p = "sector_payload rs j"
    have last: "(of_nat j :: u64) = rs - 1 \<longleftrightarrow> j = unat rs - 1" by (rule last_index[OF j(2,1)])
    have p: "?p \<le> 512" by (simp add: sector_payload_def)
    define m where "m = min ?p (unat t - unat out)"
    have m: "m = min 512 (unat t - unat out)"
      unfolding m_def using last Suc.prems(6) out by (auto simp: sector_payload_def)
    have mb: "m \<le> 512" "unat out + m \<le> unat t" "unat out + m \<le> length buffer"
      using m lt Suc.prems(7) by simp_all
    define bb where "bb = take (unat out) buffer @ take m (?f (?a + j)) @ drop (unat out + m) buffer"
    have cp: "copy_payload (?f (?a + j)) 0 ?p buffer out t = Some (bb, out + of_nat m)"
      using copy_payload_eq[of 0 ?p "?f (?a + j)" out buffer t] len p lt Suc.prems(7) by (simp add: Let_def m_def bb_def)
    have om: "unat (out + of_nat m) = unat out + m"
    proof -
      have "unat t < 2 ^ 64" using unsigned_less[of t] by simp
      then show ?thesis using mb(2) by (intro unat_add_64) simp
    qed
    have ou: "unat (out + of_nat m) = min (unat t) ((j + 1) * 512)"
      using om m out lt by (auto simp: min_def)
    have lb: "length bb = length buffer" using mb len by (simp add: bb_def)
    have tb: "unat t \<le> length bb" by (simp only: lb Suc.prems(7))
    have fit1: "region_fits (cap (dsk s1)) s1 rs c"
      using Suc.prems(2) same(5) disk_becomes_vars[OF b] by (simp add: region_fits_def frame_bound_def)
    have jn: "j + 1 + n = unat rs" using Suc.prems(3) by simp
    obtain s2 buf2 nx2 where s2: "read_sectors E rs c (j + 1) n
        (if of_nat j = rs - 1 then fs_ptr_from_sector (?f (?a + j)) else nx) bb (out + of_nat m) t (?f (?a + j)) s1
      = Some (take (unat out + m) bb @ take (unat t - (unat out + m)) (drop (unat out + m) ?d)
          @ drop (unat t) bb, t, nx2, buf2, s2)" "becomes ?f s1 s2"
      using Suc.IH[OF disk_becomes_good[OF b Suc.prems(1)] fit1 jn len ou Suc.prems(6) tb,
          of "if of_nat j = rs - 1 then fs_ptr_from_sector (?f (?a + j)) else nx"]
      unfolding same om by (elim exE conjE) (rule that)
    have "take 512 (drop (j * 512) ?d) = ?f (?a + j)"
      by (rule region_bytes_drop[OF sec_length[OF okd] j(1)])
    then have "take m (?f (?a + j)) = take (min m 512) (drop (unat out) ?d)"
      unfolding out by (metis take_take)
    then have "take m (?f (?a + j)) = take m (drop (unat out) ?d)"
      using mb(1) by (simp add: min_absorb1)
    moreover have "take (unat out + m) bb = take (unat out) buffer @ take m (?f (?a + j))"
      using mb len by (simp add: bb_def)
    ultimately have "take (unat out + m) bb = take (unat out) buffer @ take m (drop (unat out) ?d)" by simp
    moreover have "drop (unat t) bb = drop (unat t) buffer"
      using mb len by (simp add: bb_def)
    moreover have "take m (drop (unat out) ?d) @ take (unat t - (unat out + m)) (drop (unat out + m) ?d)
        = take (unat t - unat out) (drop (unat out) ?d)"
      using take_add[of m "unat t - (unat out + m)" "drop (unat out) ?d"] mb(2) by (simp add: add.commute)
    ultimately have "take (unat out + m) bb @ take (unat t - (unat out + m)) (drop (unat out + m) ?d) @ drop (unat t) bb
      = take (unat out) buffer @ take (unat t - unat out) (drop (unat out) ?d) @ drop (unat t) buffer"
      by (simp only: append_assoc) (simp flip: append_assoc)
    then show ?thesis using True r cp s2(1) disk_becomes_trans[OF b s2(2)] by (simp add: Let_def)
  qed
qed

lemma read_inside_effect:
  assumes "good s" "region_fits (cap (dsk s)) s (ucast (e_region_size e)) (e_data_frame e)"
    and "unat (e_size e) \<le> (unat (e_region_size e) - 1) * 512 + 504"
    and "n = read_count mx e" "n < length buffer"
  obtains s' where "fs_read_file_inside E buffer mx e s = Some (take n (file_data sec s e) @ 0 # drop (n + 1) buffer, s')"
    and "becomes (sec (dsk s)) s s'"
proof -
  let ?r = "ucast (e_region_size e) :: u64" and ?l = "if mx = 0 then fs_read_default_limit else mx"
  let ?t = "if ?l - 1 < e_size e then ?l - 1 else e_size e"
  let ?d = "region_bytes (sec (dsk s)) (unat (start_storage s) + unat (e_data_frame e)) (unat ?r)"
  have ur: "unat ?r = unat (e_region_size e)" by (rule unat_ucast_16)
  have r0: "0 < unat ?r" using assms(2) by (simp add: region_fits_def)
  have l0: "?l \<noteq> 0" by (simp add: fs_read_default_limit_def)
  have "unat (?l - 1) = unat ?l - 1" by (rule unat_minus_one[OF l0])
  then have t: "unat ?t = n" unfolding assms(4) read_count_def by (simp add: word_less_nat_alt min_def split del: if_split) (simp split: if_splits)
  have len: "length ?d = 512 * unat ?r" by (rule length_region_bytes) (rule sec_length[OF good_bounds(1)[OF assms(1)]])
  have nd: "n \<le> length ?d" using len assms(3) r0 ur unfolding assms(4) read_count_def by simp
  obtain s' buf' nx' where rd: "read_sectors E ?r (e_data_frame e) 0 (unat ?r) 0 buffer 0 ?t (local_buf E 512 s) s
      = Some (take n ?d @ drop n buffer, ?t, nx', buf', s')" and b: "becomes (sec (dsk s)) s s'"
  proof -
    have "unat ?t \<le> (unat ?r - 1) * 512 + 504" "unat ?t \<le> length buffer"
      using t assms(3,5) ur by (simp_all add: assms(4) read_count_def)
    then show thesis
      using read_sectors_effect[OF assms(1,2), of 0 "unat ?r" "local_buf E 512 s" 0 ?t buffer 0] that t by auto
  qed
  obtain s2 where s2: "read_regions E (unat ?t + 1) ?r (e_data_frame e) buffer 0 ?t (local_buf E 512 s) s
      = Some (take n ?d @ drop n buffer, ?t, s2)" and b2: "becomes (sec (dsk s)) s s2"
  proof (cases "?t = 0")
    case True
    then have "n = 0" using t by simp
    then show thesis using that[of s] True disk_becomes_refl[of ok s sec cap] good_bounds(1)[OF assms(1)] by simp
  next
    case False
    then show thesis using that[OF _ b] rd by (simp add: word_gt_0 del: word_neq_0_conv)
  qed
  have data: "take n ?d = take n (file_data sec s e)"
    by (simp add: file_data_def ur assms(4) read_count_def min.absorb1 min.left_commute take_take min_absorb1)
  have "poke (take n ?d @ drop n buffer) n 0 = Some (take n ?d @ 0 # drop (n + 1) buffer)"
    using nd assms(5) by (simp add: poke_def list_update_append Cons_nth_drop_Suc[symmetric])
  moreover have "?r \<noteq> 0" using r0 by auto
  ultimately have "fs_read_file_inside E buffer mx e s = Some (take n ?d @ 0 # drop (n + 1) buffer, s2)"
    using s2 l0 t by (simp only: fs_read_file_inside_def Let_def bind.bind_lunit case_prod_conv if_False simp_thms)
  then show thesis using that b2 data by simp
qed

end

section \<open>Tables that differ in a size\<close>

definition skel :: "fs_file_entry \<Rightarrow> fs_file_entry" where
  "skel e = e\<lparr>e_size := 0\<rparr>"

lemma skel_sel [simp]:
  "e_name (skel e) = e_name e" "e_parent_id (skel e) = e_parent_id e" "e_id (skel e) = e_id e" "e_type (skel e) = e_type e"
  "e_region_size (skel e) = e_region_size e" "e_data_frame (skel e) = e_data_frame e" "used (skel e) = used e"
  "is_file (skel e) = is_file e" "file_frames (skel e) = file_frames e"
  by (simp_all add: skel_def used_def is_file_def file_frames_def)

lemma first_idx_map: "first_idx p (map f xs) = first_idx (\<lambda>x. p (f x)) xs"
  by (induction xs) simp_all

lemma dir_map_skel: "dir_map (map skel es) = dir_map es"
proof -
  have nth: "first_idx p es = Some k \<Longrightarrow> map skel es ! k = skel (es ! k)" for p k by (simp add: first_idx_Some)
  have "dir_map (map skel es) pn = dir_map es pn" for pn
    by (cases "first_idx (\<lambda>e. used e \<and> ename e = snd pn \<and> e_parent_id e = fst pn) es")
      (simp_all add: dir_map_def first_idx_map nth)
  then show ?thesis by (rule ext)
qed

lemma max_id_skel: "max_id (map skel es) = max_id es"
  by (induction es) simp_all

lemma tree_ok_skel: "tree_ok (map skel es) = tree_ok es"
proof -
  have "is_dir_id (map skel es) = is_dir_id es" by (auto simp: is_dir_id_def fun_eq_iff)
  then have "entries_ok (map skel es) = entries_ok es" by (simp add: entries_ok_def)
  moreover have "distinct_entries (map skel es) = distinct_entries es" by (simp add: distinct_entries_def)
  moreover have "names_ok (map skel es) = names_ok es" by (simp add: names_ok_def)
  ultimately show ?thesis by (simp add: tree_ok_def)
qed

lemma regions_ok_skel: "regions_ok fits bits (map skel es) = regions_ok fits bits es"
  by (simp add: regions_ok_def)

lemma map_skel_resize: "map skel (es[k := (es ! k)\<lparr>e_size := n\<rparr>]) = map skel es"
  by (cases "k < length es") (auto intro!: nth_equalityI simp: nth_list_update skel_def)

text \<open>A table that differs in the size of one entry stands for the same tree.\<close>

lemma resize_same:
  "dir_map (es[k := (es ! k)\<lparr>e_size := n\<rparr>]) = dir_map es" "max_id (es[k := (es ! k)\<lparr>e_size := n\<rparr>]) = max_id es"
  "tree_ok (es[k := (es ! k)\<lparr>e_size := n\<rparr>]) = tree_ok es"
  "regions_ok fits bits (es[k := (es ! k)\<lparr>e_size := n\<rparr>]) = regions_ok fits bits es"
  by (metis map_skel_resize dir_map_skel, metis map_skel_resize max_id_skel, metis map_skel_resize tree_ok_skel,
      metis map_skel_resize regions_ok_skel)

section \<open>Files of a volume\<close>

text \<open>The path leads, from the directory \<open>cur\<close>, to the file in slot \<open>k\<close> of the table.\<close>

definition names_file :: "fs_file_entry list \<Rightarrow> u64 \<Rightarrow> cstring \<Rightarrow> nat \<Rightarrow> bool" where
  "names_file es cur path k \<longleftrightarrow> k < length es \<and> is_file (es ! k) \<and>
     (\<exists>apath. abs_ready es cur path apath \<and> resolve (dir_map es) (components apath) 0 = Some (e_id (es ! k)))"

text \<open>The number of bytes fits into the first region of the file.\<close>

definition one_region :: "fs_file_entry \<Rightarrow> nat \<Rightarrow> bool" where
  "one_region e n \<longleftrightarrow> n \<le> (unat (e_region_size e) - 1) * 512 + 504"

lemma region_write_data:
  assumes "sz \<le> (n - 1) * 512 + 504" "0 < n" "sz \<le> length src"
  shows "take sz (region_bytes (region_write f src sz a n 0) a n) = take sz src"
proof -
  let ?g = "\<lambda>i. if a \<le> i \<and> i < a + n then written_sector src sz (i - a) else replicate 512 0"
  have "map (region_write f src sz a n 0) [a..<a + n] = map ?g [a..<a + n]" by (simp add: region_write_def)
  then have eq: "region_bytes (region_write f src sz a n 0) a n = region_bytes ?g a n" unfolding region_bytes_def by (rule arg_cong)
  have l: "length (?g i) = 512" for i by simp
  have len: "length (region_bytes ?g a n) = 512 * n" by (rule length_region_bytes[OF l])
  show ?thesis unfolding eq
  proof (rule nth_equalityI)
    show "length (take sz (region_bytes ?g a n)) = length (take sz src)" using assms len by simp
    fix i assume "i < length (take sz (region_bytes ?g a n))"
    then have i: "i < sz" "i < 512 * n" using len by simp_all
    have "i div 512 < n" using i(2) by (simp add: less_mult_imp_div_less mult.commute)
    then have "region_bytes ?g a n ! i = written_sector src sz (i div 512) ! (i mod 512)"
      using nth_region_bytes[of ?g, OF l i(2), of a] by simp
    also have "\<dots> = src ! i" using i by (simp add: written_sector_def div_mult_mod_eq)
    finally show "take sz (region_bytes ?g a n) ! i = take sz src ! i" using i by simp
  qed
qed

text \<open>The frames of all regions of a file, in its chain.\<close>

definition all_frames :: "('d \<Rightarrow> nat \<Rightarrow> bytes) \<Rightarrow> 'd fs \<Rightarrow> fs_file_entry \<Rightarrow> nat set" where
  "all_frames sec s e = chain_frames (ucast (e_region_size e)) (file_chain sec s e)"

lemma file_data_cong:
  assumes "\<And>f. f \<in> file_frames e \<Longrightarrow> sec (dsk s') (unat (start_storage s) + f) = sec (dsk s) (unat (start_storage s) + f)"
    and "start_storage s' = start_storage s"
  shows "file_data sec s' e = file_data sec s e"
proof -
  let ?a = "unat (start_storage s) + unat (e_data_frame e)"
  have "sec (dsk s') i = sec (dsk s) i" if "i \<in> set [?a..<?a + unat (e_region_size e)]" for i
  proof -
    have "i - unat (start_storage s) \<in> file_frames e" "unat (start_storage s) + (i - unat (start_storage s)) = i"
      using that by (auto simp: file_frames_def in_region_def unat_ucast_16)
    then show ?thesis using assms(1) by metis
  qed
  then have "map (sec (dsk s')) [?a..<?a + unat (e_region_size e)] = map (sec (dsk s)) [?a..<?a + unat (e_region_size e)]"
    by simp
  then show ?thesis unfolding file_data_def region_bytes_def assms(2) by (simp only:)
qed

context block_device
begin

lemma file_path_effect:
  assumes "vol s" "names_file (fs_table sec s) cur path k"
  obtains apath s1 s2 where "path_to_abs E path cur s = Some (apath, s1)"
    and "path_to_id E apath cur s1 = Some (e_id (fs_table sec s ! k), s2)" and "step {} s s2" and "fs_idle s2"
    and "e_id (fs_table sec s ! k) \<noteq> fs_not_found" "e_id (fs_table sec s ! k) \<noteq> 0"
    and "first_idx (\<lambda>e. e_id e = e_id (fs_table sec s ! k)) (fs_table sec s) = Some k"
    and "entry_at (sec (dsk s) (unat (start_table s) + k div 8)) (k mod 8) = fs_table sec s ! k"
proof -
  let ?es = "fs_table sec s"
  from assms(1) have t: "tree_ok ?es" and g: "good s" and idle: "fs_idle s" by (simp_all add: volume_ok_def)
  obtain apath where k: "k < length ?es" "is_file (?es ! k)" and ap: "abs_ready ?es cur path apath"
    "resolve (dir_map ?es) (components apath) 0 = Some (e_id (?es ! k))"
    using assms(2) by (auto simp: names_file_def)
  have u: "used (?es ! k)" using k(2) by (simp add: is_file_def)
  obtain s1 where p: "path_to_abs E path cur s = Some (apath, s1)" "step {} s s1" "fs_idle s1"
    by (rule path_to_abs_effect[OF g idle ap(1)])
  have cs: "is_cstring apath" "length apath \<le> 1023" using abs_ready_cstring[OF ap(1)] ap(1) by (simp_all add: abs_ready_def)
  have g1: "good s1" by (rule fs_step_good[OF p(2) g])
  obtain s2 where i: "becomes (sec (dsk s1)) s1 s2" "path_to_id E apath cur s1 = Some (path_id (fs_table sec s1) apath cur, s2)"
    by (rule path_to_id_effect[OF g1 cs])
  have rel: "rel_or_abs_path apath = 0" by (rule abs_ready_absolute[OF ap(1)])
  then have nd: "apath \<noteq> [dot]" by (auto simp: rel_or_abs_path_def)
  have "path_id ?es apath cur = walk_path ?es (components apath) 0" using nd rel by (simp add: path_id_def start_id_def)
  also have "\<dots> = e_id (?es ! k)" using walk_resolve[OF t components_cstrings[OF cs(1)], of 0] ap(2) by simp
  finally have id: "path_to_id E apath cur s1 = Some (e_id (?es ! k), s2)" using i(2) fs_step_same(2)[OF p(2)] by simp
  have kk: "k < 1024" using k(1) by simp
  have "entry_at (sec (dsk s) (unat (start_table s) + k div 8)) (k mod 8) = ?es ! k"
    using nth_fs_table[OF kk, of sec s] by simp
  moreover have "step {} s s2" using fs_step_trans[OF p(2) becomes_step[OF i(1)]] by simp
  ultimately show thesis
    using that[OF p(1) id] becomes_idle[OF i(1)] p(3) entry_of_id[OF t k(1) u]
      tree_ok_used(1,2)[OF t nth_mem[OF k(1)] u] by blast
qed

lemma read_file_volume:
  assumes v: "vol s" and nf: "names_file (fs_table sec s) cur path k"
    and one: "one_region (fs_table sec s ! k) (unat (e_size (fs_table sec s ! k)))"
    and n: "n = read_count mx (fs_table sec s ! k)" "n < length buffer"
  obtains s' where "fs_read_file E path buffer mx cur s
      = Some (0, take n (file_data sec s (fs_table sec s ! k)) @ 0 # drop (n + 1) buffer, s')"
    and "step {} s s'" and "vol s'"
proof -
  let ?es = "fs_table sec s" and ?e = "fs_table sec s ! k"
  from v have t: "tree_ok ?es" and g: "good s" and idle: "fs_idle s"
    and reg: "regions_ok (region_fits (cap (dsk s)) s) (fs_bit sec s) ?es" and lid: "fs_last_id sec s = max_id ?es"
    by (simp_all add: volume_ok_def)
  obtain apath s1 s2 where p: "path_to_abs E path cur s = Some (apath, s1)" "path_to_id E apath cur s1 = Some (e_id ?e, s2)"
    "step {} s s2" "fs_idle s2" "e_id ?e \<noteq> fs_not_found" "e_id ?e \<noteq> 0"
    "first_idx (\<lambda>e. e_id e = e_id ?e) ?es = Some k" "entry_at (sec (dsk s) (unat (start_table s) + k div 8)) (k mod 8) = ?e"
    by (rule file_path_effect[OF v nf])
  note same = fs_step_same[OF p(3)] and sv = fs_step_vars[OF p(3)]
  have g2: "good s2" by (rule fs_step_good[OF p(3) g])
  obtain s3 where b3: "becomes (sec (dsk s2)) s2 s3" and st: "search_table E (\<lambda>e. e_id e = e_id ?e) s2
      = Some (Some (k div 8, k mod 8, sec (dsk s) (unat (start_table s) + k div 8)), s3)"
    using search_table_eq[OF g2, of "\<lambda>e. e_id e = e_id ?e"] same sv p(7) by auto
  have s03: "step {} s s3" using fs_step_trans[OF p(3) becomes_step[OF b3]] by simp
  have g3: "good s3" by (rule fs_step_good[OF s03 g])
  have fl: "is_file ?e" and kl: "k < length ?es" using nf by (simp_all add: names_file_def)
  have fit: "region_fits (cap (dsk s)) s (ucast (e_region_size ?e)) (e_data_frame ?e)"
    using reg nth_mem[OF kl] fl unfolding regions_ok_def by blast
  note sv3 = fs_step_vars[OF s03]
  have fit3: "region_fits (cap (dsk s3)) s3 (ucast (e_region_size ?e)) (e_data_frame ?e)"
    using fit sv3 by (simp add: region_fits_def)
  obtain s4 where rd: "fs_read_file_inside E buffer mx ?e s3
      = Some (take n (file_data sec s3 ?e) @ 0 # drop (n + 1) buffer, s4)" and b4: "becomes (sec (dsk s3)) s3 s4"
    by (rule read_inside_effect[OF g3 fit3 _ n]) (use one in \<open>simp add: one_region_def\<close>)
  have fd: "file_data sec s3 ?e = file_data sec s ?e"
    using fs_step_same(1)[OF s03] sv3 by (simp add: file_data_def)
  have ty: "e_type ?e = 2" using fl by (simp add: is_file_def)
  have "fs_read_file E path buffer mx cur s = Some (0, take n (file_data sec s ?e) @ 0 # drop (n + 1) buffer, s4)"
    using p(1,2,5,6,8) st rd ty by (simp add: fs_read_file_def fd)
  moreover have s04: "step {} s s4" using fs_step_trans[OF s03 becomes_step[OF b4]] by simp
  moreover have "vol s4"
    using v fs_step_good[OF s04 g] fs_step_same[OF s04] fs_step_vars[OF s04] becomes_idle[OF b4] becomes_idle[OF b3] p(4)
      region_fits_cong[of s4 s] by (simp add: volume_ok_def)
  ultimately show thesis by (rule that)
qed

text \<open>
  Writing changes the content and the size of the file, and nothing else: no other file, no name, no allocation.
\<close>

lemma write_file_volume:
  assumes v: "vol s" and nf: "names_file (fs_table sec s) cur path k"
    and sz: "(if n = 0 then cstrlen src else Some (unat n)) = Some sz" "sz \<le> length src" "one_region (fs_table sec s ! k) sz"
  obtains s' where "fs_write_file E path src n cur s = Some (0, s')" and "vol s'"
    and "fs_table sec s' = (fs_table sec s)[k := (fs_table sec s ! k)\<lparr>e_size := of_nat sz\<rparr>]"
    and "\<forall>f < frame_bound s. fs_bit sec s' f = fs_bit sec s f"
    and "file_data sec s' (fs_table sec s' ! k) = take sz src"
    and "\<forall>j < 1024. j \<noteq> k \<longrightarrow> is_file (fs_table sec s ! j) \<longrightarrow>
           file_data sec s' (fs_table sec s' ! j) = file_data sec s (fs_table sec s ! j)"
    and "same_geometry cap s s'"
    and "\<forall>i. i \<notin> table_sectors s \<longrightarrow> i \<notin> (+) (unat (start_storage s)) ` file_frames (fs_table sec s ! k) \<longrightarrow>
           sec (dsk s') i = sec (dsk s) i"
    and "\<forall>e. 0 < unat (e_region_size e) \<longrightarrow> all_frames sec s e \<inter> file_frames (fs_table sec s ! k) = {} \<longrightarrow>
           file_chain sec s' e = file_chain sec s e \<and>
           (\<forall>f \<in> all_frames sec s e. sec (dsk s') (unat (start_storage s) + f) = sec (dsk s) (unat (start_storage s) + f))"
proof -
  let ?es = "fs_table sec s" and ?e = "fs_table sec s ! k"
  from v have t: "tree_ok ?es" and g: "good s" and idle: "fs_idle s"
    and reg: "regions_ok (region_fits (cap (dsk s)) s) (fs_bit sec s) ?es" and lid: "fs_last_id sec s = max_id ?es"
    by (simp_all add: volume_ok_def)
  obtain apath s1 s2 where p: "path_to_abs E path cur s = Some (apath, s1)" "path_to_id E apath cur s1 = Some (e_id ?e, s2)"
    "step {} s s2" "fs_idle s2" "e_id ?e \<noteq> fs_not_found" "e_id ?e \<noteq> 0"
    "first_idx (\<lambda>e. e_id e = e_id ?e) ?es = Some k" "entry_at (sec (dsk s) (unat (start_table s) + k div 8)) (k mod 8) = ?e"
    by (rule file_path_effect[OF v nf])
  note same = fs_step_same[OF p(3)] and sv = fs_step_vars[OF p(3)]
  have g2: "good s2" by (rule fs_step_good[OF p(3) g])
  let ?b = "sec (dsk s) (unat (start_table s) + k div 8)"
  obtain s3 where b3: "becomes (sec (dsk s2)) s2 s3" and st: "search_table E (\<lambda>e. e_id e = e_id ?e) s2
      = Some (Some (k div 8, k mod 8, ?b), s3)"
    using search_table_eq[OF g2, of "\<lambda>e. e_id e = e_id ?e"] same sv p(7) by auto
  have s03: "step {} s s3" using fs_step_trans[OF p(3) becomes_step[OF b3]] by simp
  have g3: "good s3" by (rule fs_step_good[OF s03 g])
  note sv3 = fs_step_vars[OF s03] and same3 = fs_step_same[OF s03]
  have fl: "is_file ?e" and kl: "k < length ?es" using nf by (simp_all add: names_file_def)
  have fit: "region_fits (cap (dsk s)) s (ucast (e_region_size ?e)) (e_data_frame ?e)"
    using reg nth_mem[OF kl] fl unfolding regions_ok_def by blast
  have fit3: "region_fits (cap (dsk s3)) s3 (ucast (e_region_size ?e)) (e_data_frame ?e)"
    using fit sv3 by (simp add: region_fits_def)
  let ?a = "unat (start_storage s) + unat (e_data_frame ?e)" and ?n = "unat (e_region_size ?e)"
  let ?g = "region_write (sec (dsk s)) src sz ?a ?n 0" and ?e' = "?e\<lparr>e_size := of_nat sz\<rparr>"
  obtain s4 where w: "fs_write_file_inside E src n ?e s3 = Some (?e', s4)" and b4: "becomes ?g s3 s4"
    using write_inside_effect[OF g3 fit3 sz(1,2)] sz(3) same3(1) sv3(2) by (auto simp: one_region_def)
  have g4: "good s4" by (rule disk_becomes_good[OF b4 g3])
  define R where "R = {?a..<?a + ?n}"
  have ch4: "changes R s3 s4" by (rule becomes_changes[OF b4]) (auto simp: same3(1) region_write_def R_def)
  have far: "unat (start_storage s) \<le> i" if "i \<in> R" for i using that by (simp add: R_def)
  have tb: "table_sectors s \<inter> R = {}" "bitmap_sectors s \<inter> R = {}"
    using far good_layout[OF g] by (force simp: table_sectors_def bitmap_sectors_def)+
  have s4v: "start_table s4 = start_table s" using fs_changes_vars(1)[OF ch4] sv3 by simp
  have blk: "sec (dsk s4) (unat (start_table s4) + k div 8) = ?b"
    using disk_becomes_sec[OF b4] s4v good_layout[OF g] kl by (auto simp: region_write_def)
  have wf: "wf_entry ?e'"
  proof -
    have "length (e_name ?e) = 24" using t nth_mem[OF kl] unfolding tree_ok_def names_ok_def by blast
    then show ?thesis by (simp add: wf_entry_def)
  qed
  obtain s5 where w5: "write1 E (table_lba s4 (k div 8)) (put_entry ?b (k mod 8) ?e') s4 = Some (0, s5)"
    and ch5: "changes (table_sectors s4) s4 s5" and t5: "fs_table sec s5 = (fs_table sec s4)[k := ?e']"
    using put_slot[OF g4 _ wf, of k] kl unfolding blk by auto
  have run: "fs_write_file E path src n cur s = Some (0, s5)"
    using p(1,2,5,6,8) st w w5 fl by (simp add: fs_write_file_def is_file_def)
  have tv: "table_sectors s4 = table_sectors s" using s4v by (simp add: table_sectors_def)
  have s05: "step (R \<union> table_sectors s) s s5"
    using fs_step_trans[OF s03 changes_step[OF fs_changes_trans[OF ch4 ch5]]] tv by simp
  note sv5 = fs_step_vars[OF s05]
  have t4: "fs_table sec s4 = ?es"
    using fs_changes_table[OF ch4] same3(2) sv3 tb by (simp add: table_sectors_def Int_commute)
  have tab: "fs_table sec s5 = ?es[k := ?e']" using t5 t4 by simp
  have bits: "\<forall>f < frame_bound s. fs_bit sec s5 f = fs_bit sec s f"
    using fs_step_bit[OF s05] tb sectors_disjoint(1)[OF good_bounds(3)[OF g]] by (metis Int_Un_distrib2 Int_commute Un_empty)
  have "fs_last_id sec s5 = fs_last_id sec s"
    using far good_layout[OF g] by (intro fs_step_last_id[OF s05]) (force simp: table_sectors_def id_sector_def)
  moreover have "regions_ok (region_fits (cap (dsk s)) s) (fs_bit sec s5) (?es[k := ?e'])"
    by (rule regions_ok_same_bits[OF _ bits]) (simp add: resize_same reg)
  moreover have "fs_idle s5" using changes_idle[OF ch5] changes_idle[OF ch4] becomes_idle[OF b3] p(4) by simp
  ultimately have vol5: "vol s5"
    using fs_step_good[OF s05 g] region_fits_cong[of s5 s] sv5 t lid unfolding volume_ok_def tab
    by (simp add: resize_same)
  have sec5: "sec (dsk s5) i = ?g i" if "unat (start_storage s) \<le> i" for i
  proof -
    have "i \<notin> table_sectors s4" using that good_layout[OF g] by (simp add: tv) (simp add: table_sectors_def)
    then show ?thesis using fs_changes_sec[OF ch5] disk_becomes_sec[OF b4] by simp
  qed
  have n0: "0 < ?n" using fit by (simp add: region_fits_def unat_ucast_16)
  have un: "unat (of_nat sz :: u64) = sz"
  proof -
    have "?n < 2 ^ 16" using unsigned_less[of "e_region_size ?e"] by simp
    then show ?thesis using sz(3) by (simp add: one_region_def unat_of_nat take_bit_nat_eq_self)
  qed
  have "map (sec (dsk s5)) [?a..<?a + ?n] = map ?g [?a..<?a + ?n]" by (rule map_cong[OF refl]) (simp add: sec5)
  then have "region_bytes (sec (dsk s5)) ?a ?n = region_bytes ?g ?a ?n" unfolding region_bytes_def by (simp only:)
  then have mine: "file_data sec s5 (fs_table sec s5 ! k) = take sz src"
    using region_write_data[of sz ?n src "sec (dsk s)" ?a] sz(2,3) n0 kl sv5 tab
    by (simp add: file_data_def un one_region_def)
  have other: "file_data sec s5 (fs_table sec s5 ! j) = file_data sec s (?es ! j)"
    if j: "j < 1024" "j \<noteq> k" "is_file (?es ! j)" for j
  proof -
    have "file_frames (?es ! j) \<inter> file_frames ?e = {}" using reg j kl fl unfolding regions_ok_def by simp
    then have "sec (dsk s5) (unat (start_storage s) + f) = sec (dsk s) (unat (start_storage s) + f)"
      if "f \<in> file_frames (?es ! j)" for f
      using that sec5[of "unat (start_storage s) + f"]
      by (auto simp: region_write_def file_frames_def in_region_def unat_ucast_16 disjoint_iff)
    then show ?thesis using j tab sv5 file_data_cong[of "?es ! j" sec s5 s] by simp
  qed
  have R: "R = (+) (unat (start_storage s)) ` file_frames ?e"
  proof -
    have "i \<in> (+) (unat (start_storage s)) ` file_frames ?e" if "i \<in> R" for i
      by (rule image_eqI[of _ _ "i - unat (start_storage s)"])
        (use that in \<open>auto simp: R_def file_frames_def in_region_def unat_ucast_16\<close>)
    then show ?thesis by (auto simp: R_def file_frames_def in_region_def unat_ucast_16)
  qed
  have outside: "\<forall>i. i \<notin> table_sectors s \<longrightarrow> i \<notin> (+) (unat (start_storage s)) ` file_frames ?e \<longrightarrow>
      sec (dsk s5) i = sec (dsk s) i"
    using fs_step_sec[OF s05] unfolding R by blast
  have chains: "file_chain sec s5 e = file_chain sec s e \<and>
      (\<forall>f \<in> all_frames sec s e. sec (dsk s5) (unat (start_storage s) + f) = sec (dsk s) (unat (start_storage s) + f))"
    if e: "0 < unat (e_region_size e)" "all_frames sec s e \<inter> file_frames ?e = {}" for e
  proof -
    have keep: "sec (dsk s5) (unat (start_storage s) + f) = sec (dsk s) (unat (start_storage s) + f)"
      if "f \<in> all_frames sec s e" for f
    proof -
      have "unat (start_storage s) + f \<notin> table_sectors s" using good_layout[OF g] by (auto simp: table_sectors_def)
      moreover have "unat (start_storage s) + f \<notin> (+) (unat (start_storage s)) ` file_frames ?e" using that e(2) by auto
      ultimately show ?thesis using outside by blast
    qed
    then have "file_chain sec s5 e = file_chain sec s e"
      using e(1) region_chain_cong[of "ucast (e_region_size e)" "sec (dsk s)" "unat (start_storage s)" _ _ "sec (dsk s5)"] sv5
      by (auto simp: file_chain_def all_frames_def unat_ucast_16)
    then show ?thesis using keep by blast
  qed
  show thesis by (rule that[OF run vol5 tab bits mine]) (use other step_geometry[OF s05] outside chains in blast)+
qed

end

end
