(* ===== verification/FsSuper.thy ===== *)
theory FsSuper
  imports FsFile
begin

text \<open>
  The superblock of \<open>fs.c\<close>, the layout computed from the size of the disk, formatting and \<open>fs_init\<close>. What
  \<open>fs_write_retry\<close> and \<open>fs_init\<close> print on the debug port is left out.
\<close>

section \<open>The superblock\<close>

definition fs_sb_version :: u64 where
  "fs_sb_version = 1"

definition fs_sb_payload_bytes :: nat where
  "fs_sb_payload_bytes = 56"

definition sb_put64 :: "bytes \<Rightarrow> nat \<Rightarrow> u64 \<Rightarrow> bytes" where
  "sb_put64 b off v = fold (\<lambda>i b. b[off + i := ucast (drop_bit (i * 8) v)]) [0..<8] b"

definition sb_get64 :: "bytes \<Rightarrow> nat \<Rightarrow> u64" where
  "sb_get64 b off = fold (\<lambda>i v. v OR push_bit (i * 8) (ucast (b ! (off + i)))) [0..<8] 0"

definition sb_checksum :: "bytes \<Rightarrow> u64" where
  "sb_checksum b = fold (\<lambda>i h. (h XOR ucast (b ! i)) * 1099511628211)
     [0..<fs_sb_payload_bytes] 14695981039346656037"

definition sb_magic :: bytes where
  "sb_magic = ascii ''SIMPLEFS''"

definition sb_magic_ok :: "bytes \<Rightarrow> int" where
  "sb_magic_ok b = (if list_all (\<lambda>i. b ! i = sb_magic ! i) [0..<8] then 1 else 0)"

section \<open>Layout\<close>

definition fs_compute_layout :: "u64 \<Rightarrow> 'd fs \<Rightarrow> 'd fs" where
  "fs_compute_layout total_sectors s =
     (let s = s\<lparr>sectors := total_sectors\<rparr>;
          s = s\<lparr>fs_data_bitmap_size_sectors := (sectors s div 8 div 8 + 511) div 512\<rparr>;
          s = s\<lparr>start_table := fs_data_bitmap_size_sectors s + 2\<rparr>;
          s = s\<lparr>start_storage := start_table s + of_nat fs_table_size_sectors\<rparr>
      in s)"

section \<open>Writing with retries\<close>

text \<open>\<open>n\<close> attempts are left and \<open>r\<close> is the result of the last one.\<close>

fun write_attempts :: "'d ata_h \<Rightarrow> u32 \<Rightarrow> bytes \<Rightarrow> nat \<Rightarrow> int \<Rightarrow> 'd fs \<Rightarrow> (int \<times> 'd fs) option" where
  "write_attempts E lba buf 0 r s = Some (r, s)"
| "write_attempts E lba buf (Suc n) r s = do {
     (r, s) \<leftarrow> write1 E lba buf s;
     if r = 0 then Some (0, s) else write_attempts E lba buf n r s }"

definition fs_write_retry :: "'d ata_h \<Rightarrow> u32 \<Rightarrow> bytes \<Rightarrow> 'd fs \<Rightarrow> (int \<times> 'd fs) option" where
  "fs_write_retry E lba buf s = write_attempts E lba buf 5 0 s"

definition superblock :: "'d fs \<Rightarrow> bytes" where
  "superblock s =
     (let sb = fill (replicate 512 0) 512 0;
          sb = copy_into sb 0 sb_magic 8;
          sb = sb_put64 sb 8 fs_sb_version;
          sb = sb_put64 sb 16 (sectors s);
          sb = sb_put64 sb 24 (fs_data_bitmap_size_sectors s);
          sb = sb_put64 sb 32 (start_table s);
          sb = sb_put64 sb 40 (start_storage s);
          sb = sb_put64 sb 48 (of_nat fs_table_size_sectors)
      in sb_put64 sb 56 (sb_checksum sb))"

definition fs_write_superblock :: "'d ata_h \<Rightarrow> 'd fs \<Rightarrow> (int \<times> 'd fs) option" where
  "fs_write_superblock E s = fs_write_retry E 0 (superblock s) s"

text \<open>The checks of \<open>fs_load_superblock\<close> on the sector it read, and the assignments that follow.\<close>

definition superblock_ok :: "bytes \<Rightarrow> u64 \<Rightarrow> bool" where
  "superblock_ok sb disk_sectors \<longleftrightarrow>
     sb_magic_ok sb \<noteq> 0 \<and> sb_get64 sb 56 = sb_checksum sb \<and> sb_get64 sb 8 = fs_sb_version \<and>
     (let sb_total = sb_get64 sb 16; sb_bitmap = sb_get64 sb 24; sb_table = sb_get64 sb 32;
          sb_storage = sb_get64 sb 40; sb_tsecs = sb_get64 sb 48
      in sb_tsecs = of_nat fs_table_size_sectors \<and>
         sb_table = sb_bitmap + 2 \<and> sb_storage = sb_table + sb_tsecs \<and>
         \<not> disk_sectors < sb_total \<and> sb_storage < sb_total)"

definition fs_load_superblock :: "'d ata_h \<Rightarrow> u64 \<Rightarrow> 'd fs \<Rightarrow> (int \<times> 'd fs) option" where
  "fs_load_superblock E disk_sectors s = do {
     (st, sb, s) \<leftarrow> read1 E 0 (local_buf E 512 s) s;
     if st \<noteq> 0 \<or> \<not> superblock_ok sb disk_sectors then Some (0, s)
     else Some (1, s\<lparr>sectors := sb_get64 sb 16, fs_data_bitmap_size_sectors := sb_get64 sb 24,
                     start_table := sb_get64 sb 32, start_storage := sb_get64 sb 40\<rparr>) }"

section \<open>Formatting\<close>

text \<open>\<open>for (i = 0; i < n; i++) if (fs_write_retry((uint32_t)(base + i), zero_sector) != 0) return -1;\<close>\<close>

fun zero_sectors :: "'d ata_h \<Rightarrow> u64 \<Rightarrow> nat \<Rightarrow> nat \<Rightarrow> 'd fs \<Rightarrow> (int \<times> 'd fs) option" where
  "zero_sectors E base i 0 s = Some (0, s)"
| "zero_sectors E base i (Suc n) s = do {
     (r, s) \<leftarrow> fs_write_retry E (ucast (base + of_nat i)) (replicate 512 0) s;
     if r \<noteq> 0 then Some (-1, s) else zero_sectors E base (i + 1) n s }"

definition fs_format :: "'d ata_h \<Rightarrow> 'd fs \<Rightarrow> (int \<times> 'd fs) option" where
  "fs_format E s = do {
     (r, s) \<leftarrow> fs_write_retry E 0 (replicate 512 0) s;
     if r \<noteq> 0 then Some (-1, s) else do {
     (r, s) \<leftarrow> zero_sectors E 1 0 (unat (fs_data_bitmap_size_sectors s)) s;
     if r \<noteq> 0 then Some (-1, s) else do {
     (r, s) \<leftarrow> zero_sectors E (start_table s) 0 fs_table_size_sectors s;
     if r \<noteq> 0 then Some (-1, s) else do {
     (r, s) \<leftarrow> fs_write_retry E (ucast (start_table s - 1)) (replicate 512 0) s;
     if r \<noteq> 0 then Some (-1, s) else fs_write_superblock E s } } } }"

section \<open>Start\<close>

text \<open>The number of sectors in the identification data: the 48-bit count, or the 28-bit one.\<close>

definition ident_total :: "u16 list \<Rightarrow> u64" where
  "ident_total ident =
     (let s48 = ucast (ident ! 100) OR push_bit 16 (ucast (ident ! 101))
              OR push_bit 32 (ucast (ident ! 102)) OR push_bit 48 (ucast (ident ! 103));
          s28 = ucast (ident ! 60) OR push_bit 16 (ucast (ident ! 61))
      in if s48 \<noteq> 0 then s48 else s28)"

definition fs_init :: "'d ata_h \<Rightarrow> 'd fs \<Rightarrow> (int \<times> 'd fs) option" where
  "fs_init E s = do {
     let s = s\<lparr>fs_is_new := 0\<rparr>;
     (id_stat, ident, d) \<leftarrow> identify E (replicate 256 0) (dsk s);
     let s = s\<lparr>dsk := d\<rparr>;
     let total = (if id_stat = 1 then ident_total ident else 0);
     if total = 0 then Some (-1, fs_compute_layout 0 s)
     else do {
       (loaded, s) \<leftarrow> fs_load_superblock E total s;
       if loaded \<noteq> 0 then do {
         s \<leftarrow> reload_last_id_to_disk E s;
         Some (1, s) }
       else do {
         let s = fs_compute_layout total s;
         (r, s) \<leftarrow> fs_format E s;
         if r \<noteq> 0 then Some (-1, s)
         else Some (0, s\<lparr>fs_is_new := 1\<rparr>) } } }"

end
