(* ===== verification/FsFormat.thy ===== *)
theory FsFormat
  imports FsData FsSuper
begin

text \<open>
  Formatting and mounting: what \<open>fs_format\<close> and \<open>fs_init\<close> leave on a working disk, the superblock that is read back, and the
  identification of the drive.
\<close>

section \<open>The superblock\<close>

lemma sb_put64_put_u64: "sb_put64 = put_u64"
  by (intro ext) (simp add: sb_put64_def put_u64_def)

lemma sb_get64_eq:
  assumes "off + 8 \<le> length b"
  shows "sb_get64 b off = le_word (take 8 (drop off b))"
proof -
  have "take 8 (drop off b) = [b ! off, b ! (off + 1), b ! (off + 2), b ! (off + 3), b ! (off + 4),
      b ! (off + 5), b ! (off + 6), b ! (off + 7)]"
    using assms by (intro nth_equalityI) (auto simp: nth_Cons' less_Suc_eq numeral_eq_Suc)
  moreover have "[0..<8] = [0, 1, 2, 3, 4, 5, 6, 7 :: nat]" by (simp add: upt_rec)
  ultimately show ?thesis
    by (simp add: sb_get64_def push_bit_or or.assoc or.commute or.left_commute)
qed

lemma sb_get64_u64_at: "off + 8 \<le> length b \<Longrightarrow> sb_get64 b off = u64_at b off"
  by (simp add: sb_get64_eq u64_at_eq)

lemma nth_put_u64: "off + 8 \<le> length b \<Longrightarrow> i < off \<or> off + 8 \<le> i \<Longrightarrow> put_u64 b off v ! i = b ! i"
  by (auto simp: put_u64_eq copy_into_eq nth_append min_def)

lemma sb_checksum_cong: "(\<And>i. i < 56 \<Longrightarrow> a ! i = b ! i) \<Longrightarrow> sb_checksum a = sb_checksum b"
  unfolding sb_checksum_def fs_sb_payload_bytes_def by (intro fold_cong) auto

definition superblock_fields :: "'d fs \<Rightarrow> bytes" where
  "superblock_fields s = put_u64 (put_u64 (put_u64 (put_u64 (put_u64 (put_u64
     (copy_into (replicate 512 0) 0 sb_magic 8) 8 fs_sb_version) 16 (sectors s)) 24 (fs_data_bitmap_size_sectors s))
     32 (start_table s)) 40 (start_storage s)) 48 (of_nat fs_table_size_sectors)"

lemma superblock_eq: "superblock s = put_u64 (superblock_fields s) 56 (sb_checksum (superblock_fields s))"
proof -
  have "fill (replicate 512 0) 512 0 = replicate 512 (0 :: u8)" by simp
  then show ?thesis by (simp add: superblock_def superblock_fields_def sb_put64_put_u64 Let_def)
qed

lemma length_superblock [simp]: "length (superblock_fields s) = 512" "length (superblock s) = 512"
  by (simp_all add: superblock_eq superblock_fields_def)

lemma superblock_get:
  "sb_get64 (superblock s) 8 = fs_sb_version" "sb_get64 (superblock s) 16 = sectors s"
  "sb_get64 (superblock s) 24 = fs_data_bitmap_size_sectors s" "sb_get64 (superblock s) 32 = start_table s"
  "sb_get64 (superblock s) 40 = start_storage s" "sb_get64 (superblock s) 48 = of_nat fs_table_size_sectors"
  "sb_get64 (superblock s) 56 = sb_checksum (superblock_fields s)"
  by (simp_all add: superblock_eq sb_get64_u64_at u64_at_put_u64_apart superblock_fields_def)

lemma superblock_checksum: "sb_checksum (superblock s) = sb_checksum (superblock_fields s)"
  by (rule sb_checksum_cong) (simp add: superblock_eq nth_put_u64)

lemma superblock_magic: "sb_magic_ok (superblock s) = 1"
proof -
  have "superblock s ! i = sb_magic ! i" if "i < 8" for i
    using that by (simp add: superblock_eq superblock_fields_def nth_put_u64 store_simps)
  then show ?thesis by (simp add: sb_magic_ok_def list_all_iff)
qed

text \<open>The checks of \<open>fs_load_superblock\<close> accept the superblock of a layout that fits on the disk.\<close>

lemma superblock_ok_superblock:
  assumes "layout_ok n s" "n \<le> 2 ^ 28" "sectors s \<le> disk_n"
  shows "superblock_ok (superblock s) disk_n"
proof -
  note l = layout_bounds[OF assms(1,2)]
  have t: "start_table s = fs_data_bitmap_size_sectors s + 2"
    using l by (simp add: word_unat_eq_iff unat_word_ariths)
  have st: "unat (start_storage s) = unat (start_table s) + 128" "unat (start_storage s) < unat (sectors s)"
    using assms(1) by (simp_all add: layout_ok_def)
  then have "start_storage s = start_table s + 128"
    using l by (simp add: word_unat_eq_iff unat_word_ariths)
  moreover have "start_storage s < sectors s" using st(2) by (simp add: word_less_nat_alt)
  ultimately show ?thesis using t assms(3)
    by (simp add: superblock_ok_def superblock_get superblock_checksum superblock_magic Let_def not_less)
qed

section \<open>Writing runs of empty sectors\<close>

definition zeroed :: "(nat \<Rightarrow> bytes) \<Rightarrow> nat set \<Rightarrow> nat \<Rightarrow> bytes" where
  "zeroed f R i = (if i \<in> R then replicate 512 0 else f i)"

lemma zeroed_empty [simp]: "zeroed f {} = f"
  by (simp add: zeroed_def fun_eq_iff)

lemma zeroed_upd: "(zeroed f R)(i := replicate 512 0) = zeroed f (insert i R)"
  by (auto simp: zeroed_def)

lemma zeroed_zeroed: "zeroed (zeroed f R) Q = zeroed f (R \<union> Q)"
  by (auto simp: zeroed_def fun_eq_iff)

context block_device
begin

lemma write_retry_effect:
  assumes "ok (dsk s)" "unat l < cap (dsk s)" "length b = 512"
  obtains s' where "fs_write_retry E l b s = Some (0, s')" "becomes ((sec (dsk s))(unat l := b)) s s'"
proof -
  obtain s' where s': "write1 E l b s = Some (0, s')" "becomes ((sec (dsk s))(unat l := b)) s s'"
    by (rule write1_eq[OF assms])
  have "fs_write_retry E l b s = write_attempts E l b (Suc 4) 0 s" by (simp add: fs_write_retry_def)
  also have "\<dots> = Some (0, s')" using s'(1) by (simp only: write_attempts.simps) simp
  finally show thesis using that s'(2) by blast
qed

lemma zero_sectors_effect:
  assumes "ok (dsk s)" "unat base + i + n \<le> cap (dsk s)"
  shows "\<exists>s'. zero_sectors E base i n s = Some (0, s') \<and>
    becomes (zeroed (sec (dsk s)) {unat base + i..<unat base + i + n}) s s'"
  using assms
proof (induction n arbitrary: i s)
  case 0
  then show ?case by (auto intro: disk_becomes_refl)
next
  case (Suc n)
  have c: "cap (dsk s) \<le> 2 ^ 28" using cap_bound Suc.prems(1) by blast
  have "unat (base + of_nat i) = unat base + i" using c Suc.prems(2) by (intro unat_add_64) simp
  then have l: "unat (ucast (base + of_nat i) :: u32) = unat base + i" using c Suc.prems(2) by (simp add: unat_ucast_32)
  obtain s1 where r: "fs_write_retry E (ucast (base + of_nat i)) (replicate 512 0) s = Some (0, s1)"
    and b: "becomes (zeroed (sec (dsk s)) {unat base + i}) s s1"
    using write_retry_effect[OF Suc.prems(1), of "ucast (base + of_nat i)" "replicate 512 0"] l Suc.prems(2)
      zeroed_upd[of "sec (dsk s)" "{}"] by auto
  have "ok (dsk s1)" "cap (dsk s1) = cap (dsk s)" using b by (simp_all add: disk_becomes_def)
  then obtain s2 where s2: "zero_sectors E base (i + 1) n s1 = Some (0, s2)"
    "becomes (zeroed (sec (dsk s1)) {unat base + (i + 1)..<unat base + (i + 1) + n}) s1 s2"
    using Suc.IH[of s1 "i + 1"] Suc.prems(2) by auto
  have "{unat base + i} \<union> {unat base + (i + 1)..<unat base + (i + 1) + n} = {unat base + i..<unat base + i + Suc n}"
    by auto
  then have "becomes (zeroed (sec (dsk s)) {unat base + i..<unat base + i + Suc n}) s s2"
    using disk_becomes_trans[OF b s2(2)] disk_becomes_sec[OF b] by (simp add: zeroed_zeroed)
  then show ?case using r s2(1) by auto
qed

text \<open>After \<open>fs_format\<close> the bitmap, the table and the sector of the last id are empty and the superblock describes the layout.\<close>

lemma format_effect:
  assumes "good s"
  obtains s' where "fs_format E s = Some (0, s')"
    and "becomes ((zeroed (sec (dsk s)) {0..<unat (start_storage s)})(0 := superblock s)) s s'"
proof -
  let ?f = "sec (dsk s)" and ?z = "replicate 512 0 :: bytes"
  note gl = good_layout[OF assms] and gb = good_bounds[OF assms]
  have step: "ok (dsk s1) \<and> cap (dsk s1) = cap (dsk s) \<and> good s1 \<and> start_table s1 = start_table s \<and>
      fs_data_bitmap_size_sectors s1 = fs_data_bitmap_size_sectors s \<and> superblock s1 = superblock s"
    if b: "becomes f s s1" for f s1
    using that disk_becomes_good[OF b assms] disk_becomes_vars[OF b]
    by (simp add: disk_becomes_def superblock_def)
  obtain s1 where 1: "fs_write_retry E 0 ?z s = Some (0, s1)" and b1: "becomes (zeroed ?f {0}) s s1"
    using write_retry_effect[OF gb(1), of 0 ?z] gl zeroed_upd[of ?f "{}"] by auto
  note v1 = step[OF b1]
  obtain s2 where 2: "zero_sectors E 1 0 (unat (fs_data_bitmap_size_sectors s1)) s1 = Some (0, s2)"
    and "becomes (zeroed (sec (dsk s1)) {unat (1 :: u64) + 0..<unat (1 :: u64) + 0 + unat (fs_data_bitmap_size_sectors s1)}) s1 s2"
    using zero_sectors_effect[of s1 1 0 "unat (fs_data_bitmap_size_sectors s1)"] v1 gl by auto
  then have b2: "becomes (zeroed ?f (insert 0 (bitmap_sectors s))) s s2"
    using disk_becomes_trans[OF b1] disk_becomes_sec[OF b1] v1 by (simp add: zeroed_zeroed bitmap_sectors_def)
  note v2 = step[OF b2]
  obtain s3 where 3: "zero_sectors E (start_table s2) 0 fs_table_size_sectors s2 = Some (0, s3)"
    and "becomes (zeroed (sec (dsk s2)) {unat (start_table s2) + 0..<unat (start_table s2) + 0 + 128}) s2 s3"
    using zero_sectors_effect[of s2 "start_table s2" 0 128] v2 gl by auto
  then have b3: "becomes (zeroed ?f (insert 0 (bitmap_sectors s \<union> table_sectors s))) s s3"
    using disk_becomes_trans[OF b2] disk_becomes_sec[OF b2] v2 by (simp add: zeroed_zeroed table_sectors_def)
  note v3 = step[OF b3]
  have "unat (start_table s - 1) = unat (start_table s) - 1"
    using gl by (intro unat_minus_one) auto
  then have l: "unat (ucast (start_table s3 - 1) :: u32) = unat (start_table s) - 1" using gl v3 by (simp add: unat_ucast_32)
  obtain s4 where 4: "fs_write_retry E (ucast (start_table s3 - 1)) ?z s3 = Some (0, s4)"
    and "becomes ((sec (dsk s3))(unat (start_table s) - 1 := ?z)) s3 s4"
  proof -
    have "unat (ucast (start_table s3 - 1) :: u32) < cap (dsk s3)" unfolding l using v3 gl by simp
    then show thesis using write_retry_effect[of s3 "ucast (start_table s3 - 1)" ?z] v3 that unfolding l by auto
  qed
  moreover have "insert (unat (start_table s) - 1) (insert 0 (bitmap_sectors s \<union> table_sectors s)) = {0..<unat (start_storage s)}"
    using gl by (auto simp: bitmap_sectors_def table_sectors_def)
  ultimately have b4: "becomes (zeroed ?f {0..<unat (start_storage s)}) s s4"
    using disk_becomes_trans[OF b3] disk_becomes_sec[OF b3] by (simp add: zeroed_upd)
  note v4 = step[OF b4]
  obtain s5 where 5: "fs_write_retry E 0 (superblock s) s4 = Some (0, s5)"
    and "becomes ((sec (dsk s4))(0 := superblock s)) s4 s5"
    using write_retry_effect[of s4 0 "superblock s"] v4 gl by auto
  then have "becomes ((zeroed ?f {0..<unat (start_storage s)})(0 := superblock s)) s s5"
    using disk_becomes_trans[OF b4] disk_becomes_sec[OF b4] by simp
  moreover have "fs_format E s = Some (0, s5)"
    using 1 2 3 4 5 v4 by (simp add: fs_format_def fs_write_superblock_def)
  ultimately show thesis using that by blast
qed

lemma load_effect:
  assumes "ok (dsk s)" "0 < cap (dsk s)"
  obtains s1 where "becomes (sec (dsk s)) s s1"
    and "fs_load_superblock E n s = (let sb = sec (dsk s) 0 in
      if superblock_ok sb n then Some (1, s1\<lparr>sectors := sb_get64 sb 16, fs_data_bitmap_size_sectors := sb_get64 sb 24,
        start_table := sb_get64 sb 32, start_storage := sb_get64 sb 40\<rparr>) else Some (0, s1))"
proof -
  obtain s1 where "read1 E 0 (local_buf E 512 s) s = Some (0, sec (dsk s) 0, s1)" "becomes (sec (dsk s)) s s1"
    using read1_eq[OF assms(1), of 0 "local_buf E 512 s"] assms(2) by auto
  then show thesis using that[of s1] by (simp add: fs_load_superblock_def Let_def)
qed

end

section \<open>Mounting\<close>

lemma fresh_table:
  assumes "\<And>i. st \<le> i \<Longrightarrow> i < st + 128 \<Longrightarrow> f i = replicate 512 0"
  shows "table_of f st = replicate 1024 zero_entry"
  by (rule nth_equalityI) (use assms in \<open>simp_all add: nth_table_of entry_at_zeros\<close>)

lemma max_id_zeros [simp]: "max_id (replicate n zero_entry) = 0"
  by (induction n) (simp_all add: zero_entry_def)

lemma empty_table:
  "tree_ok (replicate n zero_entry)" "dir_map (replicate n zero_entry) = Map.empty"
  "regions_ok fits bits (replicate n zero_entry)"
proof -
  have u: "\<not> used zero_entry" by (simp add: used_def zero_entry_def)
  show "tree_ok (replicate n zero_entry)"
    using u by (auto simp: tree_ok_def names_ok_def entries_ok_def distinct_entries_def) (simp_all add: zero_entry_def)
  have "dir_map (replicate n zero_entry) pn = None" for pn
    using u by (cases pn) (auto simp: dir_map_None)
  then show "dir_map (replicate n zero_entry) = Map.empty" by (simp add: fun_eq_iff)
  show "regions_ok fits bits (replicate n zero_entry)" by (simp add: regions_ok_def)
qed

lemma compute_layout_sel [simp]:
  "dsk (fs_compute_layout n s) = dsk s" "fs_idle (fs_compute_layout n s) = fs_idle s"
  "sectors (fs_compute_layout n s) = n"
  by (simp_all add: fs_compute_layout_def Let_def fs_idle_def)

lemma layout_ok_compute_cong: "layout_ok n (fs_compute_layout t s) = layout_ok n (fs_compute_layout t s')"
  by (simp add: fs_compute_layout_def Let_def layout_ok_def)

lemma fs_table_upd [simp]: "fs_table sec (s\<lparr>fs_is_new := x\<rparr>) = fs_table sec s"
  "fs_bit sec (s\<lparr>fs_is_new := x\<rparr>) = fs_bit sec s" "fs_last_id sec (s\<lparr>fs_is_new := x\<rparr>) = fs_last_id sec s"
  "frame_bound (s\<lparr>fs_is_new := x\<rparr>) = frame_bound s" "region_fits n (s\<lparr>fs_is_new := x\<rparr>) = region_fits n s"
  "fs_idle (s\<lparr>fs_is_new := x\<rparr>) = fs_idle s" "layout_ok n (s\<lparr>fs_is_new := x\<rparr>) = layout_ok n s"
  "superblock (s\<lparr>fs_is_new := x\<rparr>) = superblock s"
  by (simp_all add: fs_table_def fs_bit_def fs_last_id_def frame_bound_def fun_eq_iff region_fits_def fs_idle_def
      layout_ok_def superblock_def fs_bit_def[abs_def])

lemma fs_good_upd [simp]: "fs_good ok cap (s\<lparr>fs_is_new := x\<rparr>) = fs_good ok cap s"
  by (simp add: fs_good_def)

lemma volume_ok_upd [simp]: "volume_ok ok sec cap (s\<lparr>fs_is_new := x\<rparr>) = volume_ok ok sec cap s"
  by (simp add: volume_ok_def)

text \<open>An empty volume.\<close>

definition empty_volume :: "('d \<Rightarrow> bool) \<Rightarrow> ('d \<Rightarrow> nat \<Rightarrow> bytes) \<Rightarrow> ('d \<Rightarrow> nat) \<Rightarrow> 'd fs \<Rightarrow> bool" where
  "empty_volume ok sec cap s \<longleftrightarrow> volume_ok ok sec cap s \<and> fs_table sec s = replicate 1024 zero_entry \<and>
     (\<forall>f < frame_bound s. \<not> fs_bit sec s f) \<and> sec (dsk s) 0 = superblock s"

context block_device
begin

lemma format_volume:
  assumes "good s" "fs_idle s"
  obtains s' where "fs_format E s = Some (0, s')" and "empty_volume ok sec cap s'"
    and "becomes ((zeroed (sec (dsk s)) {0..<unat (start_storage s)})(0 := superblock s)) s s'"
proof -
  let ?g = "(zeroed (sec (dsk s)) {0..<unat (start_storage s)})(0 := superblock s)"
  note gl = good_layout[OF assms(1)]
  obtain s' where f: "fs_format E s = Some (0, s')" and b: "becomes ?g s s'"
    by (rule format_effect[OF assms(1)])
  note v = disk_becomes_vars[OF b]
  have z: "?g i = replicate 512 0" if "0 < i" "i < unat (start_storage s)" for i
    using that by (simp add: zeroed_def)
  have tab: "fs_table sec s' = replicate 1024 zero_entry"
    unfolding disk_becomes_table[OF b] by (rule fresh_table) (use z gl in auto)
  have bits: "\<not> fs_bit sec s' k" if "k < frame_bound s" for k
  proof -
    have "k div 4096 < unat (fs_data_bitmap_size_sectors s)"
      using that by (simp add: frame_bound_def less_mult_imp_div_less mult.commute)
    then have "?g (1 + k div 4096) = replicate 512 0" using gl by (intro z) auto
    then show ?thesis unfolding disk_becomes_bit[OF b] bitmap_bit_def by simp
  qed
  have "fs_last_id sec s' = u64_at (?g (unat (start_table s) - 1)) 0"
    using v disk_becomes_sec[OF b] by (simp add: fs_last_id_def)
  also have "?g (unat (start_table s) - 1) = replicate 512 0" using gl by (intro z) auto
  finally have lid: "fs_last_id sec s' = 0" by (simp add: u64_at_eq)
  have "empty_volume ok sec cap s'"
    using disk_becomes_good[OF b assms(1)] assms(2) becomes_idle[OF b] tab bits lid v disk_becomes_sec[OF b]
    by (simp add: empty_volume_def volume_ok_def empty_table frame_bound_def superblock_def)
  then show thesis using that f b by blast
qed

lemma init_formats:
  assumes "fs_idle s" and id: "identify E (replicate 256 0) (dsk s) = Some (1, ident, d1)" and n: "ident_total ident = n"
    and d1: "ok d1" "layout_ok (cap d1) (fs_compute_layout n s)" "\<not> superblock_ok (sec d1 0) n"
  obtains s' where "fs_init E s = Some (0, s')" and "empty_volume ok sec cap s'" and "fs_is_new s' = 1"
    and "sectors s' = n" and "start_storage s' = start_storage (fs_compute_layout n s)" and "cap (dsk s') = cap d1"
proof -
  let ?s = "s\<lparr>fs_is_new := 0\<rparr>\<lparr>dsk := d1\<rparr>"
  have n0: "n \<noteq> 0" using d1(2) by (auto simp: layout_ok_def)
  have c0: "0 < cap d1" using d1(2) by (simp add: layout_ok_def)
  obtain s1 where b: "becomes (sec d1) ?s s1" and l: "fs_load_superblock E n ?s = Some (0, s1)"
    using load_effect[of ?s n] d1 c0 by (auto simp: Let_def)
  let ?s2 = "fs_compute_layout n s1"
  have s1: "ok (dsk s1)" "cap (dsk s1) = cap d1" using b by (simp_all add: disk_becomes_def)
  have "layout_ok (cap (dsk s1)) ?s2" using d1(2) layout_ok_compute_cong[of _ n s1 s] s1(2) by simp
  then have g: "good ?s2" using s1 by (simp add: fs_good_def)
  have "fs_idle ?s" using assms(1) by (simp add: fs_idle_def)
  then have i: "fs_idle ?s2" using becomes_idle[OF b] by simp
  obtain s3 where f: "fs_format E ?s2 = Some (0, s3)" and e: "empty_volume ok sec cap s3"
    and b3: "becomes ((zeroed (sec (dsk ?s2)) {0..<unat (start_storage ?s2)})(0 := superblock ?s2)) ?s2 s3"
    by (rule format_volume[OF g i])
  have "fs_init E s = Some (0, s3\<lparr>fs_is_new := 1\<rparr>)"
    using id n n0 l f by (simp add: fs_init_def)
  moreover have "empty_volume ok sec cap (s3\<lparr>fs_is_new := 1\<rparr>)" using e by (simp add: empty_volume_def)
  moreover have "sectors (s3\<lparr>fs_is_new := 1\<rparr>) = n" using disk_becomes_vars(3)[OF b3] by simp
  moreover have "start_storage (s3\<lparr>fs_is_new := 1\<rparr>) = start_storage (fs_compute_layout n s)"
    using disk_becomes_vars(2)[OF b3] by (simp add: fs_compute_layout_def Let_def)
  moreover have "cap (dsk (s3\<lparr>fs_is_new := 1\<rparr>)) = cap d1" using b3 s1(2) by (simp add: disk_becomes_def fs_compute_layout_def Let_def)
  ultimately show thesis using that by simp
qed

text \<open>Mounting the disk of a volume \<open>v\<close> again, from any state of the variables.\<close>

lemma init_remounts:
  assumes v: "vol v" "sec (dsk v) 0 = superblock v" "sectors v \<le> n"
    and "fs_idle s" and id: "identify E (replicate 256 0) (dsk s) = Some (1, ident, d1)" and n: "ident_total ident = n"
    and d1: "ok d1" "sec d1 = sec (dsk v)" "cap d1 = cap (dsk v)"
  obtains s' where "fs_init E s = Some (1, s')" and "vol s'" and "fs_table sec s' = fs_table sec v"
    and "\<forall>f < frame_bound v. fs_bit sec s' f = fs_bit sec v f"
    and "\<forall>i \<ge> unat (start_storage v). sec (dsk s') i = sec (dsk v) i"
    and "start_storage s' = start_storage v" and "sectors s' = sectors v"
proof -
  let ?s = "s\<lparr>fs_is_new := 0\<rparr>\<lparr>dsk := d1\<rparr>"
  have gv: "good v" using v(1) by (simp add: volume_ok_def)
  have n0: "n \<noteq> 0" using v(3) good_layout[OF gv] good_bounds(3)[OF gv] by (auto simp: layout_ok_def word_le_nat_alt)
  have c0: "0 < cap d1" using d1(3) good_layout[OF gv] by simp
  have "superblock_ok (superblock v) n"
    by (rule superblock_ok_superblock[OF good_bounds(3,2)[OF gv] v(3)])
  then obtain s1 where b: "becomes (sec d1) ?s s1" and l: "fs_load_superblock E n ?s = Some (1,
      s1\<lparr>sectors := sectors v, fs_data_bitmap_size_sectors := fs_data_bitmap_size_sectors v,
         start_table := start_table v, start_storage := start_storage v\<rparr>)"
    using load_effect[of ?s n] d1 c0 v(2) by (auto simp: Let_def superblock_get)
  let ?s2 = "s1\<lparr>sectors := sectors v, fs_data_bitmap_size_sectors := fs_data_bitmap_size_sectors v,
         start_table := start_table v, start_storage := start_storage v\<rparr>"
  have s1: "ok (dsk s1)" "cap (dsk s1) = cap (dsk v)" "sec (dsk s1) = sec (dsk v)"
    using b d1 by (simp_all add: disk_becomes_def)
  have g: "good ?s2" using s1 good_bounds(3)[OF gv] by (simp add: fs_good_def layout_ok_def)
  have views: "fs_table sec ?s2 = fs_table sec v" "fs_bit sec ?s2 = fs_bit sec v" "frame_bound ?s2 = frame_bound v"
    "id_sector ?s2 = id_sector v" "table_sectors ?s2 = table_sectors v" "bitmap_sectors ?s2 = bitmap_sectors v"
    using s1 by (simp_all add: fs_table_def fs_bit_def[abs_def] frame_bound_def id_sector_def table_sectors_def bitmap_sectors_def)
  have i2: "fs_idle ?s2"
  proof -
    have "fs_idle ?s" using assms(4) by (simp add: fs_idle_def)
    then have "fs_idle s1" using becomes_idle[OF b] by simp
    then show ?thesis by (simp add: fs_idle_def)
  qed
  obtain s3 where r: "reload_last_id_to_disk E ?s2 = Some s3" and c: "changes (id_sector ?s2) ?s2 s3"
    and lid: "fs_last_id sec s3 = max_id (fs_table sec ?s2)"
    by (rule reload_effect[OF g])
  note sv = fs_changes_vars[OF c]
  have run: "fs_init E s = Some (1, s3)" using id n n0 l r by (simp add: fs_init_def)
  have tab: "fs_table sec s3 = fs_table sec v"
    using fs_changes_table[OF c] sectors_disjoint(4)[OF good_bounds(3)[OF g]] views(1) by simp
  have bits: "\<forall>f < frame_bound v. fs_bit sec s3 f = fs_bit sec v f"
    using fs_changes_bit[OF c] sectors_disjoint(6)[OF good_bounds(3)[OF g]] views(2,3) by simp
  have data: "\<forall>i \<ge> unat (start_storage v). sec (dsk s3) i = sec (dsk v) i"
    using fs_changes_sec[OF c] good_layout[OF gv] s1(3) by (auto simp: id_sector_def)
  have "regions_ok (region_fits (cap (dsk v)) v) (fs_bit sec s3) (fs_table sec v)"
    using v(1) by (intro regions_ok_same_bits[OF _ bits]) (simp add: volume_ok_def)
  moreover have "region_fits (cap (dsk s3)) s3 = region_fits (cap (dsk v)) v"
  proof -
    have "region_fits n s3 = region_fits n v" for n using sv by (intro region_fits_cong) (simp_all add: views)
    moreover have "cap (dsk s3) = cap (dsk v)" using sv s1(2) by simp
    ultimately show ?thesis by simp
  qed
  ultimately have "vol s3"
    using v(1) fs_changes_good[OF c g] changes_idle[OF c] i2 lid views(1) unfolding volume_ok_def tab by simp
  then show thesis using that run tab bits data sv by simp
qed

end

section \<open>Identification of the drive\<close>

lemma drive_identify_words:
  "drive_drq dv \<Longrightarrow> length ws \<le> 256 \<Longrightarrow> b + length ws \<le> length buf \<Longrightarrow>
     ata_identify_words drive_ports buf b (length ws) (dv\<lparr>dphase := (if ws = [] then Ready else Sending ws)\<rparr>)
     = Some (take b buf @ ws @ drop (b + length ws) buf, dv\<lparr>dphase := Ready\<rparr>)"
proof (induction ws arbitrary: b buf)
  case Nil
  then show ?case by simp
next
  case (Cons w ws)
  let ?buf = "buf[b := w]"
  have "b + 1 + length ws \<le> length ?buf" "length ws \<le> 256" using Cons.prems by simp_all
  note IH = Cons.IH[OF Cons.prems(1) this(2,1)]
  moreover have "take (b + 1) ?buf = take b buf @ [w]" using Cons.prems by (simp add: take_Suc_conv_app_nth)
  ultimately show ?case using Cons.prems by (simp add: poke_def drive_inw_block)
qed

lemma drive_identify_busy:
  "dbusy dv < n \<Longrightarrow> ata_identify_busy drive_ports n dv = Inr (drive_tick (dv\<lparr>dbusy := 0\<rparr>))"
proof (induction n arbitrary: dv)
  case 0
  then show ?case by simp
next
  case (Suc n)
  show ?case
  proof (cases "dbusy dv = 0")
    case True
    then have eq: "dv\<lparr>dbusy := 0\<rparr> = dv" by (cases dv) simp
    have "drive_status dv AND ATA_SR_BSY = 0" using True by (simp add: drive_status_def)
    then show ?thesis unfolding eq by (simp add: drive_inb_def)
  next
    case False
    then have "dbusy (dv\<lparr>dbusy := dbusy dv - 1\<rparr>) < n" "n \<noteq> 0" using Suc.prems by auto
    from Suc.IH[OF this(1)] this(2) False show ?thesis
      by (simp add: drive_inb_def drive_status_def drive_tick_def)
  qed
qed

lemma drive_identify_drq:
  "dbusy dv = 0 \<Longrightarrow> dphase dv \<noteq> Ready \<Longrightarrow> derror dv = 0 \<Longrightarrow> ddrq dv < n \<Longrightarrow>
     ata_identify_drq drive_ports n dv = Inr (dv\<lparr>ddrq := 0\<rparr>)"
proof (induction n arbitrary: dv)
  case 0
  then show ?case by simp
next
  case (Suc n)
  show ?case
  proof (cases "ddrq dv = 0")
    case True
    then have eq: "dv\<lparr>ddrq := 0\<rparr> = dv" by (cases dv) simp
    have "drive_tick dv = dv" using Suc.prems True eq by (simp add: drive_tick_def)
    then show ?thesis unfolding eq using Suc.prems True by (simp add: drive_inb_def drive_status_def)
  next
    case False
    then have "ddrq (dv\<lparr>ddrq := ddrq dv - 1\<rparr>) < n" "n \<noteq> 0" using Suc.prems by auto
    from Suc.IH[OF _ _ _ this(1)] this(2) False Suc.prems show ?thesis
      by (simp add: drive_inb_def drive_status_def drive_tick_def)
  qed
qed

lemma drive_tick_ddrq: "dbusy d = 0 \<Longrightarrow> \<exists>r. drive_tick (d\<lparr>ddrq := q\<rparr>) = d\<lparr>ddrq := r\<rparr>"
  by (cases "dphase d = Ready") (auto simp: drive_tick_def)

lemma drive_tick_idle: "dbusy d = 0 \<Longrightarrow> \<exists>r. drive_tick d = d\<lparr>ddrq := r\<rparr>"
  using drive_tick_ddrq[of d "ddrq d"] by (cases d) simp

lemma drive_ticks_idle:
  assumes "dbusy d = 0"
  obtains q where "drive_tick (drive_tick (drive_tick (drive_tick d))) = d\<lparr>ddrq := q\<rparr>"
proof -
  obtain r1 where 1: "drive_tick d = d\<lparr>ddrq := r1\<rparr>" using drive_tick_idle[OF assms] by blast
  obtain r2 where 2: "drive_tick (d\<lparr>ddrq := r1\<rparr>) = d\<lparr>ddrq := r2\<rparr>" using drive_tick_ddrq[OF assms] by blast
  obtain r3 where 3: "drive_tick (d\<lparr>ddrq := r2\<rparr>) = d\<lparr>ddrq := r3\<rparr>" using drive_tick_ddrq[OF assms] by blast
  obtain r4 where "drive_tick (d\<lparr>ddrq := r3\<rparr>) = d\<lparr>ddrq := r4\<rparr>" using drive_tick_ddrq[OF assms] by blast
  then show thesis using that 1 2 3 by simp
qed

lemma drive_identify:
  assumes "drive_ok dv" "dbusy dv = 0"
  obtains dv' where "ata_identify drive_ports (replicate 256 0) dv = Some (1, dident dv, dv')"
    and "drive_ok dv'" and "dsectors dv' = dsectors dv" and "dcap dv' = dcap dv" and "dident dv' = dident dv"
    and "dbusy dv' = 0"
proof -
  let ?d0 = "dv\<lparr>ddevsel := 0xA0\<rparr>"
  obtain q where q: "drive_tick (drive_tick (drive_tick (drive_tick ?d0))) = ?d0\<lparr>ddrq := q\<rparr>"
    using drive_ticks_idle[of ?d0] assms(2) by auto
  let ?d1 = "?d0\<lparr>ddrq := q, dcount := 0, dlba0 := 0, dlba1 := 0, dlba2 := 0\<rparr>"
  let ?d2 = "\<lambda>b q. ?d0\<lparr>dcount := 0, dlba0 := 0, dlba1 := 0, dlba2 := 0, derror := 0,
    dphase := Sending (dident dv), dbusy := b, ddrq := q\<rparr>"
  have l: "dlatency dv < ATA_ERROR_TIMEOUT_LOOPS" "ddelay dv < ATA_ERROR_TIMEOUT_LOOPS" "length (dident dv) = 256"
    using assms(1) by (simp_all add: drive_ok_def)
  have start: "drive_command ATA_CMD_IDENTIFY ?d1 = ?d2 (dlatency dv) (ddelay dv)"
    by (cases dv) (simp add: drive_command_def)
  have st: "drive_status (?d2 (dlatency dv) (ddelay dv)) \<noteq> 0" by (simp add: drive_status_def)
  let ?e = "drive_tick (?d2 (dlatency dv) (ddelay dv))"
  have e: "dbusy ?e < ATA_ERROR_TIMEOUT_LOOPS" using l(1) by simp
  obtain x where x: "x \<le> ddelay dv" "drive_tick (?e\<lparr>dbusy := 0\<rparr>) = ?d2 0 x"
  proof (cases "dlatency dv = 0")
    case True
    then have "drive_tick (?e\<lparr>dbusy := 0\<rparr>) = ?d2 0 (ddelay dv - 1 - 1)" by (cases dv) (simp add: drive_tick_def)
    then show thesis by (intro that[of "ddelay dv - 1 - 1"]) simp_all
  next
    case False
    then have "drive_tick (?e\<lparr>dbusy := 0\<rparr>) = ?d2 0 (ddelay dv - 1)" by (cases dv) (simp add: drive_tick_def)
    then show thesis by (intro that[of "ddelay dv - 1"]) simp_all
  qed
  have busy: "ata_identify_busy drive_ports ATA_ERROR_TIMEOUT_LOOPS ?e = Inr (?d2 0 x)"
    using drive_identify_busy[OF e] x(2) by simp
  have drq: "ata_identify_drq drive_ports ATA_ERROR_TIMEOUT_LOOPS (?d2 0 x) = Inr (?d2 0 0)"
    using l(2) x(1) drive_identify_drq[of "?d2 0 x" ATA_ERROR_TIMEOUT_LOOPS] by simp
  have ne: "dident dv \<noteq> []" using l(3) by auto
  let ?d3 = "(?d2 0 0)\<lparr>dphase := Ready\<rparr>"
  have wds: "ata_identify_words drive_ports (replicate 256 0) 0 256 (?d2 0 0) = Some (dident dv, ?d3)"
    using drive_identify_words[of "?d2 0 0" "dident dv" 0 "replicate 256 0"] l(3) ne
    by (cases dv) (simp add: drive_drq_def)
  have sec: "ata_sector_size div 2 = 256" by (simp add: ata_sector_size_def)
  have regs: "(?d0\<lparr>ddrq := q\<rparr>)\<lparr>dcount := 0, dlba0 := 0, dlba1 := 0, dlba2 := 0\<rparr> = ?d1" by simp
  have "ata_identify drive_ports (replicate 256 0) dv = Some (1, dident dv, ?d3)"
    using assms(2) st busy drq wds sec q
    by (simp add: ata_identify_def Let_def drive_inb_def drive_outb_def start)
  then show thesis using assms by (intro that[of ?d3]) (simp_all add: drive_ok_def)
qed

end
