(* ===== verification/Console.thy ===== *)
theory Console
  imports Font CText
begin

text \<open>
  The text screen of \<open>main.c\<close>: pixels and characters on the linear framebuffer, the character buffer, the cursor, scrolling and
  line wrapping. A store outside the framebuffer or the character buffer and a glyph of a negative \<open>char\<close> are \<open>None\<close>. The
  framebuffer argument \<open>fb\<close> is always the global one.
\<close>

section \<open>State\<close>

definition MAX_COLS :: nat where
  "MAX_COLS = 256"

definition MAX_ROWS :: nat where
  "MAX_ROWS = 128"

text \<open>
  \<open>pixels\<close> is the memory at \<open>fb->address\<close>. \<open>screen_buffer\<close> is the array \<open>char screen_buffer[MAX_COLS][MAX_ROWS]\<close> as it lies in memory:
  row after row of \<open>MAX_ROWS\<close> bytes, so that a column of 128 or more is a byte of the next row.
\<close>

record console =
  pixels :: "u32 list"
  fb_pitch :: u64
  screen_cols :: u64
  screen_rows :: u64
  screen_width :: u64
  screen_height :: u64
  global_defualt_crus_x :: u64
  global_crus_x :: u64
  global_crus_y :: u64
  global_last_crus_x :: u64
  global_last_crus_y :: u64
  screen_buffer :: bytes

definition screen_index :: "u64 \<Rightarrow> u64 \<Rightarrow> nat" where
  "screen_index y x = unat (y * of_nat MAX_ROWS + x)"

definition screen_at :: "u64 \<Rightarrow> u64 \<Rightarrow> console \<Rightarrow> u8 option" where
  "screen_at y x c = peek (screen_buffer c) (screen_index y x)"

definition screen_put :: "u64 \<Rightarrow> u64 \<Rightarrow> u8 \<Rightarrow> console \<Rightarrow> console option" where
  "screen_put y x v c = do {
     b \<leftarrow> poke (screen_buffer c) (screen_index y x) v;
     Some (c\<lparr>screen_buffer := b\<rparr>) }"

section \<open>Pixels\<close>

definition put_pixel :: "u64 \<Rightarrow> u64 \<Rightarrow> u32 \<Rightarrow> console \<Rightarrow> console option" where
  "put_pixel x y color c = do {
     let line_pixels = fb_pitch c div 4;
     p \<leftarrow> poke (pixels c) (unat (y * line_pixels + x)) color;
     Some (c\<lparr>pixels := p\<rparr>) }"

text \<open>The eight by eight loops: \<open>v row k\<close> is the colour of bit \<open>k\<close> of a row, \<open>None\<close> an access outside the font.\<close>

definition put_cell :: "u64 \<Rightarrow> u64 \<Rightarrow> (nat \<Rightarrow> nat \<Rightarrow> u32 option) \<Rightarrow> console \<Rightarrow> console option" where
  "put_cell x y v c =
     oloop 0 8 (\<lambda>row c. oloop 0 8 (\<lambda>k c. do {
       color \<leftarrow> v row k;
       put_pixel (x * 8 + of_nat k) (y * 8 + of_nat row) color c }) c) c"

text \<open>\<open>font8x8_basic[(int)tarc]\<close>, where \<open>char\<close> is signed.\<close>

definition glyph_of :: "u8 \<Rightarrow> bytes option" where
  "glyph_of tarc = (if sint tarc < 0 then None else peek font8x8_basic (nat (sint tarc)))"

definition glyph_color :: "u8 \<Rightarrow> u32 \<Rightarrow> u32 \<Rightarrow> nat \<Rightarrow> nat \<Rightarrow> u32 option" where
  "glyph_color tarc color color_none row k = do {
     target_char \<leftarrow> glyph_of tarc;
     g \<leftarrow> peek target_char row;
     Some (if drop_bit k g AND 1 \<noteq> 0 then color else color_none) }"

definition put_char :: "u64 \<Rightarrow> u64 \<Rightarrow> u32 \<Rightarrow> u8 \<Rightarrow> u32 \<Rightarrow> console \<Rightarrow> console option" where
  "put_char x y color tarc color_none c = put_cell x y (glyph_color tarc color color_none) c"

definition is_blank :: "u8 \<Rightarrow> bool" where
  "is_blank tc \<longleftrightarrow> tc = 0 \<or> tc = 32 \<or> tc = 10"

definition reput_char :: "u32 \<Rightarrow> u32 \<Rightarrow> u64 \<Rightarrow> u64 \<Rightarrow> console \<Rightarrow> console option" where
  "reput_char color color_none x y c = do {
     tc \<leftarrow> screen_at y x c;
     if is_blank tc then put_cell x y (\<lambda>row k. Some color_none) c
     else put_char x y color tc color_none c }"

definition put_crus :: "u32 \<Rightarrow> u32 \<Rightarrow> console \<Rightarrow> console option" where
  "put_crus color color_none c = do {
     c \<leftarrow> reput_char color color_none (global_last_crus_x c) (global_last_crus_y c) c;
     tc \<leftarrow> screen_at (global_crus_y c) (global_crus_x c) c;
     c \<leftarrow> (if is_blank tc then put_cell (global_crus_x c) (global_crus_y c) (\<lambda>row k. Some color) c
          else put_cell (global_crus_x c) (global_crus_y c) (glyph_color tc color_none color) c);
     Some (c\<lparr>global_last_crus_x := global_crus_x c, global_last_crus_y := global_crus_y c\<rparr>) }"

text \<open>
  The counters \<open>rect_x\<close> and \<open>rect_y\<close> are 32 bits wide: a rectangle of 2^32 or more in one direction never ends, or leaves the
  framebuffer first.
\<close>

definition draw_rect :: "u64 \<Rightarrow> u64 \<Rightarrow> u64 \<Rightarrow> u64 \<Rightarrow> u32 \<Rightarrow> console \<Rightarrow> console option" where
  "draw_rect x y width height color c =
     (if 2 ^ 32 \<le> unat width \<or> 2 ^ 32 \<le> unat height then None
      else
        let line_pixels = fb_pitch c div 4; start_rect = line_pixels * y + x
        in oloop 0 (unat height) (\<lambda>rect_y c. oloop 0 (unat width) (\<lambda>rect_x c. do {
             p \<leftarrow> poke (pixels c) (unat (start_rect + (of_nat rect_y * line_pixels + of_nat rect_x))) color;
             Some (c\<lparr>pixels := p\<rparr>) }) c) c)"

section \<open>Scrolling\<close>

definition scroll_screen :: "u32 \<Rightarrow> u32 \<Rightarrow> console \<Rightarrow> console option" where
  "scroll_screen color color_none c = do {
     c \<leftarrow> oloop 0 (unat (screen_rows c - 1)) (\<lambda>y c. oloop 0 (unat (screen_cols c)) (\<lambda>x c. do {
            v \<leftarrow> screen_at (of_nat y + 1) (of_nat x) c;
            screen_put (of_nat y) (of_nat x) v c }) c) c;
     c \<leftarrow> oloop 0 (unat (screen_cols c)) (\<lambda>x c. screen_put (screen_rows c - 1) (of_nat x) 0 c) c;
     oloop 0 (unat (screen_rows c)) (\<lambda>y c. oloop 0 (unat (screen_cols c)) (\<lambda>x c. do {
       v \<leftarrow> screen_at (of_nat y) (of_nat x) c;
       put_char (of_nat x) (of_nat y) color v color_none c }) c) c }"

definition plus_gc_y :: "u32 \<Rightarrow> u32 \<Rightarrow> console \<Rightarrow> console option" where
  "plus_gc_y color color_none c =
     (if global_crus_y c < screen_rows c - 1 then Some (c\<lparr>global_crus_y := global_crus_y c + 1\<rparr>)
      else scroll_screen color color_none c)"

section \<open>Text\<close>

text \<open>The loop over the characters, from the position \<open>(crus_x, crus_y)\<close>; the result is the row of the last one.\<close>

fun write_chars :: "u64 \<Rightarrow> u32 \<Rightarrow> u32 \<Rightarrow> cstring \<Rightarrow> u64 \<Rightarrow> u64 \<Rightarrow> console \<Rightarrow> (u64 \<times> console) option" where
  "write_chars x color color_none [] crus_x crus_y c = Some (crus_y, c)"
| "write_chars x color color_none (t # text) crus_x crus_y c = do {
     (crus_x, crus_y, c) \<leftarrow>
       (if screen_width c div 8 < crus_x + 7 then
          (if crus_y < screen_rows c - 1 then Some (x, crus_y + 1, c)
           else do { c \<leftarrow> scroll_screen color color_none c; Some (x, crus_y, c) })
        else Some (crus_x, crus_y, c));
     c \<leftarrow> put_char crus_x crus_y color t color_none c;
     c \<leftarrow> screen_put crus_y crus_x t c;
     write_chars x color color_none text (crus_x + 1) crus_y c }"

definition screen_write :: "u64 \<Rightarrow> u64 \<Rightarrow> u32 \<Rightarrow> u32 \<Rightarrow> cstring \<Rightarrow> console \<Rightarrow> (u64 \<times> console) option" where
  "screen_write x y color color_none inputtext c =
     (let crus_y = (if screen_rows c - 1 < y then screen_rows c - 1 else y)
      in write_chars x color color_none inputtext x crus_y c)"

text \<open>
  The search of the branch \<open>mins_line == 1\<close> for the last character of the line above: \<open>i23\<close> counts down as a signed number while
  its value as an unsigned one is at least \<open>global_defualt_crus_x\<close>. The result is the column after the character found.
\<close>

function line_end :: "int \<Rightarrow> console \<Rightarrow> u64 option option" where
  "line_end i23 c =
     (if global_defualt_crus_x c \<le> word_of_int i23 then
        (let k = int (unat (global_crus_y c * of_nat MAX_ROWS)) + i23 in
         if k < 0 then None
         else do {
           screchar \<leftarrow> peek (screen_buffer c) (nat k);
           if screchar \<noteq> 0 then Some (Some (word_of_int (i23 + 1))) else line_end (i23 - 1) c })
      else Some None)"
  by pat_completeness auto
termination
  by (relation "measure (\<lambda>(i23, c). nat (int (unat (global_crus_y c * of_nat MAX_ROWS)) + i23 + 1))") auto

declare line_end.simps [simp del]

definition backspace :: "u32 \<Rightarrow> u32 \<Rightarrow> int \<Rightarrow> console \<Rightarrow> console option" where
  "backspace color0 color1 mins_line c = do {
     c \<leftarrow> put_char (global_crus_x c) (global_crus_y c) color0 0 color1 c;
     c \<leftarrow> screen_put (global_crus_y c) (global_crus_x c) 0 c;
     if mins_line \<noteq> 1 then Some c
     else do {
       let c = c\<lparr>global_crus_y := global_crus_y c - 1\<rparr>;
       r \<leftarrow> line_end (uint (screen_width c div 8) - 1) c;
       case r of
         Some x \<Rightarrow> do {
           let c = c\<lparr>global_crus_x := x\<rparr>;
           screen_put (global_crus_y c) (global_crus_x c) 0 c }
       | None \<Rightarrow> Some (c\<lparr>global_crus_x := global_defualt_crus_x c\<rparr>) } }"

fun put_char_on_crus :: "u32 \<Rightarrow> u32 \<Rightarrow> cstring \<Rightarrow> int \<Rightarrow> int \<Rightarrow> console \<Rightarrow> console option" where
  "put_char_on_crus color0 color1 [] baskspace_state mins_line c = Some c"
| "put_char_on_crus color0 color1 (t # text) baskspace_state mins_line c = do {
     c \<leftarrow> (if baskspace_state = 1 then backspace color0 color1 mins_line c
          else do {
            c \<leftarrow> (if screen_width c div 8 < global_crus_x c + 7
                 then plus_gc_y color0 color1 (c\<lparr>global_crus_x := global_defualt_crus_x c\<rparr>) else Some c);
            c \<leftarrow> put_char (global_crus_x c) (global_crus_y c) color0 t color1 c;
            c \<leftarrow> screen_put (global_crus_y c) (global_crus_x c) t c;
            Some (c\<lparr>global_crus_x := global_crus_x c + 1\<rparr>) });
     put_char_on_crus color0 color1 text baskspace_state mins_line c }"

section \<open>Debug output\<close>

definition debug_print :: "cstring \<Rightarrow> bytes" where
  "debug_print str = str"

definition debug_char :: "u8 \<Rightarrow> bytes" where
  "debug_char c =
     (if c = 0 then debug_print (ascii [CHR 0x27, CHR 0x5C, CHR ''0'', CHR 0x27])
      else if c = 10 then debug_print (ascii [CHR 0x27, CHR 0x5C, CHR ''n'', CHR 0x27])
      else if c = 32 then debug_print (ascii [CHR 0x27, CHR 0x5C, CHR ''s'', CHR 0x27])
      else [c])"

text \<open>What the two functions send to the debug port.\<close>

definition debug_screen_buffer_small :: "console \<Rightarrow> bytes option" where
  "debug_screen_buffer_small c =
     oloop 0 80 (\<lambda>y out. do {
       out \<leftarrow> oloop 0 20 (\<lambda>x out. do {
         v \<leftarrow> screen_at (of_nat y) (of_nat x) c;
         Some (out @ debug_char v @ [32]) }) out;
       Some (out @ [10]) }) []"

definition debug_command :: "bytes \<Rightarrow> bytes option" where
  "debug_command command = do {
     out \<leftarrow> oloop 0 50 (\<lambda>x out. do {
       v \<leftarrow> peek command x;
       Some (out @ debug_char v @ [32]) }) [];
     Some (out @ [10]) }"

end
