(* ===== verification/Kernel.thy ===== *)
theory Kernel
  imports FsFormat Console Sched
begin

text \<open>
  The state that the shell of \<open>main.c\<close> works on: the variables of the other components and its own. The machine behind it (the
  disk controller, \<open>hlt\<close>, addresses) is a parameter. Undefined behaviour of a C operation is \<open>None\<close> everywhere.
\<close>

section \<open>State\<close>

record 'd kernel =
  kfs :: "'d fs"
  con :: console
  keyboard :: kbd
  sch :: sched
  command :: bytes
  command_point_c_main :: u64
  cmd_line_text :: bytes
  read_out :: bytes
  last_if_stat :: int
  rng_state :: u64
  last_global_command_lenght :: u64
  current_dir_id :: u64
  task_b_counter :: u64
  u64_str :: bytes
  concats :: concat_state
  debug_out :: bytes

text \<open>
  \<open>k_hlt\<close> is what happens between \<open>hlt\<close> and the return from the interrupts that end it. \<open>stacks\<close> and \<open>run_task_entry\<close> are the
  addresses of \<open>task_stacks\<close> and \<open>run_task\<close>.
\<close>

record 'd machine =
  ata :: "'d ata_h"
  k_hlt :: "'d kernel \<Rightarrow> 'd kernel"
  stacks :: u64
  run_task_entry :: u64

abbreviation color_fg :: u32 where "color_fg \<equiv> 0xFFFFFFFF"
abbreviation color_bg :: u32 where "color_bg \<equiv> 0xFF000000"
abbreviation color_error :: u32 where "color_error \<equiv> 0xFFFF0000"

definition max_command_lenght_bytes :: nat where
  "max_command_lenght_bytes = 4096"

definition fs_not_found_message :: cstring where
  "fs_not_found_message = ascii ''Not Found''"

definition main_not_file_message :: cstring where
  "main_not_file_message = ascii ''Not File''"

definition main_not_folder_message :: cstring where
  "main_not_folder_message = ascii ''Not Folder''"

section \<open>Calls of the other components\<close>

text \<open>The text in an array that a \<open>char *\<close> points to; a scan that finds no NUL leaves the array.\<close>

definition cstr :: "bytes \<Rightarrow> cstring option" where
  "cstr b = (if 0 \<in> set b then Some (cstr_of b) else None)"

text \<open>\<open>uint8_t buf[n];\<close> in a function of \<open>main.c\<close>.\<close>

definition k_local :: "'d machine \<Rightarrow> nat \<Rightarrow> 'd kernel \<Rightarrow> bytes" where
  "k_local M n k = local_buf (ata M) n (kfs k)"

definition fs_call :: "('d fs \<Rightarrow> ('a \<times> 'd fs) option) \<Rightarrow> 'd kernel \<Rightarrow> ('a \<times> 'd kernel) option" where
  "fs_call f k = do { (r, s) \<leftarrow> f (kfs k); Some (r, k\<lparr>kfs := s\<rparr>) }"

definition con_call :: "(console \<Rightarrow> console option) \<Rightarrow> 'd kernel \<Rightarrow> 'd kernel option" where
  "con_call f k = do { c \<leftarrow> f (con k); Some (k\<lparr>con := c\<rparr>) }"

definition k_write :: "u64 \<Rightarrow> u64 \<Rightarrow> u32 \<Rightarrow> u32 \<Rightarrow> cstring \<Rightarrow> 'd kernel \<Rightarrow> (u64 \<times> 'd kernel) option" where
  "k_write x y a b msg k = do { (r, c) \<leftarrow> screen_write x y a b msg (con k); Some (r, k\<lparr>con := c\<rparr>) }"

definition k_read_file :: "'d machine \<Rightarrow> cstring \<Rightarrow> bytes \<Rightarrow> u64 \<Rightarrow> 'd kernel \<Rightarrow> (int \<times> bytes \<times> 'd kernel) option" where
  "k_read_file M p buf n k = do {
     (st, buf, s) \<leftarrow> fs_read_file (ata M) p buf n (current_dir_id k) (kfs k);
     Some (st, buf, k\<lparr>kfs := s\<rparr>) }"

definition k_write_file :: "'d machine \<Rightarrow> cstring \<Rightarrow> cstring \<Rightarrow> 'd kernel \<Rightarrow> (int \<times> 'd kernel) option" where
  "k_write_file M p msg k = fs_call (fs_write_file (ata M) p (msg @ [0]) 0 (current_dir_id k)) k"

definition k_concat :: "cstring \<Rightarrow> cstring \<Rightarrow> 'd kernel \<Rightarrow> (cstring \<times> 'd kernel) option" where
  "k_concat s1 s2 k = do {
     (p, st) \<leftarrow> str_concat s1 s2 (concats k);
     out \<leftarrow> peek (cdst st) p;
     Some (cstr_of out, k\<lparr>concats := st\<rparr>) }"

definition k_u64 :: "'d machine \<Rightarrow> u64 \<Rightarrow> 'd kernel \<Rightarrow> (cstring \<times> 'd kernel) option" where
  "k_u64 M n k = do {
     str \<leftarrow> u64_to_str n (u64_str k) (k_local M 21 k);
     Some (cstr_of str, k\<lparr>u64_str := str\<rparr>) }"

definition k_debug :: "bytes \<Rightarrow> 'd kernel \<Rightarrow> 'd kernel" where
  "k_debug out k = k\<lparr>debug_out := debug_out k @ out\<rparr>"

definition k_debug64 :: "'d machine \<Rightarrow> u64 \<Rightarrow> 'd kernel \<Rightarrow> 'd kernel option" where
  "k_debug64 M n k = do { out \<leftarrow> debug_put64 n (k_local M 20 k); Some (k_debug out k) }"

text \<open>\<open>str_to_u64\<close> on an array that need not hold a NUL.\<close>

definition buf_to_u64 :: "bytes \<Rightarrow> u64 option" where
  "buf_to_u64 b = (if list_all (\<lambda>c. 48 \<le> c \<and> c \<le> 57) b then None else Some (str_to_u64 b))"

text \<open>The loop over \<open>read_out\<close> and the copy of a message of \<open>sizeof\<close> bytes.\<close>

definition set_message :: "cstring \<Rightarrow> 'd kernel \<Rightarrow> 'd kernel option" where
  "set_message msg k = do {
     r \<leftarrow> fs_strncpy (fill (read_out k) 4096 0) msg (length msg + 1);
     Some (k\<lparr>read_out := r\<rparr>) }"

text \<open>The result of a command from the status \<open>st\<close> of the file system; \<open>second\<close> is the message of status 2.\<close>

definition report :: "cstring option \<Rightarrow> int \<Rightarrow> int \<Rightarrow> 'd kernel \<Rightarrow> (int \<times> 'd kernel) option" where
  "report second ok st k =
     (if st = 1 then do { k \<leftarrow> set_message fs_not_found_message k; Some (3, k) }
      else case second of
        None \<Rightarrow> Some (ok, k)
      | Some msg \<Rightarrow> if st = 2 then do { k \<leftarrow> set_message msg k; Some (3, k) } else Some (ok, k))"

section \<open>Command lines\<close>

text \<open>
  \<open>argv\<close> is the line with its blanks replaced by NULs, \<open>argvs\<close> the offsets of the words in it. Only the first \<open>idx\<close> pointers are
  set: a later one is \<open>None\<close>.
\<close>

record cmdline =
  argv :: bytes
  argvs :: "nat list"
  argc :: nat

fun cmd_words :: "bytes \<Rightarrow> nat \<Rightarrow> bool \<Rightarrow> nat list" where
  "cmd_words [] i new_word = []"
| "cmd_words (c # cs) i new_word =
     (if c = 0 then cmd_words cs (i + 1) True
      else if new_word then i # cmd_words cs (i + 1) False
      else cmd_words cs (i + 1) False)"

definition parse_command :: "cstring \<Rightarrow> cmdline" where
  "parse_command cmd =
     (let av = map (\<lambda>c. if c = 32 then 0 else c) (cmd @ [0])
      in \<lparr>argv = av, argvs = cmd_words av 0 True, argc = 1 + length (filter (\<lambda>c. c = 32) cmd)\<rparr>)"

definition arg :: "cmdline \<Rightarrow> nat \<Rightarrow> cstring option" where
  "arg a i = (if i < length (argvs a) then Some (cstr_of (drop (argvs a ! i) (argv a))) else None)"

definition arg_list :: "cmdline \<Rightarrow> cstring list" where
  "arg_list a = map (\<lambda>p. cstr_of (drop p (argv a))) (argvs a)"

text \<open>\<open>content_start\<close>: the NULs from word \<open>i\<close> on but for the last byte become blanks again.\<close>

definition content_from :: "cmdline \<Rightarrow> nat \<Rightarrow> cstring option" where
  "content_from a i =
     (if i < length (argvs a) then
        let start = drop (argvs a ! i) (argv a); n = length start - 1
        in Some (cstr_of (map (\<lambda>c. if c = 0 then 32 else c) (take n start) @ drop n start))
      else None)"

text \<open>\<open>path_resolve(path_to_abs(w, current_dir_id))\<close>.\<close>

definition path_arg :: "'d machine \<Rightarrow> cstring \<Rightarrow> 'd kernel \<Rightarrow> (cstring \<times> 'd kernel) option" where
  "path_arg M w k = do {
     (abs, k) \<leftarrow> fs_call (path_to_abs (ata M) w (current_dir_id k)) k;
     fs_call (path_resolve abs) k }"

text \<open>Words joined by blanks into \<open>buf\<close> from \<open>point\<close> on, as the loops of \<open>fi\<close>, \<open>else\<close> and \<open>echo\<close> do.\<close>

fun join_args :: "cstring list \<Rightarrow> bool \<Rightarrow> bytes \<Rightarrow> nat \<Rightarrow> (bytes \<times> nat) option" where
  "join_args [] first buf point = Some (buf, point)"
| "join_args (w # ws) first buf point = do {
     (buf, point) \<leftarrow> (if first then Some (buf, point) else do { buf \<leftarrow> poke buf point 32; Some (buf, point + 1) });
     (buf, point) \<leftarrow> concat_copy buf point w;
     join_args ws False buf point }"

end
