(* ===== verification/Commands.thy ===== *)
theory Commands
  imports Kernel
begin

text \<open>
  The commands of \<open>enter\<close> in \<open>main.c\<close>, one definition per branch. The commands that run other commands take \<open>shell_command\<close> or
  \<open>enter\<close> as an argument. The result is the return value: 0 nothing to print, 1 unknown, 2 print \<open>read_out\<close>, 3 print it as an
  error, 4 not done.
\<close>

section \<open>Files and directories\<close>

definition cmd_ls :: "'d machine \<Rightarrow> cmdline \<Rightarrow> 'd kernel \<Rightarrow> (int \<times> 'd kernel) option" where
  "cmd_ls M a k = do {
     let k = k\<lparr>read_out := fill (read_out k) 4096 0\<rparr>;
     (p, k) \<leftarrow> (if length (argvs a) = 1 then Some ([dot], k) else do { w \<leftarrow> arg a 1; path_arg M w k });
     (st, out, s) \<leftarrow> fs_ls_dir (ata M) p (read_out k) 4096 (current_dir_id k) (kfs k);
     report None 2 st (k\<lparr>read_out := out, kfs := s\<rparr>) }"

definition path_command ::
  "'d machine \<Rightarrow> ('d ata_h \<Rightarrow> cstring \<Rightarrow> u64 \<Rightarrow> 'd fs \<Rightarrow> (int \<times> 'd fs) option) \<Rightarrow> cstring option \<Rightarrow> cmdline
     \<Rightarrow> 'd kernel \<Rightarrow> (int \<times> 'd kernel) option" where
  "path_command M operation second a k = do {
     w \<leftarrow> arg a 1;
     (p, k) \<leftarrow> path_arg M w k;
     (st, k) \<leftarrow> fs_call (operation (ata M) p (current_dir_id k)) k;
     report second 0 st k }"

definition cmd_mk :: "'d machine \<Rightarrow> cmdline \<Rightarrow> 'd kernel \<Rightarrow> (int \<times> 'd kernel) option" where
  "cmd_mk M = path_command M fs_mk_file None"

definition cmd_mkdir :: "'d machine \<Rightarrow> cmdline \<Rightarrow> 'd kernel \<Rightarrow> (int \<times> 'd kernel) option" where
  "cmd_mkdir M = path_command M fs_mk_dir None"

definition cmd_rm :: "'d machine \<Rightarrow> cmdline \<Rightarrow> 'd kernel \<Rightarrow> (int \<times> 'd kernel) option" where
  "cmd_rm M = path_command M fs_rm_file (Some main_not_file_message)"

definition cmd_rmdir :: "'d machine \<Rightarrow> cmdline \<Rightarrow> 'd kernel \<Rightarrow> (int \<times> 'd kernel) option" where
  "cmd_rmdir M = path_command M fs_rm_dir (Some main_not_folder_message)"

definition cmd_cat :: "'d machine \<Rightarrow> cmdline \<Rightarrow> 'd kernel \<Rightarrow> (int \<times> 'd kernel) option" where
  "cmd_cat M a k = do {
     let k = k\<lparr>read_out := fill (read_out k) 4096 0\<rparr>;
     w \<leftarrow> arg a 1;
     (p, k) \<leftarrow> path_arg M w k;
     (st, out, k) \<leftarrow> k_read_file M p (read_out k) 0 k;
     report None 2 st (k\<lparr>read_out := out\<rparr>) }"

text \<open>\<open>write src dst f\<close>.\<close>

definition cmd_write_copy :: "'d machine \<Rightarrow> cmdline \<Rightarrow> 'd kernel \<Rightarrow> (int \<times> 'd kernel) option" where
  "cmd_write_copy M a k = do {
     w1 \<leftarrow> arg a 1;
     (p, k) \<leftarrow> path_arg M w1 k;
     cp_src \<leftarrow> fs_strncpy (k_local M 1024 k) p 1024;
     w2 \<leftarrow> arg a 2;
     (p, k) \<leftarrow> path_arg M w2 k;
     cp_dst \<leftarrow> fs_strncpy (k_local M 1024 k) p 1024;
     src \<leftarrow> cstr cp_src;
     dst \<leftarrow> cstr cp_dst;
     (st, k) \<leftarrow> fs_call (fs_copy_file (ata M) src dst (current_dir_id k)) k;
     report None 0 st k }"

definition cmd_write_text :: "'d machine \<Rightarrow> cmdline \<Rightarrow> 'd kernel \<Rightarrow> (int \<times> 'd kernel) option" where
  "cmd_write_text M a k = do {
     content \<leftarrow> content_from a 2;
     w \<leftarrow> arg a 1;
     (p, k) \<leftarrow> path_arg M w k;
     (st, k) \<leftarrow> k_write_file M p content k;
     report None 0 st k }"

definition cmd_write :: "'d machine \<Rightarrow> cmdline \<Rightarrow> 'd kernel \<Rightarrow> (int \<times> 'd kernel) option" where
  "cmd_write M a k =
     (if argc a < 3 then Some (1, k)
      else if length (argvs a) = 4 \<and> fs_strcmp (arg_list a ! 3) (ascii ''f'') 2 \<noteq> 0 then cmd_write_copy M a k
      else cmd_write_text M a k)"

text \<open>The status of \<open>fs_read_file\<close> and the length that is counted are not used; the scan for the NUL happens.\<close>

definition cmd_wadd :: "'d machine \<Rightarrow> cmdline \<Rightarrow> 'd kernel \<Rightarrow> (int \<times> 'd kernel) option" where
  "cmd_wadd M a k =
     (if argc a < 3 then Some (1, k)
      else do {
        content \<leftarrow> content_from a 2;
        w \<leftarrow> arg a 1;
        let this_file_read = fill (k_local M 4096 k) 1024 0;
        (p, k) \<leftarrow> path_arg M w k;
        (st, this_file_read, k) \<leftarrow> k_read_file M p this_file_read 4096 k;
        old \<leftarrow> cstr this_file_read;
        (p, k) \<leftarrow> path_arg M w k;
        (joined, k) \<leftarrow> k_concat old content k;
        (joined, k) \<leftarrow> k_concat joined [10] k;
        (st, k) \<leftarrow> k_write_file M p joined k;
        report None 0 st k })"

definition cmd_cd :: "'d machine \<Rightarrow> cmdline \<Rightarrow> 'd kernel \<Rightarrow> (int \<times> 'd kernel) option" where
  "cmd_cd M a k = do {
     w \<leftarrow> arg a 1;
     (p, k) \<leftarrow> path_arg M w k;
     let k = k_debug (debug_print p) k;
     (p, k) \<leftarrow> path_arg M w k;
     (i, k) \<leftarrow> fs_call (path_to_id (ata M) p (current_dir_id k)) k;
     k \<leftarrow> k_debug64 M i k;
     (p, k) \<leftarrow> path_arg M w k;
     (i, k) \<leftarrow> fs_call (path_to_id (ata M) p (current_dir_id k)) k;
     if i = fs_not_found then Some (3, k_debug (debug_print (ascii ''fijufj'')) k)
     else Some (0, k\<lparr>current_dir_id := i\<rparr>) }"

text \<open>\<open>id_to_path\<close> always returns 0.\<close>

definition cmd_pwd :: "'d machine \<Rightarrow> cmdline \<Rightarrow> 'd kernel \<Rightarrow> (int \<times> 'd kernel) option" where
  "cmd_pwd M a k = do {
     (out, s) \<leftarrow> id_to_path (ata M) (current_dir_id k) (read_out k) (kfs k);
     report (Some main_not_folder_message) 2 0 (k\<lparr>read_out := out, kfs := s\<rparr>) }"

section \<open>Screen\<close>

text \<open>The two numbers that \<open>sw\<close> and \<open>se\<close> take from files; \<open>None\<close> as result is the early return.\<close>

definition numbers_in_files :: "'d machine \<Rightarrow> cmdline \<Rightarrow> 'd kernel \<Rightarrow> ((u64 \<times> u64) option \<times> 'd kernel) option" where
  "numbers_in_files M a k = do {
     w1 \<leftarrow> arg a 1;
     (p, k) \<leftarrow> path_arg M w1 k;
     (st1, b1, k) \<leftarrow> k_read_file M p (replicate 4 0) 4 k;
     w2 \<leftarrow> arg a 2;
     (p, k) \<leftarrow> path_arg M w2 k;
     (st2, b2, k) \<leftarrow> k_read_file M p (replicate 4 0) 4 k;
     if st1 = 1 \<or> st2 = 1 then Some (None, k)
     else do {
       x \<leftarrow> buf_to_u64 b1;
       y \<leftarrow> buf_to_u64 b2;
       Some (Some (x, y), k) } }"

definition sw_color :: "cmdline \<Rightarrow> u32" where
  "sw_color a =
     (let w = arg_list a; is_c = (\<lambda>i s. fs_strcmp (w ! i) (ascii s) 1 \<noteq> 0) in
      if 5 < length w \<and> is_c 4 ''c'' then
        (if is_c 5 ''0'' then 0xFF000000
         else if is_c 5 ''1'' then 0xFFFFFFFF
         else if is_c 5 ''2'' then 0xFF0000FF
         else if is_c 5 ''3'' then 0xFF00FF00
         else if is_c 5 ''4'' then 0xFFFF0000
         else if is_c 5 ''5'' then 0xFFFFFF00
         else if is_c 5 ''6'' then 0xFFFF00FF
         else color_bg)
      else color_bg)"

definition cmd_sw :: "'d machine \<Rightarrow> cmdline \<Rightarrow> 'd kernel \<Rightarrow> (int \<times> 'd kernel) option" where
  "cmd_sw M a k =
     (let this_f = (3 < length (argvs a) \<and> fs_strcmp (arg_list a ! 3) (ascii ''f'') 1 \<noteq> 0) in
      if \<not> this_f then do {
        w1 \<leftarrow> arg a 1;
        w2 \<leftarrow> arg a 2;
        (y, k) \<leftarrow> k_write (str_to_u64 w1) (str_to_u64 w2) color_fg (sw_color a) [32] k;
        Some (0, k) }
      else do {
        (r, k) \<leftarrow> numbers_in_files M a k;
        case r of
          None \<Rightarrow> Some (1, k)
        | Some (x, y) \<Rightarrow> do {
            (y, k) \<leftarrow> k_write x y color_fg (sw_color a) [32] k;
            Some (0, k) } })"

text \<open>\<open>se x y text [f|i|fi]\<close>: the text is the word or the file of that name, without \<open>path_resolve\<close>.\<close>

definition se_text :: "'d machine \<Rightarrow> bool \<Rightarrow> cmdline \<Rightarrow> 'd kernel \<Rightarrow> (bytes \<times> 'd kernel) option" where
  "se_text M this_ff a k = do {
     w \<leftarrow> arg a 3;
     if this_ff then do {
       (st, argvs3_path, k) \<leftarrow> k_read_file M w (k_local M 1024 k) 0 k;
       Some (argvs3_path, k) }
     else do {
       (argvs3_path, n) \<leftarrow> concat_copy (k_local M 1024 k) 0 w;
       argvs3_path \<leftarrow> poke argvs3_path n 0;
       Some (argvs3_path, k) } }"

definition cmd_se :: "'d machine \<Rightarrow> cmdline \<Rightarrow> 'd kernel \<Rightarrow> (int \<times> 'd kernel) option" where
  "cmd_se M a k =
     (let w = arg_list a;
          is_m = (\<lambda>s n. 4 < length w \<and> fs_strcmp (w ! 4) (ascii s) n \<noteq> 0);
          fi = is_m ''fi'' 2; f = is_m ''f'' 1;
          this_f = (fi \<or> f);
          this_ff = (fi \<or> \<not> f \<and> is_m ''i'' 2)
      in do {
        (argvs3_path, k) \<leftarrow> se_text M this_ff a k;
        if \<not> this_f then do {
          w1 \<leftarrow> arg a 1;
          w2 \<leftarrow> arg a 2;
          msg \<leftarrow> cstr argvs3_path;
          (y, k) \<leftarrow> k_write (str_to_u64 w1) (str_to_u64 w2) color_fg color_bg msg k;
          Some (0, k) }
        else do {
          (r, k) \<leftarrow> numbers_in_files M a k;
          case r of
            None \<Rightarrow> Some (1, k)
          | Some (x, y) \<Rightarrow> do {
              msg \<leftarrow> cstr argvs3_path;
              (y, k) \<leftarrow> k_write x y color_fg color_bg msg k;
              Some (0, k) } } })"

text \<open>The directory id becomes the prompt and its length the left margin.\<close>

definition recal_clt :: "'d machine \<Rightarrow> 'd kernel \<Rightarrow> 'd kernel option" where
  "recal_clt M k = do {
     (line, s) \<leftarrow> id_to_path (ata M) (current_dir_id k) (cmd_line_text k) (kfs k);
     n \<leftarrow> cstrlen line;
     line \<leftarrow> poke line n 62;
     line \<leftarrow> poke line (n + 1) 32;
     line \<leftarrow> poke line (n + 2) 0;
     Some (k\<lparr>kfs := s, cmd_line_text := line, con := (con k)\<lparr>global_defualt_crus_x := of_nat n + 2\<rparr>\<rparr>) }"

definition write_prompt :: "u64 \<Rightarrow> 'd kernel \<Rightarrow> 'd kernel option" where
  "write_prompt y k = do {
     line \<leftarrow> cstr (cmd_line_text k);
     (r, k) \<leftarrow> k_write 0 y color_fg color_bg line k;
     Some k }"

text \<open>
  With \<open>global_crus_y = 0\<close> the row of the prompt is \<open>0 - 1\<close>, which \<open>write\<close> cuts to the last row.
\<close>

definition re_drw_screen :: "'d machine \<Rightarrow> 'd kernel \<Rightarrow> 'd kernel option" where
  "re_drw_screen M k = do {
     let c = (con k)\<lparr>global_defualt_crus_x := 0, global_crus_x := 0, global_crus_y := 0,
                     global_last_crus_x := 0, global_last_crus_y := 0\<rparr>;
     c \<leftarrow> oloop 0 (unat (screen_rows c)) (\<lambda>yF c. oloop 0 (unat (screen_cols c)) (\<lambda>xF c. do {
            (y, c) \<leftarrow> screen_write (of_nat xF) (of_nat yF) color_fg color_bg [32] c;
            screen_put (of_nat yF) (of_nat xF) 0 c }) c) c;
     k \<leftarrow> recal_clt M (k\<lparr>con := c\<rparr>);
     let k = k\<lparr>con := (con k)\<lparr>global_crus_x := global_defualt_crus_x (con k)\<rparr>\<rparr>;
     write_prompt (global_crus_y (con k) - 1) k }"

definition cmd_clear :: "'d machine \<Rightarrow> cmdline \<Rightarrow> 'd kernel \<Rightarrow> (int \<times> 'd kernel) option" where
  "cmd_clear M a k = do { k \<leftarrow> re_drw_screen M k; Some (0, k) }"

section \<open>Commands that run commands\<close>

type_synonym 'd runner = "cstring \<Rightarrow> 'd kernel \<Rightarrow> (int \<times> 'd kernel) option"

text \<open>The loop of \<open>sh\<close> over the text of the file: \<open>line\<close> is what \<open>sh_command\<close> holds, an array of 1024 bytes.\<close>

fun sh_lines :: "'d runner \<Rightarrow> bytes \<Rightarrow> cstring \<Rightarrow> 'd kernel \<Rightarrow> 'd kernel option" where
  "sh_lines sc [] line k =
     (if line = [] then Some k
      else if 1024 \<le> length line then None
      else do { (r, k) \<leftarrow> sc line k; Some k })"
| "sh_lines sc (c # cs) line k =
     (if c = 0 then sh_lines sc [] line k
      else if 1024 \<le> length line then None
      else if c \<noteq> 10 then sh_lines sc cs (line @ [c]) k
      else do { (r, k) \<leftarrow> sc line k; sh_lines sc cs [] k })"

definition cmd_sh :: "'d machine \<Rightarrow> 'd runner \<Rightarrow> cmdline \<Rightarrow> 'd kernel \<Rightarrow> (int \<times> 'd kernel) option" where
  "cmd_sh M sc a k = do {
     w \<leftarrow> arg a 1;
     (p, k) \<leftarrow> path_arg M w k;
     (st, this_read_out, k) \<leftarrow> k_read_file M p (replicate 1024 0) 0 k;
     k \<leftarrow> sh_lines sc this_read_out [] k;
     Some (0, k) }"

definition cmd_if :: "'d machine \<Rightarrow> cmdline \<Rightarrow> 'd kernel \<Rightarrow> (int \<times> 'd kernel) option" where
  "cmd_if M a k = do {
     w1 \<leftarrow> arg a 1;
     (p, k) \<leftarrow> path_arg M w1 k;
     (st1, b1, k) \<leftarrow> k_read_file M p (replicate 1024 0) 1024 k;
     w2 \<leftarrow> arg a 2;
     (p, k) \<leftarrow> path_arg M w2 k;
     (st2, b2, k) \<leftarrow> k_read_file M p (replicate 1024 0) 1024 k;
     if st1 = 1 \<or> st2 = 1 then do { k \<leftarrow> set_message fs_not_found_message k; Some (3, k) }
     else Some (0, k\<lparr>last_if_stat := (if list_all (\<lambda>i. b1 ! i = b2 ! i) [0..<1024] then 1 else 0)\<rparr>) }"

text \<open>The array for the joined words is not initialised, and no NUL is stored behind them.\<close>

definition run_rest :: "'d machine \<Rightarrow> 'd runner \<Rightarrow> cmdline \<Rightarrow> 'd kernel \<Rightarrow> (int \<times> 'd kernel) option" where
  "run_rest M sc a k = do {
     (buf, point) \<leftarrow> join_args (tl (arg_list a)) True (k_local M 1024 k) 0;
     cmd \<leftarrow> cstr buf;
     (r, k) \<leftarrow> sc cmd k;
     Some (0, k) }"

definition cmd_fi :: "'d machine \<Rightarrow> 'd runner \<Rightarrow> cmdline \<Rightarrow> 'd kernel \<Rightarrow> (int \<times> 'd kernel) option" where
  "cmd_fi M sc a k = (if last_if_stat k = 0 then Some (4, k) else run_rest M sc a k)"

definition cmd_else :: "'d machine \<Rightarrow> 'd runner \<Rightarrow> cmdline \<Rightarrow> 'd kernel \<Rightarrow> (int \<times> 'd kernel) option" where
  "cmd_else M sc a k = (if last_if_stat k = 1 then Some (4, k) else run_rest M sc a k)"

definition cmd_echo :: "cmdline \<Rightarrow> 'd kernel \<Rightarrow> (int \<times> 'd kernel) option" where
  "cmd_echo a k = do {
     (out, point) \<leftarrow> join_args (tl (arg_list a)) True (fill (read_out k) 1024 0) 0;
     Some (2, k\<lparr>read_out := out\<rparr>) }"

text \<open>\<open>this_this\<close> is \<open>sh\<close> and the script, cut at 1023 bytes.\<close>

fun for_loop :: "'d machine \<Rightarrow> 'd runner \<Rightarrow> cmdline \<Rightarrow> cstring \<Rightarrow> nat \<Rightarrow> nat \<Rightarrow> 'd kernel \<Rightarrow> 'd kernel option" where
  "for_loop M sc a var i 0 k = Some k"
| "for_loop M sc a var i (Suc n) k = do {
     w2 \<leftarrow> arg a 2;
     let this_this = ascii ''sh '' @ take 1020 w2;
     (c, k) \<leftarrow> k_concat (ascii ''write /proc/for/'') var k;
     (c, k) \<leftarrow> k_concat c [32] k;
     (num, k) \<leftarrow> k_u64 M (of_nat i) k;
     (c, k) \<leftarrow> k_concat c num k;
     (r, k) \<leftarrow> sc c k;
     (r, k) \<leftarrow> sc this_this k;
     for_loop M sc a var (i + 1) n k }"

definition cmd_for :: "'d machine \<Rightarrow> 'd runner \<Rightarrow> 'd runner \<Rightarrow> cmdline \<Rightarrow> 'd kernel \<Rightarrow> (int \<times> 'd kernel) option" where
  "cmd_for M ent sc a k = do {
     w1 \<leftarrow> arg a 1;
     let for_range = str_to_u64 w1;
     var \<leftarrow> arg a 3;
     (c, k) \<leftarrow> k_concat (ascii ''mk /proc/for/'') var k;
     (r, k) \<leftarrow> ent c k;
     k \<leftarrow> for_loop M sc a var 0 (unat for_range) k;
     Some (0, k) }"

definition cmd_rand :: "'d machine \<Rightarrow> 'd runner \<Rightarrow> cmdline \<Rightarrow> 'd kernel \<Rightarrow> (int \<times> 'd kernel) option" where
  "cmd_rand M sc a k = do {
     let rand_num = simple_rand (rng_state k);
     (num, k) \<leftarrow> k_u64 M rand_num (k\<lparr>rng_state := rand_num\<rparr>);
     (c, k) \<leftarrow> k_concat (ascii ''write /var/rand '') num k;
     (r, k) \<leftarrow> sc c k;
     w \<leftarrow> arg a 1;
     if fs_strcmp w (ascii ''o'') 1 \<noteq> 0 then do {
       (num, k) \<leftarrow> k_u64 M rand_num k;
       out \<leftarrow> fs_strncpy (read_out k) num 10;
       Some (2, k\<lparr>read_out := out\<rparr>) }
     else if is_valid_number w = 1 then do {
       if str_to_u64 w = 0 then None else do {
       (num, k) \<leftarrow> k_u64 M (rand_num mod str_to_u64 w) k;
       (c, k) \<leftarrow> k_concat (ascii ''write /var/rand_2 '') num k;
       (r, k) \<leftarrow> sc c k;
       Some (0, k) } }
     else Some (0, k) }"

section \<open>Waiting\<close>

partial_function (option) get_input_c :: "('d kernel \<Rightarrow> 'd kernel) \<Rightarrow> 'd kernel \<Rightarrow> (u8 \<times> 'd kernel) option" where
  "get_input_c hlt k =
     (case read_kyboard_from_main 0 (keyboard k) of (st, c, kb) \<Rightarrow>
        if st \<noteq> 0 then Some (c, hlt (k\<lparr>keyboard := kb\<rparr>)) else get_input_c hlt (hlt (k\<lparr>keyboard := kb\<rparr>)))"

definition cmd_input :: "'d machine \<Rightarrow> cmdline \<Rightarrow> 'd kernel \<Rightarrow> (int \<times> 'd kernel) option" where
  "cmd_input M a k = do {
     (c, k) \<leftarrow> get_input_c (k_hlt M) k;
     (st, k) \<leftarrow> fs_call (fs_write_file (ata M) (ascii ''/input/input_c'') [c, 0] 0 (current_dir_id k)) k;
     Some (0, k) }"

text \<open>\<open>sleep_ms\<close>, where \<open>hlt\<close> may change the whole kernel.\<close>

partial_function (option) k_sleep_until :: "('d kernel \<Rightarrow> 'd kernel) \<Rightarrow> u64 \<Rightarrow> 'd kernel \<Rightarrow> 'd kernel option" where
  "k_sleep_until hlt target k =
     (if pit_get_ticks (sch k) < target then k_sleep_until hlt target (hlt k) else Some k)"

definition k_sleep_ms :: "'d machine \<Rightarrow> u64 \<Rightarrow> 'd kernel \<Rightarrow> 'd kernel option" where
  "k_sleep_ms M ms k = k_sleep_until (k_hlt M) (pit_get_ticks (sch k) + (ms * 100) div 1000) k"

definition cmd_sleep :: "'d machine \<Rightarrow> cmdline \<Rightarrow> 'd kernel \<Rightarrow> (int \<times> 'd kernel) option" where
  "cmd_sleep M a k = do {
     w \<leftarrow> arg a 1;
     k \<leftarrow> k_sleep_ms M (str_to_u64 w) k;
     Some (0, k) }"

section \<open>Tasks\<close>

fun task_names :: "task list \<Rightarrow> bytes \<Rightarrow> nat \<Rightarrow> (bytes \<times> nat) option" where
  "task_names [] out point = Some (out, point)"
| "task_names (t # ts) out point =
     (if t_active t \<noteq> 0 then do {
        name \<leftarrow> cstr (t_name t);
        (out, point) \<leftarrow> concat_copy out point name;
        out \<leftarrow> poke out point 10;
        task_names ts out (point + 1) }
      else task_names ts out point)"

definition cmd_task :: "'d machine \<Rightarrow> nat \<Rightarrow> cmdline \<Rightarrow> 'd kernel \<Rightarrow> (int \<times> 'd kernel) option" where
  "cmd_task M command_lenght a k = do {
     let k = k\<lparr>read_out := fill (read_out k) 1024 0\<rparr>;
     w \<leftarrow> arg a 1;
     if fs_strcmp w (ascii ''list'') command_lenght \<noteq> 0 then do {
       (out, point) \<leftarrow> task_names (take (unat (task_count (sch k))) (tasks (sch k))) (read_out k) 0;
       Some (2, k\<lparr>read_out := out\<rparr>) }
     else if fs_strcmp w (ascii ''del'') command_lenght \<noteq> 0 then do {
       content \<leftarrow> content_from a 2;
       s \<leftarrow> delet_task content (sch k);
       Some (1, k\<lparr>sch := s\<rparr>) }
     else if fs_strcmp w (ascii ''create'') command_lenght \<noteq> 0 then do {
       w2 \<leftarrow> arg a 2;
       w3 \<leftarrow> arg a 3;
       s \<leftarrow> creat_task_path (stacks M) (run_task_entry M) w2 w3 (sch k);
       Some (1, k\<lparr>sch := s\<rparr>) }
     else Some (1, k) }"

section \<open>Arithmetic\<close>

text \<open>
  \<open>fs_read_file(path_to_abs(w, id), ...)\<close>: for a relative path the argument is the static buffer itself, which the inner
  \<open>path_to_abs\<close> clears, fills with the directory and then extends by a copy of itself up to its end.
\<close>

fun self_copy :: "nat \<Rightarrow> nat \<Rightarrow> nat \<Rightarrow> bytes \<Rightarrow> (nat \<times> bytes) option" where
  "self_copy point i 0 res = Some (i, res)"
| "self_copy point i (Suc n) res = do {
     c \<leftarrow> peek res i;
     if c \<noteq> 0 \<and> point + i < 1023 then do { res \<leftarrow> poke res (point + i) c; self_copy point (i + 1) n res }
     else Some (i, res) }"

definition path_to_abs_of_buffer :: "'d ata_h \<Rightarrow> u64 \<Rightarrow> 'd fs \<Rightarrow> (cstring \<times> 'd fs) option" where
  "path_to_abs_of_buffer E dir_id s = do {
     (res, s) \<leftarrow> id_to_path E dir_id (replicate 1024 0) (s\<lparr>path_to_abs_path_res := replicate 1024 0\<rparr>);
     n \<leftarrow> cstrlen res;
     (res, n) \<leftarrow> (if n = 0 \<or> res ! (n - 1) \<noteq> slash then do { res \<leftarrow> poke res n slash; Some (res, n + 1) } else Some (res, n));
     (i, res) \<leftarrow> self_copy n 0 1024 res;
     res \<leftarrow> poke res (n + i) 0;
     Some (cstr_of res, s\<lparr>path_to_abs_path_res := res\<rparr>) }"

definition read_file_at :: "'d ata_h \<Rightarrow> cstring \<Rightarrow> bytes \<Rightarrow> u64 \<Rightarrow> u64 \<Rightarrow> 'd fs \<Rightarrow> (int \<times> bytes \<times> 'd fs) option" where
  "read_file_at E apath buffer max_size dir_id s = do {
     (this_id, s) \<leftarrow> path_to_id E apath dir_id s;
     if this_id = fs_not_found \<or> this_id = 0 then Some (1, buffer, s)
     else do {
       (r, s) \<leftarrow> search_table E (\<lambda>this_entry. e_id this_entry = this_id) s;
       case r of
         None \<Rightarrow> Some (1, buffer, s)
       | Some (i, i3, this_buffer) \<Rightarrow>
           if e_type (entry_at this_buffer i3) \<noteq> 2 then Some (1, buffer, s)
           else do {
             (buffer, s) \<leftarrow> fs_read_file_inside E buffer max_size (entry_at this_buffer i3) s;
             Some (0, buffer, s) } } }"

lemma fs_read_file_at:
  "fs_read_file E path buffer n cur s = do { (abs, s) \<leftarrow> path_to_abs E path cur s; read_file_at E abs buffer n cur s }"
  by (simp add: fs_read_file_def read_file_at_def)

text \<open>The number in a file for \<open>math ... f\<close>: the first 8 bytes of a 512-byte buffer.\<close>

definition math_number :: "'d machine \<Rightarrow> cstring \<Rightarrow> bytes \<Rightarrow> 'd kernel \<Rightarrow> (bytes \<times> 'd kernel) option" where
  "math_number M w this_buffer k = do {
     let this_buffer = fill this_buffer 512 0;
     (abs, k) \<leftarrow> fs_call (path_to_abs (ata M) w (current_dir_id k)) k;
     (abs, k) \<leftarrow> fs_call (if rel_or_abs_path w = 0 then path_to_abs (ata M) abs (current_dir_id k)
                          else path_to_abs_of_buffer (ata M) (current_dir_id k)) k;
     (st, this_buffer, s) \<leftarrow> read_file_at (ata M) abs this_buffer 0 (current_dir_id k) (kfs k);
     Some (this_buffer, k\<lparr>kfs := s\<rparr>) }"

definition math_params :: "'d machine \<Rightarrow> cmdline \<Rightarrow> 'd kernel \<Rightarrow> ((u64 \<times> u64) \<times> 'd kernel) option" where
  "math_params M a k =
     (if 5 < length (argvs a) then
        (if fs_strcmp (arg_list a ! 5) (ascii ''f'') 2 \<noteq> 0 then do {
           w2 \<leftarrow> arg a 2;
           (this_buffer, k) \<leftarrow> math_number M w2 (k_local M 512 k) k;
           let par1_str = take 8 this_buffer;
           w4 \<leftarrow> arg a 4;
           (this_buffer, k) \<leftarrow> math_number M w4 this_buffer k;
           let par3_str = take 8 this_buffer;
           par1 \<leftarrow> buf_to_u64 par1_str;
           par3 \<leftarrow> buf_to_u64 par3_str;
           Some ((par1, par3), k) }
         else Some ((0, 0), k))
      else do {
        w2 \<leftarrow> arg a 2;
        w4 \<leftarrow> arg a 4;
        Some ((str_to_u64 w2, str_to_u64 w4), k) })"

text \<open>\<open>Inl\<close> is an unknown operator, \<open>None\<close> a division by zero.\<close>

definition math_result :: "cstring \<Rightarrow> u64 \<Rightarrow> u64 \<Rightarrow> (int + u64) option" where
  "math_result par2 par1 par3 =
     (if par2 = ascii ''+'' then Some (Inr (par1 + par3))
      else if par2 = ascii ''-'' then Some (Inr (par1 - par3))
      else if par2 = ascii ''/'' then (if par3 = 0 then None else Some (Inr (par1 div par3)))
      else if par2 = ascii ''*'' then Some (Inr (par1 * par3))
      else if par2 = ascii ''c'' then Some (Inr (if par3 < par1 then 2 else if par1 = par3 then 1 else 0))
      else Some (Inl 4))"

definition cmd_math :: "'d machine \<Rightarrow> cmdline \<Rightarrow> 'd kernel \<Rightarrow> (int \<times> 'd kernel) option" where
  "cmd_math M a k = do {
     ((par1, par3), k) \<leftarrow> math_params M a k;
     par2 \<leftarrow> arg a 3;
     r \<leftarrow> math_result par2 par1 par3;
     case r of
       Inl e \<Rightarrow> Some (e, k)
     | Inr this_res \<Rightarrow> do {
         w1 \<leftarrow> arg a 1;
         (p, k) \<leftarrow> path_arg M w1 k;
         (num, k) \<leftarrow> k_u64 M this_res k;
         (st, k) \<leftarrow> k_write_file M p num k;
         Some (0, k) } }"

definition cmd_test :: "'d machine \<Rightarrow> cmdline \<Rightarrow> 'd kernel \<Rightarrow> (int \<times> 'd kernel) option" where
  "cmd_test M a k = do {
     w2 \<leftarrow> arg a 2;
     (p, k) \<leftarrow> path_arg M w2 k;
     test_target \<leftarrow> fs_strncpy (k_local M 1024 k) p 1024;
     w1 \<leftarrow> arg a 1;
     (p, k) \<leftarrow> path_arg M w1 k;
     test_output \<leftarrow> fs_strncpy (k_local M 1024 k) p 1024;
     target \<leftarrow> cstr test_target;
     output \<leftarrow> cstr test_output;
     s \<leftarrow> fs_test_file (ata M) target output (current_dir_id k) (kfs k);
     Some (0, k\<lparr>kfs := s\<rparr>) }"

end
