(* ===== verification/Pmm.thy ===== *)
theory Pmm
  imports KPrelude
begin

text \<open>
  The physical frame allocator of \<open>pmm.c\<close>. The memory map and the offset of the direct map come from the
  boot loader and are parameters; \<open>ram\<close> is what the chosen part of memory holds before \<open>pmm_init\<close> clears it.
  The bitmap is an array of \<open>bitmap_size\<close> bytes, and every access to it is checked.
\<close>

section \<open>State\<close>

definition FRAME_SIZE :: u64 where
  "FRAME_SIZE = 4096"

text \<open>\<open>struct limine_memmap_entry\<close>, with \<open>LIMINE_MEMMAP_USABLE\<close> as a test of its type.\<close>

record memmap_entry =
  m_base :: u64
  m_length :: u64
  m_usable :: bool

record pmm =
  pm_bitmap :: bytes
  pm_bitmap_virt :: u64
  bitmap_phys :: u64
  total_frame :: u64
  bitmap_size :: u64

section \<open>The bitmap\<close>

definition pmm_mask :: "u64 \<Rightarrow> u8" where
  "pmm_mask fream_index = push_bit (unat (fream_index mod 8)) 1"

definition pmm_bitmap_set :: "u64 \<Rightarrow> pmm \<Rightarrow> pmm option" where
  "pmm_bitmap_set fream_index p = do {
     let b = unat (fream_index div 8);
     v \<leftarrow> peek (pm_bitmap p) b;
     Some (p\<lparr>pm_bitmap := (pm_bitmap p)[b := v OR pmm_mask fream_index]\<rparr>) }"

definition pmm_bitmap_clear :: "u64 \<Rightarrow> pmm \<Rightarrow> pmm option" where
  "pmm_bitmap_clear fream_index p = do {
     let b = unat (fream_index div 8);
     v \<leftarrow> peek (pm_bitmap p) b;
     Some (p\<lparr>pm_bitmap := (pm_bitmap p)[b := v AND NOT (pmm_mask fream_index)]\<rparr>) }"

definition pmm_bitmap_read :: "u64 \<Rightarrow> pmm \<Rightarrow> int option" where
  "pmm_bitmap_read fream_index p = do {
     v \<leftarrow> peek (pm_bitmap p) (unat (fream_index div 8));
     Some (uint (v AND pmm_mask fream_index)) }"

section \<open>Start\<close>

text \<open>The first loop: the highest end of a usable entry.\<close>

definition memmap_hi :: "memmap_entry list \<Rightarrow> u64" where
  "memmap_hi entries = fold (\<lambda>entry hi.
     if \<not> m_usable entry then hi
     else let end0 = m_base entry + m_length entry in if hi < end0 then end0 else hi) entries 0"

text \<open>The second loop: the first usable entry that is large enough for the bitmap.\<close>

definition bitmap_home :: "memmap_entry list \<Rightarrow> u64 \<Rightarrow> memmap_entry option" where
  "bitmap_home entries sz = List.find (\<lambda>e. m_usable e \<and> sz \<le> m_length e) entries"

definition pmm_place :: "(u64 \<Rightarrow> u8) \<Rightarrow> u64 \<Rightarrow> memmap_entry list \<Rightarrow> pmm \<Rightarrow> pmm" where
  "pmm_place ram offset entries p =
     (case bitmap_home entries (bitmap_size p) of
        None \<Rightarrow> p
      | Some e \<Rightarrow> p\<lparr>bitmap_phys := m_base e, pm_bitmap_virt := m_base e + offset,
          pm_bitmap := map (\<lambda>k. ram (m_base e + of_nat k)) [0..<unat (bitmap_size p)]\<rparr>)"

fun pmm_fill :: "nat \<Rightarrow> nat \<Rightarrow> pmm \<Rightarrow> pmm option" where
  "pmm_fill i 0 p = Some p"
| "pmm_fill i (Suc n) p = do {
     b \<leftarrow> poke (pm_bitmap p) i 0xFF;
     pmm_fill (i + 1) n (p\<lparr>pm_bitmap := b\<rparr>) }"

text \<open>\<open>for (i2 = 0; i2 < n; i2++) bitmap_clear(i2 + first);\<close> and the same with \<open>bitmap_set\<close>.\<close>

fun pmm_clear_run :: "u64 \<Rightarrow> nat \<Rightarrow> pmm \<Rightarrow> pmm option" where
  "pmm_clear_run k 0 p = Some p"
| "pmm_clear_run k (Suc n) p = do {
     p \<leftarrow> pmm_bitmap_clear k p;
     pmm_clear_run (k + 1) n p }"

fun pmm_set_run :: "u64 \<Rightarrow> nat \<Rightarrow> pmm \<Rightarrow> pmm option" where
  "pmm_set_run k 0 p = Some p"
| "pmm_set_run k (Suc n) p = do {
     p \<leftarrow> pmm_bitmap_set k p;
     pmm_set_run (k + 1) n p }"

fun pmm_clear_entries :: "memmap_entry list \<Rightarrow> pmm \<Rightarrow> pmm option" where
  "pmm_clear_entries [] p = Some p"
| "pmm_clear_entries (e # es) p = do {
     p \<leftarrow> (if \<not> m_usable e then Some p
          else pmm_clear_run (m_base e div FRAME_SIZE) (unat (m_length e div FRAME_SIZE)) p);
     pmm_clear_entries es p }"

definition pmm_init :: "(u64 \<Rightarrow> u8) \<Rightarrow> u64 \<Rightarrow> memmap_entry list \<Rightarrow> pmm \<Rightarrow> pmm option" where
  "pmm_init ram offset entries p = do {
     let hi = memmap_hi entries;
     let p = p\<lparr>total_frame := (hi + FRAME_SIZE - 1) div FRAME_SIZE\<rparr>;
     let p = p\<lparr>bitmap_size := (total_frame p + 7) div 8\<rparr>;
     let p = pmm_place ram offset entries p;
     p \<leftarrow> pmm_fill 0 (unat (bitmap_size p)) p;
     p \<leftarrow> pmm_clear_entries entries p;
     pmm_set_run (bitmap_phys p div FRAME_SIZE) (unat ((bitmap_size p + FRAME_SIZE - 1) div FRAME_SIZE)) p }"

section \<open>Frames\<close>

text \<open>The loop over \<open>i\<close>, with \<open>n\<close> frames left.\<close>

fun pmm_alloc_from :: "u64 \<Rightarrow> nat \<Rightarrow> pmm \<Rightarrow> (u64 \<times> pmm) option" where
  "pmm_alloc_from i 0 p = Some (0, p)"
| "pmm_alloc_from i (Suc n) p = do {
     b \<leftarrow> pmm_bitmap_read i p;
     if b = 0 then do {
       p \<leftarrow> pmm_bitmap_set i p;
       Some (i * FRAME_SIZE, p) }
     else pmm_alloc_from (i + 1) n p }"

definition pmm_alloc_frame :: "pmm \<Rightarrow> (u64 \<times> pmm) option" where
  "pmm_alloc_frame p = pmm_alloc_from 0 (unat (total_frame p)) p"

definition pmm_free_frame :: "u64 \<Rightarrow> pmm \<Rightarrow> pmm option" where
  "pmm_free_frame FA p = pmm_bitmap_clear (FA div FRAME_SIZE) p"

definition pmm_phys_to_virt :: "u64 \<Rightarrow> u64 \<Rightarrow> u64" where
  "pmm_phys_to_virt offset phys = phys + offset"

section \<open>The set of free frames\<close>

text \<open>
  A frame is free when its bit is clear. \<open>pmm_ok\<close> is the state after \<open>pmm_init\<close>: the bitmap has a bit for every
  frame, and frame addresses do not overflow.
\<close>

definition frame_bit :: "bytes \<Rightarrow> nat \<Rightarrow> bool" where
  "frame_bit b i \<longleftrightarrow> bit (b ! (i div 8)) (i mod 8)"

definition free_frames :: "pmm \<Rightarrow> nat set" where
  "free_frames p = {i. i < unat (total_frame p) \<and> \<not> frame_bit (pm_bitmap p) i}"

definition pmm_ok :: "pmm \<Rightarrow> bool" where
  "pmm_ok p \<longleftrightarrow> length (pm_bitmap p) = (unat (total_frame p) + 7) div 8 \<and> unat (total_frame p) \<le> 2 ^ 52"

lemma unat_div8: "unat ((k :: u64) div 8) = unat k div 8"
  by (simp add: unat_div)

lemma unat_mod8: "unat ((k :: u64) mod 8) = unat k mod 8"
  by (simp add: unat_mod)

lemma bit_pmm_mask: "bit (pmm_mask k) j \<longleftrightarrow> j = unat k mod 8"
proof -
  have "unat k mod 8 < 8" by simp
  then show ?thesis by (auto simp: pmm_mask_def unat_mod8 bit_simps)
qed

lemma frame_split: "i div 8 = j div 8 \<and> i mod 8 = j mod 8 \<longleftrightarrow> i = (j :: nat)"
  by (metis div_mod_decomp)

lemma frame_bit_set:
  assumes "unat k div 8 < length b"
  shows "frame_bit (b[unat k div 8 := b ! (unat k div 8) OR pmm_mask k]) i
    \<longleftrightarrow> i = unat k \<or> frame_bit b i"
  using assms frame_split[of i "unat k"] by (auto simp: frame_bit_def nth_update bit_simps bit_pmm_mask)

lemma frame_bit_clear:
  assumes "unat k div 8 < length b"
  shows "frame_bit (b[unat k div 8 := b ! (unat k div 8) AND NOT (pmm_mask k)]) i
    \<longleftrightarrow> i \<noteq> unat k \<and> frame_bit b i"
proof -
  have "i mod 8 < 8" by simp
  then show ?thesis
    using assms frame_split[of i "unat k"] by (auto simp: frame_bit_def nth_update bit_simps bit_pmm_mask)
qed

lemma pmm_read_eq:
  assumes "unat k div 8 < length (pm_bitmap p)"
  shows "\<exists>v. pmm_bitmap_read k p = Some v \<and> (v = 0 \<longleftrightarrow> \<not> frame_bit (pm_bitmap p) (unat k))"
proof -
  have "uint (w AND pmm_mask k) = 0 \<longleftrightarrow> \<not> bit w (unat k mod 8)" for w
  proof -
    obtain m where m: "unat k mod 8 = m" "m < 8" by simp
    then have "w AND pmm_mask k = 0 \<longleftrightarrow> \<not> bit w (unat k mod 8)"
      by (auto simp: bit_eq_iff[of "w AND pmm_mask k"] bit_simps bit_pmm_mask m(1))
    then show ?thesis by (simp only: uint_0_iff)
  qed
  then show ?thesis using assms by (simp add: pmm_bitmap_read_def unat_div8 frame_bit_def)
qed

text \<open>The operations on one bit and on a run of bits.\<close>

definition same_layout :: "pmm \<Rightarrow> pmm \<Rightarrow> bool" where
  "same_layout p q \<longleftrightarrow> length (pm_bitmap q) = length (pm_bitmap p) \<and>
     q = p\<lparr>pm_bitmap := pm_bitmap q\<rparr>"

lemma same_layout_refl [simp]: "same_layout p p"
  by (simp add: same_layout_def)

lemma same_layout_trans: "same_layout p q \<Longrightarrow> same_layout q r \<Longrightarrow> same_layout p r"
  unfolding same_layout_def by (metis pmm.update_convs(1) pmm.surjective pmm.select_convs(1))

lemma same_layout_vars:
  assumes "same_layout p q"
  shows "length (pm_bitmap q) = length (pm_bitmap p)" "total_frame q = total_frame p"
    "bitmap_size q = bitmap_size p" "bitmap_phys q = bitmap_phys p" "pm_bitmap_virt q = pm_bitmap_virt p"
proof -
  obtain b where b: "q = p\<lparr>pm_bitmap := b\<rparr>" and "length (pm_bitmap q) = length (pm_bitmap p)"
    using assms by (auto simp: same_layout_def)
  then show "length (pm_bitmap q) = length (pm_bitmap p)" "total_frame q = total_frame p"
    "bitmap_size q = bitmap_size p" "bitmap_phys q = bitmap_phys p" "pm_bitmap_virt q = pm_bitmap_virt p"
    by (simp_all add: b)
qed

lemma pmm_set_effect:
  assumes "unat k div 8 < length (pm_bitmap p)"
  shows "\<exists>q. pmm_bitmap_set k p = Some q \<and> same_layout p q \<and>
    (\<forall>i. frame_bit (pm_bitmap q) i \<longleftrightarrow> i = unat k \<or> frame_bit (pm_bitmap p) i)"
  using assms by (simp add: pmm_bitmap_set_def Let_def unat_div8 same_layout_def frame_bit_set)

lemma pmm_clear_effect:
  assumes "unat k div 8 < length (pm_bitmap p)"
  shows "\<exists>q. pmm_bitmap_clear k p = Some q \<and> same_layout p q \<and>
    (\<forall>i. frame_bit (pm_bitmap q) i \<longleftrightarrow> i \<noteq> unat k \<and> frame_bit (pm_bitmap p) i)"
  using assms by (simp add: pmm_bitmap_clear_def Let_def unat_div8 same_layout_def frame_bit_clear)

lemma unat_Suc_word: "unat (k :: u64) + Suc n < 2 ^ 64 \<Longrightarrow> unat (k + 1) = unat k + 1"
  by (subst unat_add_lem[THEN iffD1]) simp_all

lemma pmm_clear_run_effect:
  assumes "unat k + n \<le> 8 * length (pm_bitmap p)" "unat k + n < 2 ^ 64"
  shows "\<exists>q. pmm_clear_run k n p = Some q \<and> same_layout p q \<and>
    (\<forall>i. frame_bit (pm_bitmap q) i \<longleftrightarrow> i \<notin> {unat k..<unat k + n} \<and> frame_bit (pm_bitmap p) i)"
  using assms
proof (induction n arbitrary: k p)
  case 0
  then show ?case by simp
next
  case (Suc n)
  have "unat k div 8 < length (pm_bitmap p)" using Suc.prems(1) by linarith
  from pmm_clear_effect[OF this] obtain p1 where
    p1: "pmm_bitmap_clear k p = Some p1" "same_layout p p1"
      "\<forall>i. frame_bit (pm_bitmap p1) i \<longleftrightarrow> i \<noteq> unat k \<and> frame_bit (pm_bitmap p) i"
    by blast
  have k1: "unat (k + 1) = unat k + 1" by (rule unat_Suc_word) (use Suc.prems in simp)
  obtain q where q: "pmm_clear_run (k + 1) n p1 = Some q" "same_layout p1 q"
      "\<forall>i. frame_bit (pm_bitmap q) i \<longleftrightarrow> i \<notin> {unat k + 1..<unat k + 1 + n} \<and> frame_bit (pm_bitmap p1) i"
    using Suc.IH[of "k + 1" p1] Suc.prems same_layout_vars(1)[OF p1(2)] by (auto simp: k1)
  have "i \<notin> {unat k + 1..<unat k + 1 + n} \<and> i \<noteq> unat k \<longleftrightarrow> i \<notin> {unat k..<unat k + Suc n}" for i
    by auto
  then show ?case
    using p1 q same_layout_trans[OF p1(2) q(2)] by (auto simp del: atLeastLessThan_iff)
qed

lemma pmm_set_run_effect:
  assumes "unat k + n \<le> 8 * length (pm_bitmap p)" "unat k + n < 2 ^ 64"
  shows "\<exists>q. pmm_set_run k n p = Some q \<and> same_layout p q \<and>
    (\<forall>i. frame_bit (pm_bitmap q) i \<longleftrightarrow> i \<in> {unat k..<unat k + n} \<or> frame_bit (pm_bitmap p) i)"
  using assms
proof (induction n arbitrary: k p)
  case 0
  then show ?case by simp
next
  case (Suc n)
  have "unat k div 8 < length (pm_bitmap p)" using Suc.prems(1) by linarith
  from pmm_set_effect[OF this] obtain p1 where
    p1: "pmm_bitmap_set k p = Some p1" "same_layout p p1"
      "\<forall>i. frame_bit (pm_bitmap p1) i \<longleftrightarrow> i = unat k \<or> frame_bit (pm_bitmap p) i"
    by blast
  have k1: "unat (k + 1) = unat k + 1" by (rule unat_Suc_word) (use Suc.prems in simp)
  obtain q where q: "pmm_set_run (k + 1) n p1 = Some q" "same_layout p1 q"
      "\<forall>i. frame_bit (pm_bitmap q) i \<longleftrightarrow> i \<in> {unat k + 1..<unat k + 1 + n} \<or> frame_bit (pm_bitmap p1) i"
    using Suc.IH[of "k + 1" p1] Suc.prems same_layout_vars(1)[OF p1(2)] by (auto simp: k1)
  have "i \<in> {unat k + 1..<unat k + 1 + n} \<or> i = unat k \<longleftrightarrow> i \<in> {unat k..<unat k + Suc n}" for i
    by auto
  then show ?case
    using p1 q same_layout_trans[OF p1(2) q(2)] by (auto simp del: atLeastLessThan_iff)
qed

lemma pmm_fill_eq:
  "i + n \<le> length (pm_bitmap p) \<Longrightarrow>
     pmm_fill i n p = Some (p\<lparr>pm_bitmap := take i (pm_bitmap p) @ replicate n 0xFF @ drop (i + n) (pm_bitmap p)\<rparr>)"
proof (induction n arbitrary: i p)
  case 0
  then show ?case by simp
next
  case (Suc n)
  have "take (Suc i) ((pm_bitmap p)[i := 255]) = take i (pm_bitmap p) @ [255]"
    using Suc.prems by (simp add: take_Suc_conv_app_nth)
  then show ?case using Suc by simp
qed

section \<open>Allocation\<close>

lemma finite_free_frames [simp]: "finite (free_frames p)"
  by (simp add: free_frames_def)

lemma pmm_ok_index: "pmm_ok p \<Longrightarrow> i < unat (total_frame p) \<Longrightarrow> i div 8 < length (pm_bitmap p)"
  unfolding pmm_ok_def by linarith

lemma same_layout_ok: "same_layout p q \<Longrightarrow> pmm_ok p \<Longrightarrow> pmm_ok q"
  by (simp add: pmm_ok_def same_layout_vars)

lemma pmm_alloc_from_effect:
  assumes "pmm_ok p" "unat i + n = unat (total_frame p)" "\<forall>j \<in> free_frames p. unat i \<le> j"
  shows "(free_frames p = {} \<longrightarrow> pmm_alloc_from i n p = Some (0, p)) \<and>
    (free_frames p \<noteq> {} \<longrightarrow> (\<exists>q. pmm_alloc_from i n p = Some (of_nat (Min (free_frames p)) * FRAME_SIZE, q) \<and>
       same_layout p q \<and> free_frames q = free_frames p - {Min (free_frames p)} \<and>
       (\<forall>j. frame_bit (pm_bitmap q) j \<longleftrightarrow> j = Min (free_frames p) \<or> frame_bit (pm_bitmap p) j)))"
  using assms
proof (induction n arbitrary: i)
  case 0
  then have "free_frames p = {}" by (auto simp: free_frames_def)
  then show ?case by simp
next
  case (Suc n)
  have lt: "unat i < unat (total_frame p)" using Suc.prems(2) by simp
  have ix: "unat i div 8 < length (pm_bitmap p)" using pmm_ok_index[OF Suc.prems(1) lt] .
  obtain v where v: "pmm_bitmap_read i p = Some v" "v = 0 \<longleftrightarrow> \<not> frame_bit (pm_bitmap p) (unat i)"
    using pmm_read_eq[OF ix] by blast
  show ?case
  proof (cases "v = 0")
    case True
    then have free: "unat i \<in> free_frames p" using v lt by (simp add: free_frames_def)
    have min: "Min (free_frames p) = unat i"
      by (rule Min_eqI) (use free Suc.prems(3) in auto)
    obtain q where q: "pmm_bitmap_set i p = Some q" "same_layout p q"
        "\<forall>j. frame_bit (pm_bitmap q) j \<longleftrightarrow> j = unat i \<or> frame_bit (pm_bitmap p) j"
      using pmm_set_effect[OF ix] by blast
    have "free_frames q = free_frames p - {unat i}"
      using q(3) same_layout_vars(2)[OF q(2)] by (auto simp: free_frames_def)
    then show ?thesis using v True q free min by auto
  next
    case False
    have i1: "unat (i + 1) = unat i + 1"
      by (rule unat_Suc_word[of i 0]) (use lt Suc.prems(1) in \<open>simp add: pmm_ok_def\<close>)
    have "\<forall>j \<in> free_frames p. unat (i + 1) \<le> j"
      using Suc.prems(3) v False by (fastforce simp: i1 free_frames_def Suc_le_eq le_neq_implies_less)
    then show ?thesis
      using Suc.IH[of "i + 1"] Suc.prems v False by (simp add: i1)
  qed
qed

lemma pmm_alloc_effect:
  assumes "pmm_ok p"
  shows "free_frames p = {} \<Longrightarrow> pmm_alloc_frame p = Some (0, p)"
    and "free_frames p \<noteq> {} \<Longrightarrow> \<exists>q. pmm_alloc_frame p = Some (of_nat (Min (free_frames p)) * FRAME_SIZE, q) \<and>
       same_layout p q \<and> free_frames q = free_frames p - {Min (free_frames p)} \<and>
       (\<forall>j. frame_bit (pm_bitmap q) j \<longleftrightarrow> j = Min (free_frames p) \<or> frame_bit (pm_bitmap p) j)"
  using pmm_alloc_from_effect[OF assms, of 0 "unat (total_frame p)"] by (simp_all add: pmm_alloc_frame_def)

lemma frame_addr: "f < 2 ^ 52 \<Longrightarrow> unat (of_nat f * FRAME_SIZE) = f * 4096"
  by (simp add: FRAME_SIZE_def unat_word_ariths unat_of_nat)

lemma frame_addr_div:
  assumes "pmm_ok p" "f < unat (total_frame p)"
  shows "unat (of_nat f * FRAME_SIZE) = f * 4096" "unat ((of_nat f * FRAME_SIZE) div FRAME_SIZE) = f"
proof -
  have "f < 2 ^ 52" using assms by (simp add: pmm_ok_def)
  then show "unat (of_nat f * FRAME_SIZE) = f * 4096" by (rule frame_addr)
  then show "unat ((of_nat f * FRAME_SIZE) div FRAME_SIZE) = f"
    by (simp add: unat_div) (simp add: FRAME_SIZE_def)
qed

lemma pmm_free_effect:
  assumes "pmm_ok p" "f < unat (total_frame p)"
  shows "\<exists>q. pmm_free_frame (of_nat f * FRAME_SIZE) p = Some q \<and> same_layout p q \<and>
    free_frames q = insert f (free_frames p) \<and>
    (\<forall>i. frame_bit (pm_bitmap q) i \<longleftrightarrow> i \<noteq> f \<and> frame_bit (pm_bitmap p) i)"
proof -
  note f = frame_addr_div(2)[OF assms]
  obtain q where q: "pmm_bitmap_clear ((of_nat f * FRAME_SIZE) div FRAME_SIZE) p = Some q" "same_layout p q"
      "\<forall>i. frame_bit (pm_bitmap q) i \<longleftrightarrow> i \<noteq> f \<and> frame_bit (pm_bitmap p) i"
    using pmm_clear_effect[of "(of_nat f * FRAME_SIZE) div FRAME_SIZE" p] pmm_ok_index[OF assms] by (auto simp only: f)
  have "free_frames q = insert f (free_frames p)"
    using q(3) assms(2) same_layout_vars(2)[OF q(2)] by (auto simp: free_frames_def)
  then show ?thesis using q by (simp add: pmm_free_frame_def)
qed

section \<open>What \<open>pmm_init\<close> establishes\<close>

definition entry_frames :: "memmap_entry \<Rightarrow> nat set" where
  "entry_frames e = {unat (m_base e) div 4096..<unat (m_base e) div 4096 + unat (m_length e) div 4096}"

definition usable_frames :: "memmap_entry list \<Rightarrow> nat set" where
  "usable_frames entries = (\<Union>e \<in> {e \<in> set entries. m_usable e}. entry_frames e)"

text \<open>No usable entry reaches the last page of the address space, so that no end address overflows.\<close>

definition memmap_ok :: "memmap_entry list \<Rightarrow> bool" where
  "memmap_ok entries \<longleftrightarrow> (\<forall>e \<in> set entries. m_usable e \<longrightarrow> unat (m_base e) + unat (m_length e) + 4096 \<le> 2 ^ 64)"

definition memmap_top :: "memmap_entry list \<Rightarrow> nat" where
  "memmap_top entries = fold (\<lambda>e t. if m_usable e then max t (unat (m_base e) + unat (m_length e)) else t) entries 0"

definition init_frames :: "memmap_entry list \<Rightarrow> nat" where
  "init_frames entries = (memmap_top entries + 4095) div 4096"

lemma memmap_top_fold:
  assumes "memmap_ok entries" "t + 4096 \<le> 2 ^ 64"
  shows "let u = fold (\<lambda>e t. if m_usable e then max t (unat (m_base e) + unat (m_length e)) else t) entries t in
    u + 4096 \<le> 2 ^ 64 \<and> t \<le> u \<and>
    (\<forall>e \<in> set entries. m_usable e \<longrightarrow> unat (m_base e) + unat (m_length e) \<le> u) \<and>
    fold (\<lambda>entry hi. if \<not> m_usable entry then hi
       else let end0 = m_base entry + m_length entry in if hi < end0 then end0 else hi) entries (of_nat t) = of_nat u"
  using assms
proof (induction entries arbitrary: t)
  case Nil
  then show ?case by simp
next
  case (Cons e es)
  define t' where "t' = (if m_usable e then max t (unat (m_base e) + unat (m_length e)) else t)"
  have t': "t' + 4096 \<le> 2 ^ 64" "t \<le> t'" "m_usable e \<Longrightarrow> unat (m_base e) + unat (m_length e) \<le> t'"
    using Cons.prems by (auto simp: t'_def memmap_ok_def)
  have step: "(if \<not> m_usable e then of_nat t
       else let end0 = m_base e + m_length e in if of_nat t < end0 then end0 else of_nat t) = (of_nat t' :: u64)"
  proof (cases "m_usable e")
    case True
    then have "unat (m_base e) + unat (m_length e) < 2 ^ 64" using Cons.prems by (auto simp: memmap_ok_def)
    then have "unat (m_base e + m_length e) = unat (m_base e) + unat (m_length e)"
      by (simp add: unat_add_lem[THEN iffD1])
    then show ?thesis
      using True Cons.prems(2) by (auto simp: t'_def Let_def word_less_nat_alt unat_of_nat max_def)
  next
    case False
    then show ?thesis by (simp add: t'_def)
  qed
  have "memmap_ok es" using Cons.prems(1) by (simp add: memmap_ok_def)
  from Cons.IH[OF this t'(1)] show ?case
    using t' by (simp add: step Let_def flip: t'_def) (auto intro: order_trans)
qed

lemma memmap_hi_eq:
  assumes "memmap_ok entries"
  shows "memmap_hi entries = of_nat (memmap_top entries)" "memmap_top entries + 4096 \<le> 2 ^ 64"
    "e \<in> set entries \<Longrightarrow> m_usable e \<Longrightarrow> unat (m_base e) + unat (m_length e) \<le> memmap_top entries"
  using memmap_top_fold[OF assms, of 0] by (auto simp: Let_def memmap_hi_def memmap_top_def)

lemma bitmap_home_Some:
  "bitmap_home entries sz = Some e \<Longrightarrow> e \<in> set entries \<and> m_usable e \<and> sz \<le> m_length e"
  by (auto simp: bitmap_home_def find_Some_iff)

lemma pmm_clear_entries_effect:
  assumes "\<forall>e \<in> set entries. m_usable e \<longrightarrow>
      unat (m_base e) div 4096 + unat (m_length e) div 4096 \<le> 8 * length (pm_bitmap p)"
    "length (pm_bitmap p) < 2 ^ 60"
  shows "\<exists>q. pmm_clear_entries entries p = Some q \<and> same_layout p q \<and>
    (\<forall>i. frame_bit (pm_bitmap q) i \<longleftrightarrow> i \<notin> usable_frames entries \<and> frame_bit (pm_bitmap p) i)"
  using assms
proof (induction entries arbitrary: p)
  case Nil
  then show ?case by (simp add: usable_frames_def)
next
  case (Cons e es)
  have "\<exists>q. (if \<not> m_usable e then Some p
        else pmm_clear_run (m_base e div FRAME_SIZE) (unat (m_length e div FRAME_SIZE)) p) = Some q \<and>
      same_layout p q \<and> (\<forall>i. frame_bit (pm_bitmap q) i \<longleftrightarrow> i \<notin> usable_frames [e] \<and> frame_bit (pm_bitmap p) i)"
  proof (cases "m_usable e")
    case True
    then show ?thesis
      using pmm_clear_run_effect[of "m_base e div FRAME_SIZE" "unat (m_length e div FRAME_SIZE)" p] Cons.prems
      by (simp add: usable_frames_def entry_frames_def unat_div FRAME_SIZE_def)
  next
    case False
    then show ?thesis by (simp add: usable_frames_def)
  qed
  then obtain p1 where p1: "(if \<not> m_usable e then Some p
        else pmm_clear_run (m_base e div FRAME_SIZE) (unat (m_length e div FRAME_SIZE)) p) = Some p1"
      "same_layout p p1" "\<forall>i. frame_bit (pm_bitmap p1) i \<longleftrightarrow> i \<notin> usable_frames [e] \<and> frame_bit (pm_bitmap p) i"
    by blast
  obtain q where q: "pmm_clear_entries es p1 = Some q" "same_layout p1 q"
      "\<forall>i. frame_bit (pm_bitmap q) i \<longleftrightarrow> i \<notin> usable_frames es \<and> frame_bit (pm_bitmap p1) i"
    using Cons.IH[of p1] Cons.prems same_layout_vars(1)[OF p1(2)] by auto
  have "usable_frames (e # es) = usable_frames [e] \<union> usable_frames es"
    by (auto simp: usable_frames_def)
  then show ?case using p1 q same_layout_trans[OF p1(2) q(2)] by auto
qed

definition init_bytes :: "memmap_entry list \<Rightarrow> nat" where
  "init_bytes entries = (init_frames entries + 7) div 8"

text \<open>The frames that hold the bitmap, when it is put at the start of the entry \<open>h\<close>.\<close>

definition bitmap_frames :: "memmap_entry list \<Rightarrow> memmap_entry \<Rightarrow> nat set" where
  "bitmap_frames entries h =
     {unat (m_base h) div 4096..<unat (m_base h) div 4096 + (init_bytes entries + 4095) div 4096}"

lemma init_words:
  assumes "memmap_ok entries"
  shows "(memmap_hi entries + FRAME_SIZE - 1) div FRAME_SIZE = of_nat (init_frames entries)"
    "(of_nat (init_frames entries) + 7) div 8 = (of_nat (init_bytes entries) :: u64)"
    "init_frames entries \<le> 2 ^ 52" "init_bytes entries \<le> 2 ^ 49"
    "unat (of_nat (init_frames entries) :: u64) = init_frames entries"
    "unat (of_nat (init_bytes entries) :: u64) = init_bytes entries"
    "unat ((of_nat (init_bytes entries) + FRAME_SIZE - 1) div FRAME_SIZE) = (init_bytes entries + 4095) div 4096"
proof -
  note hi = memmap_hi_eq[OF assms]
  show fr: "init_frames entries \<le> 2 ^ 52" 
  proof -
    have "init_frames entries * 4096 \<le> memmap_top entries + 4095" by (simp add: init_frames_def)
    then show ?thesis using hi(2) by simp
  qed
  show by0: "init_bytes entries \<le> 2 ^ 49" 
  proof -
    have "init_bytes entries * 8 \<le> init_frames entries + 7" by (simp add: init_bytes_def)
    then show ?thesis using fr by simp
  qed
  show uf: "unat (of_nat (init_frames entries) :: u64) = init_frames entries" using fr by (simp add: unat_of_nat)
  show ub: "unat (of_nat (init_bytes entries) :: u64) = init_bytes entries" using by0 by (simp add: unat_of_nat)
  have "unat (of_nat (memmap_top entries) + 4095 :: u64) = memmap_top entries + 4095"
    using hi(2) by (simp add: unat_word_ariths unat_of_nat)
  then have "unat ((of_nat (memmap_top entries) + 4095 :: u64) div 4096) = init_frames entries"
    by (simp add: unat_div init_frames_def)
  then show "(memmap_hi entries + FRAME_SIZE - 1) div FRAME_SIZE = of_nat (init_frames entries)"
    unfolding hi(1) using uf by (simp add: FRAME_SIZE_def word_unat_eq_iff add.commute)
  have "unat (of_nat (init_frames entries) + 7 :: u64) = init_frames entries + 7"
    using fr by (simp add: unat_word_ariths unat_of_nat)
  then have "unat ((of_nat (init_frames entries) + 7 :: u64) div 8) = init_bytes entries"
    by (simp add: unat_div init_bytes_def)
  then show "(of_nat (init_frames entries) + 7) div 8 = (of_nat (init_bytes entries) :: u64)"
    using ub by (simp add: word_unat_eq_iff)
  have "unat (of_nat (init_bytes entries) + 4095 :: u64) = init_bytes entries + 4095"
    using by0 by (simp add: unat_word_ariths unat_of_nat)
  then have "unat ((of_nat (init_bytes entries) + 4095 :: u64) div 4096) = (init_bytes entries + 4095) div 4096"
    by (simp add: unat_div)
  then show "unat ((of_nat (init_bytes entries) + FRAME_SIZE - 1) div FRAME_SIZE) = (init_bytes entries + 4095) div 4096"
    by (simp add: FRAME_SIZE_def add.commute)
qed

lemma ceil_bound: "k + n \<le> t \<Longrightarrow> k div 4096 + (n + 4095) div 4096 \<le> (t + 4095) div (4096 :: nat)"
  by linarith

lemma pmm_init_effect:
  assumes "memmap_ok entries" "bitmap_home entries (of_nat (init_bytes entries)) = Some h"
  shows "\<exists>q. pmm_init ram offset entries p = Some q \<and> pmm_ok q \<and>
    unat (total_frame q) = init_frames entries \<and> bitmap_phys q = m_base h \<and>
    pm_bitmap_virt q = m_base h + offset \<and>
    free_frames q = usable_frames entries - bitmap_frames entries h"
proof -
  note w = init_words[OF assms(1)]
  note hi = memmap_hi_eq[OF assms(1)]
  have h: "h \<in> set entries" "m_usable h" "init_bytes entries \<le> unat (m_length h)"
    using bitmap_home_Some[OF assms(2)] by (simp_all add: word_le_nat_alt w)
  define p0 where "p0 = p\<lparr>total_frame := of_nat (init_frames entries), bitmap_size := of_nat (init_bytes entries),
      bitmap_phys := m_base h, pm_bitmap_virt := m_base h + offset,
      pm_bitmap := replicate (init_bytes entries) 0xFF\<rparr>"
  have cover: "init_frames entries \<le> 8 * init_bytes entries" unfolding init_bytes_def by linarith
  have in_range: "unat (m_base e) div 4096 + unat (m_length e) div 4096 \<le> init_frames entries"
    if "e \<in> set entries" "m_usable e" for e
    using hi(3)[OF that] unfolding init_frames_def by linarith
  obtain p1 where p1: "pmm_clear_entries entries p0 = Some p1" "same_layout p0 p1"
      "\<forall>i. frame_bit (pm_bitmap p1) i \<longleftrightarrow> i \<notin> usable_frames entries \<and> frame_bit (pm_bitmap p0) i"
    using pmm_clear_entries_effect[of entries p0] in_range cover w(4)
    by (fastforce simp: p0_def intro: order_trans)
  note v1 = same_layout_vars[OF p1(2)]
  have base: "unat (m_base h) div 4096 + (init_bytes entries + 4095) div 4096 \<le> init_frames entries"
    unfolding init_frames_def using ceil_bound hi(3)[OF h(1,2)] h(3) by (meson add_left_mono order_trans)
  have u: "unat (m_base h div FRAME_SIZE) = unat (m_base h) div 4096" by (simp add: unat_div FRAME_SIZE_def)
  have len1: "length (pm_bitmap p1) = init_bytes entries" using v1(1) by (simp add: p0_def)
  have run: "unat (m_base h div FRAME_SIZE) + (init_bytes entries + 4095) div 4096 \<le> 8 * length (pm_bitmap p1)"
    using base cover by (simp add: u len1)
  moreover have "unat (m_base h div FRAME_SIZE) + (init_bytes entries + 4095) div 4096 < 2 ^ 64"
    using base w(3) by (simp add: u)
  ultimately obtain q where q: "pmm_set_run (m_base h div FRAME_SIZE) ((init_bytes entries + 4095) div 4096) p1 = Some q"
      "same_layout p1 q"
      "\<forall>i. frame_bit (pm_bitmap q) i \<longleftrightarrow> i \<in> bitmap_frames entries h \<or> frame_bit (pm_bitmap p1) i"
    using pmm_set_run_effect[of "m_base h div FRAME_SIZE" _ p1] by (auto simp only: bitmap_frames_def u)
  note v2 = same_layout_vars[OF q(2)]
  have full: "frame_bit (pm_bitmap p0) i" if "i < init_frames entries" for i
  proof -
    have "i div 8 < init_bytes entries" using that unfolding init_bytes_def by linarith
    moreover have "bit (0xFF :: u8) (i mod 8)"
      using bit_mask_iff[of 8 "i mod 8", where 'a = u8] by (simp add: mask_eq_exp_minus_1)
    ultimately show ?thesis by (simp add: frame_bit_def p0_def)
  qed
  have lt: "i < init_frames entries" if "i \<in> usable_frames entries" for i
    using that in_range by (fastforce simp: usable_frames_def entry_frames_def)
  have "pmm_init ram offset entries p = Some q"
    using p1(1) q(1) v1 w(6) assms(2)
    by (simp add: pmm_init_def w(1,2,7) pmm_place_def pmm_fill_eq p0_def Let_def)
  moreover have "free_frames q = usable_frames entries - bitmap_frames entries h"
    using q(3) p1(3) full lt v1 v2 w(5) by (auto simp: free_frames_def p0_def)
  ultimately show ?thesis
    using v1 v2 w by (simp add: pmm_ok_def p0_def init_bytes_def)
qed

section \<open>The interface to a client\<close>

text \<open>
  What a client may rely on: \<open>avail\<close> is the set of free frames, an allocation takes one of them and
  returns its address, or returns 0 and changes nothing. The held addresses of a client that only frees what it
  holds are never given out again.
\<close>

locale frame_allocator =
  fixes alloc :: "'s \<Rightarrow> (u64 \<times> 's) option"
    and free :: "u64 \<Rightarrow> 's \<Rightarrow> 's option"
    and avail :: "'s \<Rightarrow> nat set"
    and frames :: "'s \<Rightarrow> nat"
    and ok :: "'s \<Rightarrow> bool"
  assumes alloc_none: "ok s \<Longrightarrow> avail s = {} \<Longrightarrow> alloc s = Some (0, s)"
    and alloc_some: "ok s \<Longrightarrow> avail s \<noteq> {} \<Longrightarrow>
          \<exists>f t. f \<in> avail s \<and> alloc s = Some (of_nat f * FRAME_SIZE, t) \<and> ok t \<and> frames t = frames s \<and> avail t = avail s - {f}"
    and free_some: "ok s \<Longrightarrow> f < frames s \<Longrightarrow>
          \<exists>t. free (of_nat f * FRAME_SIZE) s = Some t \<and> ok t \<and> frames t = frames s \<and> avail t = insert f (avail s)"
    and avail_bound: "ok s \<Longrightarrow> f \<in> avail s \<Longrightarrow> f < frames s"
    and frames_bound: "ok s \<Longrightarrow> frames s \<le> 2 ^ 52"
begin

lemma addr_inj: "ok s \<Longrightarrow> f < frames s \<Longrightarrow> g < frames s \<Longrightarrow> of_nat f * FRAME_SIZE = of_nat g * FRAME_SIZE \<Longrightarrow> f = g"
proof -
  assume ok: "ok s" and lt: "f < frames s" "g < frames s" and eq: "of_nat f * FRAME_SIZE = of_nat g * FRAME_SIZE"
  have addr: "unat (of_nat k * FRAME_SIZE) = k * 4096" if "k < frames s" for k
    by (rule frame_addr) (rule less_le_trans[OF that frames_bound[OF ok]])
  from eq have "unat (of_nat f * FRAME_SIZE) = unat (of_nat g * FRAME_SIZE)" by (rule arg_cong)
  then have "f * 4096 = g * 4096" by (simp only: addr[OF lt(1)] addr[OF lt(2)])
  then show "f = g" by simp
qed

definition holds :: "'s \<Rightarrow> u64 set \<Rightarrow> bool" where
  "holds s H \<longleftrightarrow> (\<forall>a \<in> H. \<exists>f < frames s. f \<notin> avail s \<and> a = of_nat f * FRAME_SIZE)"

lemma holds_alloc:
  assumes "ok s" "holds s H" "alloc s = Some (a, t)" "a \<noteq> 0"
  shows "a \<notin> H \<and> ok t \<and> frames t = frames s \<and> holds t (insert a H)"
proof -
  have "avail s \<noteq> {}" using assms alloc_none by force
  from alloc_some[OF assms(1) this] assms(3) obtain f where
    f: "f \<in> avail s" "a = of_nat f * FRAME_SIZE" "ok t" "frames t = frames s" "avail t = avail s - {f}"
    by auto
  have lt: "f < frames s" using avail_bound[OF assms(1) f(1)] .
  have "a \<notin> H"
  proof
    assume "a \<in> H"
    then obtain g where g: "g < frames s" "g \<notin> avail s" "a = of_nat g * FRAME_SIZE"
      using assms(2) by (auto simp: holds_def)
    then show False using addr_inj[OF assms(1) lt g(1)] f by simp
  qed
  moreover have "holds t (insert a H)" using assms(2) f lt by (auto simp: holds_def)
  ultimately show ?thesis using f by simp
qed

lemma holds_free:
  assumes "ok s" "holds s H" "a \<in> H" "free a s = Some t"
  shows "ok t \<and> frames t = frames s \<and> holds t (H - {a})"
proof -
  obtain f where f: "f < frames s" "f \<notin> avail s" "a = of_nat f * FRAME_SIZE"
    using assms(2,3) by (auto simp: holds_def)
  from free_some[OF assms(1) f(1)] assms(4) have
    t: "ok t" "frames t = frames s" "avail t = insert f (avail s)" by (auto simp: f(3))
  have "\<exists>g < frames t. g \<notin> avail t \<and> b = of_nat g * FRAME_SIZE" if "b \<in> H - {a}" for b
    using that assms(2) t f(3) by (fastforce simp: holds_def)
  then show ?thesis using t by (auto simp: holds_def)
qed

end

interpretation pa: frame_allocator pmm_alloc_frame pmm_free_frame free_frames "\<lambda>p. unat (total_frame p)" pmm_ok
proof unfold_locales
  fix p f assume ok: "pmm_ok p"
  show "free_frames p = {} \<Longrightarrow> pmm_alloc_frame p = Some (0, p)" by (rule pmm_alloc_effect(1)[OF ok])
  show "f \<in> free_frames p \<Longrightarrow> f < unat (total_frame p)" by (simp add: free_frames_def)
  show "unat (total_frame p) \<le> 2 ^ 52" using ok by (simp add: pmm_ok_def)
  show "\<exists>t. pmm_free_frame (of_nat f * FRAME_SIZE) p = Some t \<and> pmm_ok t \<and>
      unat (total_frame t) = unat (total_frame p) \<and> free_frames t = insert f (free_frames p)"
    if "f < unat (total_frame p)"
    using pmm_free_effect[OF ok that] same_layout_ok[OF _ ok] same_layout_vars(2) by metis
  assume ne: "free_frames p \<noteq> {}"
  obtain q where "pmm_alloc_frame p = Some (of_nat (Min (free_frames p)) * FRAME_SIZE, q)"
      "same_layout p q" "free_frames q = free_frames p - {Min (free_frames p)}"
    using pmm_alloc_effect(2)[OF ok ne] by blast
  then show "\<exists>f t. f \<in> free_frames p \<and> pmm_alloc_frame p = Some (of_nat f * FRAME_SIZE, t) \<and> pmm_ok t \<and>
      unat (total_frame t) = unat (total_frame p) \<and> free_frames t = free_frames p - {f}"
    using Min_in[OF finite_free_frames ne] same_layout_ok[of p q] ok same_layout_vars(2)[of p q]
    by (intro exI[of _ "Min (free_frames p)"] exI[of _ q]) simp
qed

text \<open>A client that starts with nothing and frees only what it holds; \<open>H\<close> is what it holds.\<close>

inductive pmm_client :: "pmm \<Rightarrow> pmm \<Rightarrow> u64 set \<Rightarrow> bool" for p0 where
  start: "pmm_client p0 p0 {}"
| alloc: "pmm_client p0 p H \<Longrightarrow> pmm_alloc_frame p = Some (a, q) \<Longrightarrow> a \<noteq> 0 \<Longrightarrow> pmm_client p0 q (insert a H)"
| exhausted: "pmm_client p0 p H \<Longrightarrow> pmm_alloc_frame p = Some (0, q) \<Longrightarrow> free_frames p = {} \<Longrightarrow> pmm_client p0 q H"
| free: "pmm_client p0 p H \<Longrightarrow> a \<in> H \<Longrightarrow> pmm_free_frame a p = Some q \<Longrightarrow> pmm_client p0 q (H - {a})"

lemma pmm_client_holds: "pmm_client p0 p H \<Longrightarrow> pmm_ok p0 \<Longrightarrow> pmm_ok p \<and> pa.holds p H"
proof (induction rule: pmm_client.induct)
  case start
  then show ?case by (simp add: pa.holds_def)
next
  case (alloc p H a q)
  then show ?case using pa.holds_alloc by blast
next
  case (exhausted p H q)
  then show ?case using pmm_alloc_effect(1) by simp
next
  case (free p H a q)
  then show ?case using pa.holds_free by blast
qed

lemma bitmap_eqI:
  assumes "length a = length b" "\<forall>i. frame_bit a i \<longleftrightarrow> frame_bit b i"
  shows "a = b"
proof (rule nth_equalityI[OF assms(1)])
  fix i assume "i < length a"
  show "a ! i = b ! i"
  proof (rule bit_word_eqI)
    fix j assume "j < LENGTH(8)"
    then have "(8 * i + j) div 8 = i" "(8 * i + j) mod 8 = j" by simp_all
    with assms(2)[rule_format, of "8 * i + j"] show "bit (a ! i) j \<longleftrightarrow> bit (b ! i) j"
      by (simp add: frame_bit_def)
  qed
qed

section \<open>Properties\<close>

text \<open>C26. On a memory map whose usable entries do not reach the last page, with a usable entry large enough for
  the bitmap, \<open>pmm_init\<close> succeeds without an access outside the bitmap: the allocator covers all frames up
  to the highest usable address, and the free frames are those of the usable entries less the frames that hold the
  bitmap itself.\<close>

theorem pmm_init_frees_usable:
  assumes "memmap_ok entries" "bitmap_home entries (of_nat (init_bytes entries)) = Some h"
  shows "\<exists>q. pmm_init ram offset entries p = Some q \<and> pmm_ok q \<and>
    unat (total_frame q) = init_frames entries \<and> bitmap_phys q = m_base h \<and>
    pm_bitmap_virt q = pmm_phys_to_virt offset (m_base h) \<and>
    free_frames q = usable_frames entries - bitmap_frames entries h"
  using pmm_init_effect[OF assms, of ram offset p] by (simp add: pmm_phys_to_virt_def)

definition small_memmap :: "memmap_entry list" where
  "small_memmap = [\<lparr>m_base = 0, m_length = 0x1000, m_usable = False\<rparr>, \<lparr>m_base = 0x1000, m_length = 0x3000, m_usable = True\<rparr>]"

definition small_pmm :: pmm where
  "small_pmm = \<lparr>pm_bitmap = [0xF3], pm_bitmap_virt = 0xF000, bitmap_phys = 0x1000, total_frame = 4, bitmap_size = 1\<rparr>"

theorem pmm_init_frees_usable_witness:
  "\<exists>q. pmm_init (\<lambda>a. 0x55) 0xE000 small_memmap small_pmm = Some q \<and> unat (total_frame q) = 4 \<and>
     free_frames q = {2, 3}"
proof -
  have n: "init_frames small_memmap = 4" "init_bytes small_memmap = 1"
    by (simp_all add: init_bytes_def init_frames_def memmap_top_def small_memmap_def)
  have u: "usable_frames small_memmap = {1..<4}"
  proof -
    have "{e \<in> set small_memmap. m_usable e} = {\<lparr>m_base = 0x1000, m_length = 0x3000, m_usable = True\<rparr>}"
      by (auto simp: small_memmap_def)
    then show ?thesis by (simp add: usable_frames_def entry_frames_def)
  qed
  have b: "bitmap_frames small_memmap (small_memmap ! 1) = {1}"
    unfolding bitmap_frames_def n by (simp add: small_memmap_def)
  have "{1..<4} - {1} = {2, 3 :: nat}" by auto
  moreover have "memmap_ok small_memmap" by (simp add: memmap_ok_def small_memmap_def)
  moreover have "bitmap_home small_memmap (of_nat (init_bytes small_memmap)) = Some (small_memmap ! 1)"
    unfolding n by (simp add: bitmap_home_def small_memmap_def)
  ultimately show ?thesis
    using pmm_init_frees_usable[of small_memmap "small_memmap ! 1" "\<lambda>a. 0x55" "0xE000" small_pmm] b by (auto simp: n u)
qed

text \<open>C27. An allocation returns the address of the lowest free frame and takes exactly that frame out of the free
  set; when no frame is free it returns 0 and changes nothing.\<close>

theorem pmm_alloc_lowest:
  assumes "pmm_ok p"
  shows "\<exists>q. pmm_alloc_frame p = Some (if free_frames p = {} then 0 else of_nat (Min (free_frames p)) * FRAME_SIZE, q) \<and>
    pmm_ok q \<and> free_frames q = free_frames p - {Min (free_frames p)} \<and> total_frame q = total_frame p"
proof (cases "free_frames p = {}")
  case True
  then show ?thesis using pmm_alloc_effect(1)[OF assms] assms by simp
next
  case False
  obtain q where "pmm_alloc_frame p = Some (of_nat (Min (free_frames p)) * FRAME_SIZE, q)" "same_layout p q"
      "free_frames q = free_frames p - {Min (free_frames p)}"
    using pmm_alloc_effect(2)[OF assms False] by blast
  then show ?thesis using False same_layout_ok[of p q] same_layout_vars(2)[of p q] assms by simp
qed

lemma small_pmm_ok: "pmm_ok small_pmm"
  by (simp add: pmm_ok_def small_pmm_def)

lemma small_pmm_free: "free_frames small_pmm = {2, 3}"
proof -
  have "i < 4 \<and> \<not> bit (0xF3 :: u8) i \<longleftrightarrow> i = 2 \<or> i = 3" for i
  proof (cases "i < 4")
    case True
    then consider "i = 0" | "i = 1" | "i = 2" | "i = 3" by linarith
    then show ?thesis by cases (simp_all add: bit_iff_odd)
  next
    case False
    then show ?thesis by simp
  qed
  then have "{i. i < 4 \<and> \<not> bit (0xF3 :: u8) i} = {2, 3}" by blast
  moreover have "frame_bit [0xF3] i \<longleftrightarrow> bit (0xF3 :: u8) i" if "i < 4" for i
    using that by (simp add: frame_bit_def)
  ultimately show ?thesis unfolding free_frames_def small_pmm_def by auto
qed

theorem pmm_alloc_lowest_witness:
  "\<exists>q. pmm_alloc_frame small_pmm = Some (0x2000, q) \<and> free_frames q = {3}"
  using pmm_alloc_lowest[OF small_pmm_ok] by (auto simp: small_pmm_free FRAME_SIZE_def)

text \<open>No frame is given out twice: a client that starts with nothing and frees only addresses it holds never
  receives an address it already holds.\<close>

lemma pmm_no_double_alloc:
  assumes "pmm_ok p0" "pmm_client p0 p H" "pmm_alloc_frame p = Some (a, q)" "a \<noteq> 0"
  shows "a \<notin> H \<and> pmm_client p0 q (insert a H)"
  using pmm_client_holds[OF assms(2,1)] pa.holds_alloc[OF _ _ assms(3,4)] pmm_client.alloc[OF assms(2-4)] by blast

lemma pmm_no_double_alloc_witness:
  "\<exists>q r. pmm_alloc_frame small_pmm = Some (0x2000, q) \<and> pmm_alloc_frame q = Some (0x3000, r) \<and>
     pmm_client small_pmm r {0x2000, 0x3000}"
proof -
  obtain q where q: "pmm_alloc_frame small_pmm = Some (0x2000, q)" "pmm_ok q" "free_frames q = {3}"
    using pmm_alloc_effect(2)[OF small_pmm_ok] same_layout_ok[OF _ small_pmm_ok]
    by (force simp: small_pmm_free FRAME_SIZE_def)
  obtain r where r: "pmm_alloc_frame q = Some (0x3000, r)"
    using pmm_alloc_effect(2)[OF q(2)] by (auto simp: q(3) FRAME_SIZE_def)
  have "pmm_client small_pmm q {0x2000}"
    using pmm_no_double_alloc[OF small_pmm_ok pmm_client.start q(1)] by simp
  from pmm_no_double_alloc[OF small_pmm_ok this r] q(1) r show ?thesis by (auto simp: insert_commute)
qed

text \<open>Freeing what an allocation returned restores the allocator to the state before it, bit for bit.\<close>

lemma pmm_alloc_free_restores:
  assumes "pmm_ok p" "free_frames p \<noteq> {}"
  shows "\<exists>a q. pmm_alloc_frame p = Some (a, q) \<and> pmm_free_frame a q = Some p"
proof -
  let ?f = "Min (free_frames p)"
  obtain q where q: "pmm_alloc_frame p = Some (of_nat ?f * FRAME_SIZE, q)" "same_layout p q"
      "\<forall>j. frame_bit (pm_bitmap q) j \<longleftrightarrow> j = ?f \<or> frame_bit (pm_bitmap p) j"
    using pmm_alloc_effect(2)[OF assms] by blast
  have "?f \<in> free_frames p" using assms(2) by simp
  then have lt: "?f < unat (total_frame p)" and clear: "\<not> frame_bit (pm_bitmap p) ?f" by (auto simp: free_frames_def)
  note v = same_layout_vars[OF q(2)]
  obtain r where r: "pmm_free_frame (of_nat ?f * FRAME_SIZE) q = Some r" "same_layout q r"
      "\<forall>j. frame_bit (pm_bitmap r) j \<longleftrightarrow> j \<noteq> ?f \<and> frame_bit (pm_bitmap q) j"
    using pmm_free_effect[OF same_layout_ok[OF q(2) assms(1)], of ?f] lt by (auto simp: v)
  have "pm_bitmap r = pm_bitmap p"
    by (rule bitmap_eqI) (use r(3) q(3) clear v(1) same_layout_vars(1)[OF r(2)] in auto)
  moreover have "same_layout p r" by (rule same_layout_trans[OF q(2) r(2)])
  ultimately have "r = p" by (simp add: same_layout_def)
  then show ?thesis using q(1) r(1) by blast
qed

lemma pmm_alloc_free_restores_witness:
  "\<exists>a q. pmm_alloc_frame small_pmm = Some (a, q) \<and> pmm_free_frame a q = Some small_pmm"
  by (rule pmm_alloc_free_restores) (simp_all add: small_pmm_ok small_pmm_free)

end
