(* ===== verification/Shell.thy ===== *)
theory Shell
  imports Commands FsSuper Pmm
begin

text \<open>
  \<open>enter\<close>, the interactive shell, the scripts that the kernel runs when it starts, the loops of its tasks and \<open>kmain\<close>.
  \<open>enter\<close> and \<open>shell_command\<close> call each other without a bound, so \<open>enter\<close> takes the number of nested calls as fuel.
\<close>

section \<open>Running a command\<close>

definition shell_command_with :: "'d runner \<Rightarrow> 'd runner" where
  "shell_command_with ent test_cmd k = do {
     (enter_output, k) \<leftarrow> ent test_cmd k;
     if enter_output = 2 \<or> enter_output = 3 then do {
       msg \<leftarrow> cstr (read_out k);
       (y, k) \<leftarrow> k_write 0 (global_crus_y (con k)) (if enter_output = 2 then color_fg else color_error) color_bg msg k;
       k \<leftarrow> con_call (\<lambda>c. plus_gc_y color_fg color_bg (c\<lparr>global_crus_y := y\<rparr>)) k;
       Some (enter_output, k\<lparr>con := (con k)\<lparr>global_crus_x := global_defualt_crus_x (con k)\<rparr>\<rparr>) }
     else Some (enter_output, k) }"

definition enter_body :: "'d machine \<Rightarrow> 'd runner \<Rightarrow> 'd runner" where
  "enter_body M ent cmd k =
     (let command_lenght = length cmd + 1;
          a = parse_command cmd;
          k = k\<lparr>last_global_command_lenght := of_nat command_lenght\<rparr>;
          is_cmd = (\<lambda>s. fs_strcmp (arg_list a ! 0) (ascii s) command_lenght \<noteq> 0);
          sc = shell_command_with ent
      in if argvs a = [] then Some (0, k)
         else if is_cmd ''ls'' then cmd_ls M a k
         else if is_cmd ''mk'' then cmd_mk M a k
         else if is_cmd ''mkdir'' then cmd_mkdir M a k
         else if is_cmd ''cat'' then cmd_cat M a k
         else if is_cmd ''write'' then cmd_write M a k
         else if is_cmd ''wadd'' then cmd_wadd M a k
         else if is_cmd ''cd'' then cmd_cd M a k
         else if is_cmd ''rm'' then cmd_rm M a k
         else if is_cmd ''rmdir'' then cmd_rmdir M a k
         else if is_cmd ''pwd'' then cmd_pwd M a k
         else if is_cmd ''sw'' then cmd_sw M a k
         else if is_cmd ''sh'' then cmd_sh M sc a k
         else if is_cmd ''clear'' then cmd_clear M a k
         else if is_cmd ''if'' then cmd_if M a k
         else if is_cmd ''fi'' then cmd_fi M sc a k
         else if is_cmd ''else'' then cmd_else M sc a k
         else if is_cmd ''echo'' then cmd_echo a k
         else if is_cmd ''input'' then cmd_input M a k
         else if is_cmd ''sleep'' then cmd_sleep M a k
         else if is_cmd ''for'' then cmd_for M ent sc a k
         else if is_cmd ''rand'' then cmd_rand M sc a k
         else if is_cmd ''task'' then cmd_task M command_lenght a k
         else if is_cmd ''se'' then cmd_se M a k
         else if is_cmd ''math'' then cmd_math M a k
         else if is_cmd ''test'' then cmd_test M a k
         else Some (1, k))"

fun enter :: "'d machine \<Rightarrow> nat \<Rightarrow> 'd runner" where
  "enter M 0 cmd k = None"
| "enter M (Suc n) cmd k = enter_body M (enter M n) cmd k"

definition shell_command :: "'d machine \<Rightarrow> nat \<Rightarrow> 'd runner" where
  "shell_command M n test_cmd k = shell_command_with (enter M n) test_cmd k"

section \<open>The interactive shell\<close>

definition move_to_margin :: "'d kernel \<Rightarrow> 'd kernel" where
  "move_to_margin k = k\<lparr>con := (con k)\<lparr>global_crus_x := global_defualt_crus_x (con k)\<rparr>\<rparr>"

text \<open>The branch of \<open>'\n'\<close>: the command runs, its output and a new prompt are printed.\<close>

definition shell_enter :: "'d machine \<Rightarrow> nat \<Rightarrow> 'd kernel \<Rightarrow> 'd kernel option" where
  "shell_enter M n k = do {
     k \<leftarrow> con_call (plus_gc_y color_fg color_bg) k;
     let k = move_to_margin k;
     cmd \<leftarrow> cstr (command k);
     (enter_output, k) \<leftarrow> enter M n cmd k;
     cleared \<leftarrow> oloop 0 (unat (last_global_command_lenght k)) (\<lambda>i8 b. poke b i8 0) (command k);
     let k = k\<lparr>command := cleared, command_point_c_main := 0\<rparr>;
     k \<leftarrow> recal_clt M k;
     k \<leftarrow> con_call (plus_gc_y color_fg color_bg) k;
     k \<leftarrow> (if enter_output = 2 \<or> enter_output = 3 then do {
             msg \<leftarrow> cstr (read_out k);
             (y, k) \<leftarrow> k_write 0 (global_crus_y (con k)) (if enter_output = 2 then color_fg else color_error) color_bg msg k;
             con_call (\<lambda>c. plus_gc_y color_fg color_bg (c\<lparr>global_crus_y := y\<rparr>)) k }
           else Some k);
     let k = move_to_margin k;
     k \<leftarrow> write_prompt (global_crus_y (con k)) k;
     con_call (put_crus color_fg color_bg) k }"

definition shell_backspace :: "'d kernel \<Rightarrow> 'd kernel option" where
  "shell_backspace k =
     (let c = con k in
      if \<not> (global_crus_x c = global_defualt_crus_x c \<and> global_crus_y c = 0) then do {
        let c = (if global_defualt_crus_x c < global_crus_x c then c\<lparr>global_crus_x := global_crus_x c - 1\<rparr> else c);
        c \<leftarrow> put_char_on_crus color_fg color_bg [32] 1 0 c;
        let k = k\<lparr>con := c\<rparr>;
        if 0 < command_point_c_main k then do {
          let k = k\<lparr>command_point_c_main := command_point_c_main k - 1\<rparr>;
          b \<leftarrow> poke (command k) (unat (command_point_c_main k)) 0;
          Some (k\<lparr>command := b\<rparr>) }
        else Some k }
      else Some k)"

text \<open>A typed NUL is the empty string on the screen but a byte of the command.\<close>

definition shell_type :: "u8 \<Rightarrow> 'd kernel \<Rightarrow> 'd kernel option" where
  "shell_type ch k = do {
     k \<leftarrow> con_call (put_char_on_crus color_fg color_bg (cstr_of [ch, 0]) 0 0) k;
     if command_point_c_main k < of_nat (max_command_lenght_bytes - 1) then do {
       b \<leftarrow> poke (command k) (unat (command_point_c_main k)) ch;
       Some (k\<lparr>command := b, command_point_c_main := command_point_c_main k + 1\<rparr>) }
     else Some k }"

text \<open>One pass of the loop; the first component is \<open>shell_T\<close>.\<close>

definition shell_step :: "'d machine \<Rightarrow> nat \<Rightarrow> 'd kernel \<Rightarrow> (bool \<times> 'd kernel) option" where
  "shell_step M n k = do {
     k \<leftarrow> con_call (put_crus color_fg color_bg) k;
     (case read_kyboard_from_main 0 (keyboard k) of (st, ch, kb) \<Rightarrow>
        let k = k\<lparr>keyboard := kb\<rparr> in
        if st = 0 then Some (False, k_hlt M k)
        else if ch = 10 then do { k \<leftarrow> shell_enter M n k; Some (True, k) }
        else do {
          k \<leftarrow> (if ch = 8 then shell_backspace k else shell_type ch k);
          k \<leftarrow> con_call (put_crus color_fg color_bg) k;
          out \<leftarrow> debug_command (command k);
          Some (False, k_hlt M (k_debug out k)) }) }"

partial_function (option) shell :: "'d machine \<Rightarrow> nat \<Rightarrow> 'd kernel \<Rightarrow> 'd kernel option" where
  "shell M n k = do {
     (shell_T, k) \<leftarrow> shell_step M n k;
     if shell_T then Some k else shell M n k }"

section \<open>Scripts of the kernel\<close>

fun shell_commands :: "'d machine \<Rightarrow> nat \<Rightarrow> string list \<Rightarrow> 'd kernel \<Rightarrow> 'd kernel option" where
  "shell_commands M n [] k = Some k"
| "shell_commands M n (c # cs) k = do {
     (r, k) \<leftarrow> shell_command M n (ascii c) k;
     shell_commands M n cs k }"

definition make_the_tree :: "'d machine \<Rightarrow> nat \<Rightarrow> 'd kernel \<Rightarrow> 'd kernel option" where
  "make_the_tree M n k = shell_commands M n
     [''mkdir /home'', ''mkdir /var'', ''mkdir /proc'', ''mkdir /tmp'', ''mkdir /input'', ''mkdir /proc/for'',
      ''mkdir /home/jad'',
      ''mk /tmp/value1'', ''write /tmp/value1 1'', ''mk /proc/shell'', ''mk /input/input_c'', ''mk /var/rand'', ''mk /var/rand_2'',
      ''write /proc/shell 1'', ''rand i''] k"

definition boot_commands :: "'d machine \<Rightarrow> nat \<Rightarrow> 'd kernel \<Rightarrow> 'd kernel option" where
  "boot_commands M n k = shell_commands M n
     [''test /home/jad/games/mygame1/firsttime /home/jad/games/mygame1/firsttime'',
      ''if /home/jad/games/mygame1/firsttime /tmp/value1'',
      ''else /home/jad/games/mygame1/creatfile'',
      ''mk /home/jad/games/mygame1/firsttime'',
      ''cd /home/jad/games/mygame1/'',
      ''mk ./creatfile'',
      ''wadd ./creatfile mk ./px'', ''wadd ./creatfile mk ./py'',
      ''wadd ./creatfile write ./px 0'', ''wadd ./creatfile write ./py 0'',
      ''wadd ./creatfile mk ./score'', ''wadd ./creatfile write ./score 0'',
      ''sh ./creatfile'',
      ''mk ./mainloop'', ''wadd ./mainloop mainloop''] k"

section \<open>Tasks\<close>

text \<open>One pass of each endless loop.\<close>

definition test_task_normal_shell :: "'d machine \<Rightarrow> nat \<Rightarrow> 'd kernel \<Rightarrow> 'd kernel option" where
  "test_task_normal_shell M n k = do {
     (st, this_buffer, k) \<leftarrow> k_read_file M (ascii ''/proc/shell'') (k_local M 2 k) 2 k;
     c \<leftarrow> peek this_buffer 0;
     k \<leftarrow> (if c = 49 then shell M n k else Some k);
     Some (k_hlt M k) }"

definition test_task_counter :: "'d machine \<Rightarrow> 'd kernel \<Rightarrow> 'd kernel option" where
  "test_task_counter M k = do {
     (num, k) \<leftarrow> k_u64 M (task_b_counter k) k;
     (y, k) \<leftarrow> k_write 40 0 color_fg color_bg num k;
     k \<leftarrow> k_sleep_ms M 500 k;
     Some (k_hlt M (k\<lparr>task_b_counter := task_b_counter k + 1\<rparr>)) }"

definition run_task :: "'d machine \<Rightarrow> nat \<Rightarrow> 'd kernel \<Rightarrow> 'd kernel option" where
  "run_task M n k = do {
     t \<leftarrow> peek (tasks (sch k)) (unat (current_task_id (sch k)));
     path \<leftarrow> cstr (t_run_path t);
     (c, k) \<leftarrow> k_concat (ascii ''sh '') path k;
     (r, k) \<leftarrow> shell_command M n c k;
     Some (k_hlt M k) }"

definition echo_table :: "'d machine \<Rightarrow> 'd kernel \<Rightarrow> 'd kernel option" where
  "echo_table M k = do {
     k \<leftarrow> k_debug64 M (current_dir_id k) k;
     Some (k_hlt M (k_debug [10] k)) }"

section \<open>The start of the kernel\<close>

text \<open>
  What \<open>kmain\<close> does between \<open>fs_init\<close> and the start of the tasks. \<open>width\<close>, \<open>height\<close>, \<open>pitch\<close> and \<open>px\<close> describe the framebuffer of
  the boot loader, \<open>frame\<close> the memory of the page that becomes \<open>read_out\<close>.
\<close>

definition kmain_screen :: "'d machine \<Rightarrow> u64 \<Rightarrow> u64 \<Rightarrow> u64 \<Rightarrow> u32 list \<Rightarrow> bytes \<Rightarrow> 'd kernel \<Rightarrow> 'd kernel option" where
  "kmain_screen M width height pitch px frame k = do {
     k \<leftarrow> recal_clt M (k\<lparr>con := (con k)\<lparr>pixels := px, fb_pitch := pitch\<rparr>\<rparr>);
     let c = (con k)\<lparr>screen_cols := width div 8, screen_rows := height div 8, screen_height := height, screen_width := width\<rparr>;
     c \<leftarrow> oloop 0 (unat (screen_rows c)) (\<lambda>yF c. oloop 0 (unat (screen_cols c)) (\<lambda>xF c. do {
            (y, c) \<leftarrow> screen_write (of_nat xF) (of_nat yF) color_fg color_bg [32] c;
            Some c }) c) c;
     k \<leftarrow> recal_clt M (k\<lparr>con := c, read_out := fill frame 4096 0\<rparr>);
     let k = move_to_margin k;
     write_prompt (global_crus_y (con k)) k }"

text \<open>The loop that prints the paths of the ids 0 to 10 on the debug port.\<close>

definition print_table :: "'d machine \<Rightarrow> bytes \<Rightarrow> 'd kernel \<Rightarrow> 'd kernel option" where
  "print_table M path_174 k = do {
     (path_174, k) \<leftarrow> oloop 0 11 (\<lambda>i (path_174, k). do {
       (path_174, s) \<leftarrow> id_to_path (ata M) (of_nat i) path_174 (kfs k);
       k \<leftarrow> k_debug64 M (of_nat i) (k\<lparr>kfs := s\<rparr>);
       path \<leftarrow> cstr path_174;
       Some (path_174, k_debug ([32] @ debug_print path @ [10]) k) }) (path_174, k);
     Some k }"

definition kmain_boot :: "'d machine \<Rightarrow> nat \<Rightarrow> int \<Rightarrow> 'd kernel \<Rightarrow> 'd kernel option" where
  "kmain_boot M n fs_new k = do {
     k \<leftarrow> (if fs_new = 0 then make_the_tree M n k else Some k);
     k \<leftarrow> print_table M (replicate 1024 0) k;
     k \<leftarrow> boot_commands M n k;
     cmd \<leftarrow> cstr (command k);
     (r, k) \<leftarrow> enter M n cmd k;
     Some k }"

text \<open>
  \<open>kmain\<close> from \<open>pmm_init\<close> to \<open>jump_to_task\<close>; the result is the port writes of the timer, the stack pointer to jump to, the memory
  manager and the state. The tables and the interrupt controller set up before are those of \<open>gdt_init\<close>, \<open>idt_init\<close> and \<open>pic_remap\<close>.
\<close>

record boot_info =
  fb_width :: u64
  fb_height :: u64
  fb_line :: u64
  fb_mem :: "u32 list"
  hhdm :: u64
  memmap :: "memmap_entry list"
  ram :: "u64 \<Rightarrow> u8"
  shell_entry :: u64
  counter_entry :: u64

definition kmain ::
  "'d machine \<Rightarrow> nat \<Rightarrow> boot_info \<Rightarrow> pmm \<Rightarrow> 'd kernel \<Rightarrow> (port_writes \<times> u64 \<times> pmm \<times> 'd kernel) option" where
  "kmain M n B p k = do {
     p \<leftarrow> pmm_init (ram B) (hhdm B) (memmap B) p;
     (fs_new, k) \<leftarrow> fs_call (fs_init (ata M)) k;
     (frame, p) \<leftarrow> pmm_alloc_frame p;
     k \<leftarrow> kmain_screen M (fb_width B) (fb_height B) (fb_line B) (fb_mem B) (k_local M 4096 k) k;
     k \<leftarrow> kmain_boot M n fs_new k;
     (out, rsp, s) \<leftarrow> start_tasks (stacks M) (shell_entry B) (counter_entry B) (sch k);
     Some (out, rsp, p, k\<lparr>sch := s\<rparr>) }"

end
