(* ===== verification/ConsoleProps.thy ===== *)
theory ConsoleProps
  imports Console
begin

text \<open>
  The text screen as an abstract grid: on a framebuffer that holds the grid, drawing a character changes the pixels of its cell and
  no others, every operation stays inside the framebuffer and the character buffer, and what is on the screen is the text in the
  character buffer.
\<close>

section \<open>Geometry\<close>

definition line_length :: "console \<Rightarrow> nat" where
  "line_length c = unat (fb_pitch c div 4)"

text \<open>
  The grid fits into the memory of the framebuffer and into the character buffer. The latter needs at most 128 columns: \<open>MAX_COLS\<close> and
  \<open>MAX_ROWS\<close> are the other way round in the declaration of \<open>screen_buffer\<close>.
\<close>

definition console_ok :: "console \<Rightarrow> bool" where
  "console_ok c \<longleftrightarrow> 0 < unat (screen_rows c) \<and> unat (screen_rows c) \<le> 256 \<and> unat (screen_cols c) \<le> 128 \<and>
     8 * unat (screen_cols c) \<le> line_length c \<and> line_length c < 2 ^ 32 \<and>
     line_length c * (8 * unat (screen_rows c)) \<le> length (pixels c) \<and> length (screen_buffer c) = 32768 \<and>
     screen_width c div 8 = screen_cols c"

definition on_screen :: "console \<Rightarrow> u64 \<Rightarrow> u64 \<Rightarrow> bool" where
  "on_screen c x y \<longleftrightarrow> unat x < unat (screen_cols c) \<and> unat y < unat (screen_rows c)"

lemma console_ok_pixels [simp]: "length p = length (pixels c) \<Longrightarrow> console_ok (c\<lparr>pixels := p\<rparr>) = console_ok c"
  by (simp add: console_ok_def line_length_def)

lemma console_ok_screen [simp]: "length b = length (screen_buffer c) \<Longrightarrow> console_ok (c\<lparr>screen_buffer := b\<rparr>) = console_ok c"
  by (simp add: console_ok_def line_length_def)

lemma div_mod_eq_iff: "(b :: nat) < m \<Longrightarrow> i div m = a \<and> i mod m = b \<longleftrightarrow> i = a * m + b"
proof
  assume b: "b < m" and "i div m = a \<and> i mod m = b"
  then show "i = a * m + b" by (metis div_mult_mod_eq)
qed auto

lemma screen_index_eq:
  assumes "console_ok c" "on_screen c x y"
  shows "screen_index y x = unat y * 128 + unat x" "screen_index y x < 32768"
proof -
  have b: "unat y < 256" "unat x < 128" using assms by (auto simp: console_ok_def on_screen_def)
  then show i: "screen_index y x = unat y * 128 + unat x"
    by (simp add: screen_index_def MAX_ROWS_def unat_word_ariths)
  then show "screen_index y x < 32768" using b by simp
qed

lemma unat_mult_add: "unat a * unat l + unat b < 2 ^ 64 \<Longrightarrow> unat (a * l + b :: u64) = unat a * unat l + unat b"
  by (simp add: unat_word_ariths mod_simps)

lemma pixel_index:
  assumes "console_ok c" "on_screen c x y" "row < 8" "k < 8"
  shows "unat ((y * 8 + of_nat row) * (fb_pitch c div 4) + (x * 8 + of_nat k)) = (unat y * 8 + row) * line_length c + (unat x * 8 + k)"
    (is "unat (?a * ?l + ?b) = _")
    and "unat x * 8 + k < line_length c"
    and "(unat y * 8 + row) * line_length c + (unat x * 8 + k) < length (pixels c)"
proof -
  let ?L = "line_length c" and ?r = "unat (screen_rows c)"
  have c: "unat y < ?r" "?r \<le> 256" "unat x < unat (screen_cols c)" "unat (screen_cols c) \<le> 128"
    "8 * unat (screen_cols c) \<le> ?L" "?L < 2 ^ 32" "?L * (8 * ?r) \<le> length (pixels c)"
    using assms(1,2) by (auto simp: console_ok_def on_screen_def)
  then have y: "unat y < 256" "unat x < 128" by auto
  have row: "unat (of_nat row :: u64) = row" "unat (of_nat k :: u64) = k"
    using assms(3,4) by (simp_all add: unat_of_nat take_bit_nat_eq_self)
  have a: "unat ?a = unat y * 8 + row" "unat ?b = unat x * 8 + k"
    using y assms(3,4) row by (simp_all add: unat_word_ariths)
  show lx: "unat x * 8 + k < ?L" using c(3,5) assms(4) by linarith
  have "unat y * 8 + row < 8 * ?r" using c(1) assms(3) by linarith
  then have "(unat y * 8 + row) * ?L + ?L \<le> ?L * (8 * ?r)"
    by (metis Suc_leI add.commute mult.commute mult_Suc mult_le_mono2)
  then show "(unat y * 8 + row) * ?L + (unat x * 8 + k) < length (pixels c)" using lx c(7) by linarith
  have "(unat y * 8 + row) * ?L \<le> 2048 * 2 ^ 32" using y c(6) assms(3) by (intro mult_mono) auto
  then have lt: "unat ?a * unat ?l + unat ?b < 2 ^ 64" using a y lx c(6) by (simp add: line_length_def)
  show "unat (?a * ?l + ?b) = (unat y * 8 + row) * ?L + (unat x * 8 + k)"
    unfolding unat_mult_add[OF lt] a line_length_def ..
qed

section \<open>Drawing a cell\<close>

text \<open>The pixels \<open>p\<close> after the cell \<open>(x, y)\<close> of the pixels \<open>q\<close> has been drawn with the colours \<open>w\<close>, on lines of \<open>l\<close> pixels.\<close>

definition cell_drawn :: "nat \<Rightarrow> nat \<Rightarrow> nat \<Rightarrow> (nat \<Rightarrow> nat \<Rightarrow> u32) \<Rightarrow> u32 list \<Rightarrow> u32 list \<Rightarrow> bool" where
  "cell_drawn l x y w q p \<longleftrightarrow> length p = length q \<and> (\<forall>i < length q. p ! i =
     (if i mod l div 8 = x \<and> i div l div 8 = y then w (i div l mod 8) (i mod l mod 8) else q ! i))"

lemma put_row_effect:
  assumes "console_ok c" "on_screen c x y" "row < 8" "\<And>k. k < 8 \<Longrightarrow> v k = Some (w k)"
  shows "\<exists>p. oloop 0 8 (\<lambda>k c. do { color \<leftarrow> v k; put_pixel (x * 8 + of_nat k) (y * 8 + of_nat row) color c }) c = Some (c\<lparr>pixels := p\<rparr>) \<and>
    length p = length (pixels c) \<and> (\<forall>i < length p. p ! i =
      (if i mod line_length c div 8 = unat x \<and> i div line_length c = unat y * 8 + row then w (i mod line_length c mod 8) else pixels c ! i))"
proof -
  let ?L = "line_length c" and ?q = "pixels c"
  define P where "P k c' \<longleftrightarrow> (\<exists>p. c' = c\<lparr>pixels := p\<rparr> \<and> length p = length ?q \<and> (\<forall>i < length p. p ! i =
      (if i mod ?L div 8 = unat x \<and> i div ?L = unat y * 8 + row \<and> i mod ?L mod 8 < k then w (i mod ?L mod 8) else ?q ! i)))" for k c'
  have step: "\<exists>c2. (do { color \<leftarrow> v k; put_pixel (x * 8 + of_nat k) (y * 8 + of_nat row) color c1 }) = Some c2 \<and> P (Suc k) c2"
    if k: "k < 8" and c1: "P k c1" for k c1
  proof -
    obtain p where p: "c1 = c\<lparr>pixels := p\<rparr>" "length p = length ?q" and val: "\<forall>i < length p. p ! i =
      (if i mod ?L div 8 = unat x \<and> i div ?L = unat y * 8 + row \<and> i mod ?L mod 8 < k then w (i mod ?L mod 8) else ?q ! i)"
      using c1 unfolding P_def by blast
    let ?i = "(unat y * 8 + row) * ?L + (unat x * 8 + k)"
    note ix = pixel_index[OF assms(1-3) k]
    have at: "i mod ?L div 8 = unat x \<and> i div ?L = unat y * 8 + row \<and> i mod ?L mod 8 = k \<longleftrightarrow> i = ?i" for i
      using div_mod_eq_iff[OF ix(2), of i "unat y * 8 + row"] div_mod_eq_iff[OF k, of "i mod ?L" "unat x"] by auto
    have "put_pixel (x * 8 + of_nat k) (y * 8 + of_nat row) (w k) c1 = Some (c\<lparr>pixels := p[?i := w k]\<rparr>)"
      using ix p by (simp add: put_pixel_def Let_def)
    moreover have "p[?i := w k] ! i = (if i mod ?L div 8 = unat x \<and> i div ?L = unat y * 8 + row \<and> i mod ?L mod 8 < Suc k
        then w (i mod ?L mod 8) else ?q ! i)" if i: "i < length p" for i
    proof (cases "i = ?i")
      case True
      then show ?thesis using at[of i] i by simp
    next
      case False
      then have "\<not> (i mod ?L div 8 = unat x \<and> i div ?L = unat y * 8 + row \<and> i mod ?L mod 8 = k)" using at by blast
      then show ?thesis using val i False less_Suc_eq by auto
    qed
    ultimately show ?thesis using assms(4)[OF k] p(2) unfolding P_def by auto
  qed
  have "\<exists>c'. oloop 0 8 (\<lambda>k c. do { color \<leftarrow> v k; put_pixel (x * 8 + of_nat k) (y * 8 + of_nat row) color c }) c = Some c' \<and> P (0 + 8) c'"
  proof (rule oloop_invariant)
    show "P 0 c" unfolding P_def by (intro exI[of _ ?q]) simp
  qed (use step in simp)
  then show ?thesis unfolding P_def by auto
qed

lemma put_cell_effect:
  assumes "console_ok c" "on_screen c x y" "\<And>row k. row < 8 \<Longrightarrow> k < 8 \<Longrightarrow> v row k = Some (w row k)"
  obtains p where "put_cell x y v c = Some (c\<lparr>pixels := p\<rparr>)" "cell_drawn (line_length c) (unat x) (unat y) w (pixels c) p"
proof -
  let ?L = "line_length c" and ?q = "pixels c"
  define P where "P r c' \<longleftrightarrow> (\<exists>p. c' = c\<lparr>pixels := p\<rparr> \<and> length p = length ?q \<and> (\<forall>i < length p. p ! i =
      (if i mod ?L div 8 = unat x \<and> i div ?L div 8 = unat y \<and> i div ?L mod 8 < r then w (i div ?L mod 8) (i mod ?L mod 8) else ?q ! i)))" for r c'
  have step: "\<exists>c2. oloop 0 8 (\<lambda>k c. do { color \<leftarrow> v r k; put_pixel (x * 8 + of_nat k) (y * 8 + of_nat r) color c }) c1 = Some c2 \<and> P (Suc r) c2"
    if r: "r < 8" and c1: "P r c1" for r c1
  proof -
    obtain p where p: "c1 = c\<lparr>pixels := p\<rparr>" "length p = length ?q" and val: "\<forall>i < length p. p ! i =
      (if i mod ?L div 8 = unat x \<and> i div ?L div 8 = unat y \<and> i div ?L mod 8 < r then w (i div ?L mod 8) (i mod ?L mod 8) else ?q ! i)"
      using c1 unfolding P_def by blast
    have ok: "console_ok c1" "on_screen c1 x y" "line_length c1 = ?L"
      using assms(1,2) p by (simp_all add: on_screen_def line_length_def)
    obtain p2 where p2: "oloop 0 8 (\<lambda>k c. do { color \<leftarrow> v r k; put_pixel (x * 8 + of_nat k) (y * 8 + of_nat r) color c }) c1
        = Some (c1\<lparr>pixels := p2\<rparr>)" "length p2 = length p"
      and val2: "\<forall>i < length p2. p2 ! i = (if i mod ?L div 8 = unat x \<and> i div ?L = unat y * 8 + r then w r (i mod ?L mod 8) else p ! i)"
      using put_row_effect[OF ok(1,2) r, of "v r" "w r"] assms(3)[OF r] ok(3) p(1) by auto
    have "p2 ! i = (if i mod ?L div 8 = unat x \<and> i div ?L div 8 = unat y \<and> i div ?L mod 8 < Suc r
        then w (i div ?L mod 8) (i mod ?L mod 8) else ?q ! i)" if i: "i < length p2" for i
    proof -
      have "i div ?L = unat y * 8 + r \<longleftrightarrow> i div ?L div 8 = unat y \<and> i div ?L mod 8 = r"
        using div_mod_eq_iff[OF r, of "i div ?L" "unat y"] by auto
      then show ?thesis using val val2 i p2(2) less_Suc_eq by auto
    qed
    then show ?thesis using p2 p unfolding P_def by (intro exI[of _ "c1\<lparr>pixels := p2\<rparr>"]) auto
  qed
  have "\<exists>c'. put_cell x y v c = Some c' \<and> P (0 + 8) c'"
    unfolding put_cell_def
  proof (rule oloop_invariant)
    show "P 0 c" unfolding P_def by (intro exI[of _ ?q]) simp
  qed (use step in simp)
  then obtain p where "put_cell x y v c = Some (c\<lparr>pixels := p\<rparr>)" "length p = length ?q" and "\<forall>i < length p. p ! i =
      (if i mod ?L div 8 = unat x \<and> i div ?L div 8 = unat y then w (i div ?L mod 8) (i mod ?L mod 8) else ?q ! i)"
    unfolding P_def by auto
  then show thesis using that by (simp add: cell_drawn_def)
qed

section \<open>Characters\<close>

lemma glyph_color_eq:
  assumes "unat t < 128" "row < 8" "k < 8"
  shows "glyph_color t a b row k = Some (if bit (font8x8_basic ! unat t ! row) k then a else b)"
proof -
  have u: "uint t = int (unat t)" by simp
  have u2: "uint t < 128" using assms(1) u by linarith
  have u3: "- 128 \<le> uint t" using u by linarith
  have "signed_take_bit 7 (uint t) = uint t"
    by (rule signed_take_bit_int_eq_self) (use u2 u3 in simp_all)
  then have "sint t = int (unat t)" by (simp add: sint_uint)
  then have "glyph_of t = Some (font8x8_basic ! unat t)" using assms(1) by (simp add: glyph_of_def)
  then show ?thesis
    using assms by (simp add: glyph_color_def and_one_eq mod2_eq_if bit_iff_odd_drop_bit)
qed

definition cell_shows :: "console \<Rightarrow> nat \<Rightarrow> nat \<Rightarrow> u8 \<Rightarrow> u32 \<Rightarrow> u32 \<Rightarrow> bool" where
  "cell_shows c x y t a b \<longleftrightarrow> (\<forall>i < length (pixels c). i mod line_length c div 8 = x \<longrightarrow> i div line_length c div 8 = y \<longrightarrow>
     pixels c ! i = (if bit (font8x8_basic ! unat t ! (i div line_length c mod 8)) (i mod line_length c mod 8) then a else b))"

definition grid :: "console \<Rightarrow> nat \<Rightarrow> nat \<Rightarrow> u8" where
  "grid c x y = screen_buffer c ! (y * 128 + x)"

definition screen_ok :: "console \<Rightarrow> bool" where
  "screen_ok c \<longleftrightarrow> console_ok c \<and> (\<forall>x < unat (screen_cols c). \<forall>y < unat (screen_rows c).
     unat (grid c x y) < 128 \<and> (\<exists>a b. cell_shows c x y (grid c x y) a b))"

lemma put_char_effect:
  assumes "console_ok c" "on_screen c x y" "unat t < 128"
  obtains p where "put_char x y a t b c = Some (c\<lparr>pixels := p\<rparr>)" "length p = length (pixels c)"
    "cell_shows (c\<lparr>pixels := p\<rparr>) (unat x) (unat y) t a b"
    "\<forall>x' y' t' a' b'. (x', y') \<noteq> (unat x, unat y) \<longrightarrow> cell_shows (c\<lparr>pixels := p\<rparr>) x' y' t' a' b' = cell_shows c x' y' t' a' b'"
proof -
  let ?w = "\<lambda>row k. if bit (font8x8_basic ! unat t ! row) k then a else b"
  obtain p where p: "put_cell x y (glyph_color t a b) c = Some (c\<lparr>pixels := p\<rparr>)"
    "cell_drawn (line_length c) (unat x) (unat y) ?w (pixels c) p"
    by (rule put_cell_effect[OF assms(1,2), of "glyph_color t a b" ?w]) (use glyph_color_eq[OF assms(3)] in auto)
  have l: "line_length (c\<lparr>pixels := p\<rparr>) = line_length c" by (simp add: line_length_def)
  show thesis
  proof (rule that)
    show "put_char x y a t b c = Some (c\<lparr>pixels := p\<rparr>)" using p(1) by (simp add: put_char_def)
    show "length p = length (pixels c)" "cell_shows (c\<lparr>pixels := p\<rparr>) (unat x) (unat y) t a b"
      using p(2) l by (auto simp: cell_drawn_def cell_shows_def)
    show "\<forall>x' y' t' a' b'. (x', y') \<noteq> (unat x, unat y) \<longrightarrow>
        cell_shows (c\<lparr>pixels := p\<rparr>) x' y' t' a' b' = cell_shows c x' y' t' a' b'"
      using p(2) l by (auto simp: cell_drawn_def cell_shows_def)
  qed
qed

lemma cell_shows_screen [simp]: "cell_shows (c\<lparr>screen_buffer := s\<rparr>) = cell_shows c"
  by (simp add: cell_shows_def line_length_def fun_eq_iff)

lemma screen_put_effect:
  assumes "console_ok c" "on_screen c x y"
  shows "screen_put y x v c = Some (c\<lparr>screen_buffer := (screen_buffer c)[unat y * 128 + unat x := v]\<rparr>)"
    "screen_at y x c = Some (grid c (unat x) (unat y))"
proof -
  note i = screen_index_eq[OF assms]
  have "unat y * 128 + unat x < length (screen_buffer c)" using i assms(1) by (simp add: console_ok_def)
  then show "screen_put y x v c = Some (c\<lparr>screen_buffer := (screen_buffer c)[unat y * 128 + unat x := v]\<rparr>)"
    "screen_at y x c = Some (grid c (unat x) (unat y))"
    by (simp_all add: screen_put_def screen_at_def i(1) grid_def)
qed

lemma grid_upd:
  assumes "console_ok c" "on_screen c x y" "x' < 128"
  shows "grid (c\<lparr>screen_buffer := (screen_buffer c)[unat y * 128 + unat x := v]\<rparr>) x' y' =
    (if x' = unat x \<and> y' = unat y then v else grid c x' y')"
proof -
  have b: "unat y < 256" "unat x < 128" using assms(1,2) by (auto simp: console_ok_def on_screen_def)
  then have "unat y * 128 + unat x = y' * 128 + x' \<longleftrightarrow> x' = unat x \<and> y' = unat y"
    using div_mod_eq_iff[of "unat x" 128 "unat y * 128 + unat x" "unat y"] div_mod_eq_iff[of x' 128 "unat y * 128 + unat x" y'] assms(3)
    by auto
  then show ?thesis using assms(1) b by (auto simp: grid_def nth_list_update console_ok_def)
qed

lemma grid_pixels [simp]: "grid (c\<lparr>pixels := p\<rparr>) = grid c"
  by (simp add: grid_def fun_eq_iff)

lemma put_text_effect:
  assumes "screen_ok c" "on_screen c x y" "unat t < 128"
  obtains p where "put_char x y a t b c = Some (c\<lparr>pixels := p\<rparr>)"
    and "screen_put y x t (c\<lparr>pixels := p\<rparr>) = Some (c\<lparr>pixels := p, screen_buffer := (screen_buffer c)[unat y * 128 + unat x := t]\<rparr>)"
    and "screen_ok (c\<lparr>pixels := p, screen_buffer := (screen_buffer c)[unat y * 128 + unat x := t]\<rparr>)"
    and "length p = length (pixels c)" and "cell_shows (c\<lparr>pixels := p\<rparr>) (unat x) (unat y) t a b"
    and "\<forall>x' y' t' a' b'. (x', y') \<noteq> (unat x, unat y) \<longrightarrow> cell_shows (c\<lparr>pixels := p\<rparr>) x' y' t' a' b' = cell_shows c x' y' t' a' b'"
proof -
  have ok: "console_ok c" using assms(1) by (simp add: screen_ok_def)
  obtain p where p: "put_char x y a t b c = Some (c\<lparr>pixels := p\<rparr>)" "length p = length (pixels c)"
    "cell_shows (c\<lparr>pixels := p\<rparr>) (unat x) (unat y) t a b"
    "\<forall>x' y' t' a' b'. (x', y') \<noteq> (unat x, unat y) \<longrightarrow> cell_shows (c\<lparr>pixels := p\<rparr>) x' y' t' a' b' = cell_shows c x' y' t' a' b'"
    by (rule put_char_effect[OF ok assms(2,3), of a b])
  let ?c = "c\<lparr>pixels := p\<rparr>" and ?s = "(screen_buffer c)[unat y * 128 + unat x := t]"
  have ok2: "console_ok ?c" "on_screen ?c x y" using ok p(2) assms(2) by (simp_all add: on_screen_def)
  have g: "grid (?c\<lparr>screen_buffer := ?s\<rparr>) x' y' = (if x' = unat x \<and> y' = unat y then t else grid c x' y')" if "x' < 128" for x' y'
    using grid_upd[OF ok2 that, of t y'] by simp
  have "screen_ok (?c\<lparr>screen_buffer := ?s\<rparr>)"
    unfolding screen_ok_def
  proof (intro conjI allI impI)
    show "console_ok (?c\<lparr>screen_buffer := ?s\<rparr>)" using ok2(1) by simp
    fix x' y' assume xy: "x' < unat (screen_cols (?c\<lparr>screen_buffer := ?s\<rparr>))" "y' < unat (screen_rows (?c\<lparr>screen_buffer := ?s\<rparr>))"
    then have x8: "x' < 128" using ok by (simp add: console_ok_def)
    have old: "unat (grid c x' y') < 128" "\<exists>a b. cell_shows c x' y' (grid c x' y') a b"
      using assms(1) xy by (auto simp: screen_ok_def)
    show "unat (grid (?c\<lparr>screen_buffer := ?s\<rparr>) x' y') < 128" using g[OF x8] old(1) assms(3) by simp
    show "\<exists>a b. cell_shows (?c\<lparr>screen_buffer := ?s\<rparr>) x' y' (grid (?c\<lparr>screen_buffer := ?s\<rparr>) x' y') a b"
      using g[OF x8] old(2) p(3) p(4) by (cases "(x', y') = (unat x, unat y)") auto
  qed
  then show thesis using that[OF p(1)] screen_put_effect(1)[OF ok2, of t] p(2-4) by simp
qed

section \<open>Scrolling\<close>

lemma oloop_grid:
  assumes step: "\<And>i j s. i < m \<Longrightarrow> j < N \<Longrightarrow> P i j s \<Longrightarrow> \<exists>s'. body i j s = Some s' \<and> P i (Suc j) s'"
    and row: "\<And>i s. P i N s \<Longrightarrow> P (Suc i) 0 s" and width: "\<And>i s. P i 0 s \<Longrightarrow> n s = N" and init: "P 0 0 s"
  shows "\<exists>s'. oloop 0 m (\<lambda>i s. oloop 0 (n s) (body i) s) s = Some s' \<and> P m 0 s'"
proof -
  have "\<exists>s'. oloop 0 m (\<lambda>i s. oloop 0 (n s) (body i) s) s = Some s' \<and> P (0 + m) 0 s'"
  proof (rule oloop_invariant[where P = "\<lambda>i. P i 0"])
    fix i s assume i: "0 \<le> i" "i < 0 + m" "P i 0 s"
    have "\<exists>s'. oloop 0 N (body i) s = Some s' \<and> P i (0 + N) s'"
      by (rule oloop_invariant[where P = "P i"]) (use step i in auto)
    then show "\<exists>s'. oloop 0 (n s) (body i) s = Some s' \<and> P (Suc i) 0 s'" using row width[OF i(3)] by auto
  qed (rule init)
  then show ?thesis by simp
qed

lemma on_screen_nat:
  assumes "console_ok c" "x < unat (screen_cols c)" "y < unat (screen_rows c)"
  shows "on_screen c (of_nat x) (of_nat y)" "unat (of_nat x :: u64) = x" "unat (of_nat y :: u64) = y"
proof -
  have "x < 2 ^ 64" "y < 2 ^ 64" using assms by (auto simp: console_ok_def)
  then show x: "unat (of_nat x :: u64) = x" "unat (of_nat y :: u64) = y" by (simp_all add: unat_of_nat take_bit_nat_eq_self)
  then show "on_screen c (of_nat x) (of_nat y)" using assms(2,3) by (simp add: on_screen_def)
qed

lemma last_row: "0 < unat (screen_rows c) \<Longrightarrow> screen_rows c - 1 = of_nat (unat (screen_rows c) - 1)"
  by (simp add: of_nat_diff)

lemma on_screen_upd [simp]:
  "on_screen (c\<lparr>pixels := p\<rparr>) = on_screen c" "on_screen (c\<lparr>screen_buffer := b\<rparr>) = on_screen c"
  by (simp_all add: on_screen_def fun_eq_iff)

lemma put_nat:
  assumes "console_ok c" "x < unat (screen_cols c)" "y < unat (screen_rows c)"
  obtains b where "screen_put (of_nat y) (of_nat x) v c = Some (c\<lparr>screen_buffer := b\<rparr>)" "length b = length (screen_buffer c)"
    and "\<forall>x' < unat (screen_cols c). \<forall>y'. grid (c\<lparr>screen_buffer := b\<rparr>) x' y' = (if x' = x \<and> y' = y then v else grid c x' y')"
proof -
  note n = on_screen_nat[OF assms]
  have "x' < 128" if "x' < unat (screen_cols c)" for x' using that assms(1) by (simp add: console_ok_def)
  then show thesis
    by (intro that[OF screen_put_effect(1)[OF assms(1) n(1)]]) (use grid_upd[OF assms(1) n(1)] n in auto)
qed

text \<open>The first loop moves every row up by one, the second empties the last row.\<close>

lemma scroll_move:
  assumes ok: "console_ok c"
  obtains b where
    "oloop 0 (unat (screen_rows c) - 1) (\<lambda>y c. oloop 0 (unat (screen_cols c)) (\<lambda>x c. do {
       v \<leftarrow> screen_at (of_nat y + 1) (of_nat x) c; screen_put (of_nat y) (of_nat x) v c }) c) c = Some (c\<lparr>screen_buffer := b\<rparr>)"
    "length b = length (screen_buffer c)"
    "\<forall>x' < unat (screen_cols c). \<forall>y' < unat (screen_rows c) - 1. grid (c\<lparr>screen_buffer := b\<rparr>) x' y' = grid c x' (Suc y')"
proof -
  let ?w = "unat (screen_cols c)" and ?h = "unat (screen_rows c)"
  define body where "body y x c = (do { v \<leftarrow> screen_at (of_nat y + 1) (of_nat x) c; screen_put (of_nat y) (of_nat x) v c })" for y x c
  define P where "P y x c' \<longleftrightarrow> (\<exists>b. c' = c\<lparr>screen_buffer := b\<rparr> \<and> length b = length (screen_buffer c) \<and>
    (\<forall>x' < ?w. \<forall>y' < ?h. grid c' x' y' = (if y' < y \<or> y' = y \<and> x' < x then grid c x' (Suc y') else grid c x' y')))" for y x c'
  have step: "\<exists>c2. body y x c1 = Some c2 \<and> P y (Suc x) c2" if yx: "y < ?h - 1" "x < ?w" and c1: "P y x c1" for y x c1
  proof -
    obtain b where b: "c1 = c\<lparr>screen_buffer := b\<rparr>" "length b = length (screen_buffer c)" and g: "\<forall>x' < ?w. \<forall>y' < ?h.
        grid c1 x' y' = (if y' < y \<or> y' = y \<and> x' < x then grid c x' (Suc y') else grid c x' y')"
      using c1 unfolding P_def by blast
    have ok1: "console_ok c1" "x < unat (screen_cols c1)" "y < unat (screen_rows c1)" "Suc y < unat (screen_rows c1)"
      using ok b yx by simp_all
    have at: "screen_at (of_nat y + 1) (of_nat x) c1 = Some (grid c x (Suc y))"
      using screen_put_effect(2)[OF ok1(1) on_screen_nat(1)[OF ok1(1,2,4)]] on_screen_nat(2,3)[OF ok1(1,2,4)] g yx
      by (simp add: add.commute)
    obtain b2 where b2: "screen_put (of_nat y) (of_nat x) (grid c x (Suc y)) c1 = Some (c1\<lparr>screen_buffer := b2\<rparr>)"
      "length b2 = length (screen_buffer c1)" "\<forall>x' < unat (screen_cols c1). \<forall>y'. grid (c1\<lparr>screen_buffer := b2\<rparr>) x' y' =
        (if x' = x \<and> y' = y then grid c x (Suc y) else grid c1 x' y')"
      by (rule put_nat[OF ok1(1-3)])
    have "P y (Suc x) (c1\<lparr>screen_buffer := b2\<rparr>)"
      unfolding P_def using b b2(2,3) g by (intro exI[of _ b2]) (auto simp: less_Suc_eq)
    then show ?thesis using at b2(1) by (simp add: body_def)
  qed
  have "\<exists>c'. oloop 0 (?h - 1) (\<lambda>y c. oloop 0 (unat (screen_cols c)) (body y) c) c = Some c' \<and> P (?h - 1) 0 c'"
  proof (rule oloop_grid[where N = ?w])
    show "P 0 0 c" unfolding P_def by (intro exI[of _ "screen_buffer c"]) simp
    show "P (Suc y) 0 s" if "P y ?w s" for y s using that unfolding P_def by (auto simp: less_Suc_eq)
    show "unat (screen_cols s) = ?w" if "P y 0 s" for y s using that unfolding P_def by auto
  qed (rule step)
  then obtain b where b: "oloop 0 (?h - 1) (\<lambda>y c. oloop 0 (unat (screen_cols c)) (body y) c) c = Some (c\<lparr>screen_buffer := b\<rparr>)"
    "length b = length (screen_buffer c)" and g: "\<forall>x' < ?w. \<forall>y' < ?h. grid (c\<lparr>screen_buffer := b\<rparr>) x' y' =
      (if y' < ?h - 1 \<or> y' = ?h - 1 \<and> x' < 0 then grid c x' (Suc y') else grid c x' y')"
    unfolding P_def by blast
  show thesis by (rule that[OF b(1)[unfolded body_def] b(2)]) (use g in auto)
qed

lemma scroll_clear:
  assumes ok: "console_ok c" and y: "y = unat (screen_rows c) - 1"
  obtains b where "oloop 0 (unat (screen_cols c)) (\<lambda>x c. screen_put (screen_rows c - 1) (of_nat x) 0 c) c = Some (c\<lparr>screen_buffer := b\<rparr>)"
    "length b = length (screen_buffer c)"
    "\<forall>x' < unat (screen_cols c). \<forall>y'. grid (c\<lparr>screen_buffer := b\<rparr>) x' y' = (if y' = y then 0 else grid c x' y')"
proof -
  let ?w = "unat (screen_cols c)"
  have h: "0 < unat (screen_rows c)" using ok by (simp add: console_ok_def)
  define P where "P x c' \<longleftrightarrow> (\<exists>b. c' = c\<lparr>screen_buffer := b\<rparr> \<and> length b = length (screen_buffer c) \<and>
    (\<forall>x' < ?w. \<forall>y'. grid c' x' y' = (if y' = y \<and> x' < x then 0 else grid c x' y')))" for x c'
  have step: "\<exists>c2. screen_put (screen_rows c1 - 1) (of_nat x) 0 c1 = Some c2 \<and> P (Suc x) c2" if x: "x < ?w" and c1: "P x c1" for x c1
  proof -
    obtain b where b: "c1 = c\<lparr>screen_buffer := b\<rparr>" "length b = length (screen_buffer c)"
      and g: "\<forall>x' < ?w. \<forall>y'. grid c1 x' y' = (if y' = y \<and> x' < x then 0 else grid c x' y')"
      using c1 unfolding P_def by blast
    have ok1: "console_ok c1" "x < unat (screen_cols c1)" "y < unat (screen_rows c1)" "screen_rows c1 - 1 = of_nat y"
      using ok b y x h last_row[OF h] by simp_all
    obtain b2 where b2: "screen_put (of_nat y) (of_nat x) 0 c1 = Some (c1\<lparr>screen_buffer := b2\<rparr>)"
      "length b2 = length (screen_buffer c1)" "\<forall>x' < unat (screen_cols c1). \<forall>y'. grid (c1\<lparr>screen_buffer := b2\<rparr>) x' y' =
        (if x' = x \<and> y' = y then 0 else grid c1 x' y')"
      by (rule put_nat[OF ok1(1-3)])
    have "P (Suc x) (c1\<lparr>screen_buffer := b2\<rparr>)"
      unfolding P_def using b b2(2,3) g by (intro exI[of _ b2]) (auto simp: less_Suc_eq)
    then show ?thesis using b2(1) ok1(4) by auto
  qed
  have "\<exists>c'. oloop 0 ?w (\<lambda>x c. screen_put (screen_rows c - 1) (of_nat x) 0 c) c = Some c' \<and> P (0 + ?w) c'"
  proof (rule oloop_invariant)
    show "P 0 c" unfolding P_def by (intro exI[of _ "screen_buffer c"]) simp
  qed (use step in simp)
  then obtain b where b: "oloop 0 ?w (\<lambda>x c. screen_put (screen_rows c - 1) (of_nat x) 0 c) c = Some (c\<lparr>screen_buffer := b\<rparr>)"
    "length b = length (screen_buffer c)" and g: "\<forall>x' < ?w. \<forall>y'. grid (c\<lparr>screen_buffer := b\<rparr>) x' y' =
      (if y' = y \<and> x' < 0 + ?w then 0 else grid c x' y')"
    unfolding P_def by blast
  show thesis by (rule that[OF b]) (use g in auto)
qed

text \<open>The third loop draws the whole grid again, in the colours of the call.\<close>

lemma scroll_draw:
  assumes ok: "console_ok c" and chars: "\<forall>x < unat (screen_cols c). \<forall>y < unat (screen_rows c). unat (grid c x y) < 128"
  obtains p where
    "oloop 0 (unat (screen_rows c)) (\<lambda>y c. oloop 0 (unat (screen_cols c)) (\<lambda>x c. do {
       v \<leftarrow> screen_at (of_nat y) (of_nat x) c; put_char (of_nat x) (of_nat y) color v color_none c }) c) c = Some (c\<lparr>pixels := p\<rparr>)"
    "length p = length (pixels c)"
    "\<forall>x < unat (screen_cols c). \<forall>y < unat (screen_rows c). cell_shows (c\<lparr>pixels := p\<rparr>) x y (grid c x y) color color_none"
proof -
  let ?w = "unat (screen_cols c)" and ?h = "unat (screen_rows c)"
  define body where "body y x c = (do { v \<leftarrow> screen_at (of_nat y) (of_nat x) c; put_char (of_nat x) (of_nat y) color v color_none c })" for y x c
  define P where "P y x c' \<longleftrightarrow> (\<exists>p. c' = c\<lparr>pixels := p\<rparr> \<and> length p = length (pixels c) \<and>
    (\<forall>x' < ?w. \<forall>y' < ?h. y' < y \<or> y' = y \<and> x' < x \<longrightarrow> cell_shows c' x' y' (grid c x' y') color color_none))" for y x c'
  have step: "\<exists>c2. body y x c1 = Some c2 \<and> P y (Suc x) c2" if yx: "y < ?h" "x < ?w" and c1: "P y x c1" for y x c1
  proof -
    obtain p where p: "c1 = c\<lparr>pixels := p\<rparr>" "length p = length (pixels c)" and g: "\<forall>x' < ?w. \<forall>y' < ?h. y' < y \<or> y' = y \<and> x' < x \<longrightarrow>
        cell_shows c1 x' y' (grid c x' y') color color_none"
      using c1 unfolding P_def by blast
    have ok1: "console_ok c1" "x < unat (screen_cols c1)" "y < unat (screen_rows c1)" using ok p yx by simp_all
    note n = on_screen_nat[OF ok1]
    have at: "screen_at (of_nat y) (of_nat x) c1 = Some (grid c x y)" using screen_put_effect(2)[OF ok1(1) n(1)] n p by simp
    obtain p2 where p2: "put_char (of_nat x) (of_nat y) color (grid c x y) color_none c1 = Some (c1\<lparr>pixels := p2\<rparr>)"
      "length p2 = length (pixels c1)" "cell_shows (c1\<lparr>pixels := p2\<rparr>) x y (grid c x y) color color_none"
      "\<forall>x' y' t' a' b'. (x', y') \<noteq> (x, y) \<longrightarrow> cell_shows (c1\<lparr>pixels := p2\<rparr>) x' y' t' a' b' = cell_shows c1 x' y' t' a' b'"
      using put_char_effect[OF ok1(1) n(1), of "grid c x y" color color_none] chars yx n by auto
    have "P y (Suc x) (c1\<lparr>pixels := p2\<rparr>)"
      unfolding P_def
    proof (intro exI[of _ p2] conjI allI impI)
      show "c1\<lparr>pixels := p2\<rparr> = c\<lparr>pixels := p2\<rparr>" "length p2 = length (pixels c)" using p p2(2) by simp_all
      fix x' y' assume *: "x' < ?w" "y' < ?h" "y' < y \<or> y' = y \<and> x' < Suc x"
      show "cell_shows (c1\<lparr>pixels := p2\<rparr>) x' y' (grid c x' y') color color_none"
      proof (cases "(x', y') = (x, y)")
        case True
        then show ?thesis using p2(3) by simp
      next
        case False
        then have "y' < y \<or> y' = y \<and> x' < x" using *(3) by auto
        then have "cell_shows c1 x' y' (grid c x' y') color color_none" using g *(1,2) by blast
        then show ?thesis using p2(4) False by blast
      qed
    qed
    then show ?thesis using at p2(1) by (simp add: body_def)
  qed
  have "\<exists>c'. oloop 0 ?h (\<lambda>y c. oloop 0 (unat (screen_cols c)) (body y) c) c = Some c' \<and> P ?h 0 c'"
  proof (rule oloop_grid[where N = ?w])
    show "P 0 0 c" unfolding P_def by (intro exI[of _ "pixels c"]) simp
    show "P (Suc y) 0 s" if "P y ?w s" for y s using that unfolding P_def by (auto simp: less_Suc_eq)
    show "unat (screen_cols s) = ?w" if "P y 0 s" for y s using that unfolding P_def by auto
  qed (rule step)
  then obtain p where p: "oloop 0 ?h (\<lambda>y c. oloop 0 (unat (screen_cols c)) (body y) c) c = Some (c\<lparr>pixels := p\<rparr>)"
    "length p = length (pixels c)" and g: "\<forall>x' < ?w. \<forall>y' < ?h. y' < ?h \<or> y' = ?h \<and> x' < 0 \<longrightarrow>
      cell_shows (c\<lparr>pixels := p\<rparr>) x' y' (grid c x' y') color color_none"
    unfolding P_def by blast
  show thesis by (rule that[OF p(1)[unfolded body_def] p(2)]) (use g in blast)
qed

definition scrolled :: "console \<Rightarrow> console \<Rightarrow> bool" where
  "scrolled c c' \<longleftrightarrow> (\<forall>x < unat (screen_cols c). grid c' x (unat (screen_rows c) - 1) = 0 \<and>
     (\<forall>y < unat (screen_rows c) - 1. grid c' x y = grid c x (Suc y)))"

lemma scroll_screen_effect:
  assumes "screen_ok c"
  obtains p b where "scroll_screen color color_none c = Some (c\<lparr>pixels := p, screen_buffer := b\<rparr>)"
    "screen_ok (c\<lparr>pixels := p, screen_buffer := b\<rparr>)" "scrolled c (c\<lparr>pixels := p, screen_buffer := b\<rparr>)"
    "\<forall>x < unat (screen_cols c). \<forall>y < unat (screen_rows c). cell_shows (c\<lparr>pixels := p, screen_buffer := b\<rparr>) x y
       (grid (c\<lparr>pixels := p, screen_buffer := b\<rparr>) x y) color color_none"
proof -
  let ?w = "unat (screen_cols c)" and ?h = "unat (screen_rows c)"
  have ok: "console_ok c" and chars: "\<forall>x < ?w. \<forall>y < ?h. unat (grid c x y) < 128" using assms by (auto simp: screen_ok_def)
  then have h: "0 < ?h" by (simp add: console_ok_def)
  have h1: "unat (screen_rows c - 1) = ?h - 1" using h unat_minus_one[of "screen_rows c"] by (cases "screen_rows c = 0") auto
  obtain b1 where b1: "oloop 0 (unat (screen_rows c) - 1) (\<lambda>y c. oloop 0 (unat (screen_cols c)) (\<lambda>x c. do {
       v \<leftarrow> screen_at (of_nat y + 1) (of_nat x) c; screen_put (of_nat y) (of_nat x) v c }) c) c = Some (c\<lparr>screen_buffer := b1\<rparr>)"
    "length b1 = length (screen_buffer c)" and g1: "\<forall>x' < ?w. \<forall>y' < ?h - 1. grid (c\<lparr>screen_buffer := b1\<rparr>) x' y' = grid c x' (Suc y')"
    by (rule scroll_move[OF ok])
  let ?c1 = "c\<lparr>screen_buffer := b1\<rparr>"
  have ok1: "console_ok ?c1" "?h - 1 = unat (screen_rows ?c1) - 1" using ok b1(2) h by simp_all
  obtain b2 where b2: "oloop 0 (unat (screen_cols ?c1)) (\<lambda>x c. screen_put (screen_rows c - 1) (of_nat x) 0 c) ?c1 = Some (?c1\<lparr>screen_buffer := b2\<rparr>)"
    "length b2 = length (screen_buffer ?c1)" and g2: "\<forall>x' < unat (screen_cols ?c1). \<forall>y'.
       grid (?c1\<lparr>screen_buffer := b2\<rparr>) x' y' = (if y' = ?h - 1 then 0 else grid ?c1 x' y')"
    by (rule scroll_clear[OF ok1])
  let ?c2 = "c\<lparr>screen_buffer := b2\<rparr>"
  have ok2: "console_ok ?c2" using ok b1(2) b2(2) by simp
  have g: "grid ?c2 x y = (if y = ?h - 1 then 0 else grid c x (Suc y))" if "x < ?w" "y < ?h" for x y
    using g1 g2 that by simp
  have chars2: "\<forall>x < unat (screen_cols ?c2). \<forall>y < unat (screen_rows ?c2). unat (grid ?c2 x y) < 128"
    using g chars by auto
  obtain p where p: "oloop 0 (unat (screen_rows ?c2)) (\<lambda>y c. oloop 0 (unat (screen_cols c)) (\<lambda>x c. do {
       v \<leftarrow> screen_at (of_nat y) (of_nat x) c; put_char (of_nat x) (of_nat y) color v color_none c }) c) ?c2 = Some (?c2\<lparr>pixels := p\<rparr>)"
    "length p = length (pixels ?c2)" and drawn: "\<forall>x < unat (screen_cols ?c2). \<forall>y < unat (screen_rows ?c2).
       cell_shows (?c2\<lparr>pixels := p\<rparr>) x y (grid ?c2 x y) color color_none"
    by (rule scroll_draw[OF ok2 chars2])
  have eq: "?c2\<lparr>pixels := p\<rparr> = c\<lparr>pixels := p, screen_buffer := b2\<rparr>" by simp
  have "scroll_screen color color_none c = Some (?c2\<lparr>pixels := p\<rparr>)"
    using b1(1) b2(1) p(1) h1 by (simp add: scroll_screen_def)
  moreover have "screen_ok (?c2\<lparr>pixels := p\<rparr>)"
    using ok2 p(2) chars2 drawn unfolding screen_ok_def by (simp del: fun_upd_apply) blast
  moreover have "scrolled c (?c2\<lparr>pixels := p\<rparr>)" using g h by (simp add: scrolled_def)
  moreover have "\<forall>x < ?w. \<forall>y < ?h. cell_shows (?c2\<lparr>pixels := p\<rparr>) x y (grid (?c2\<lparr>pixels := p\<rparr>) x y) color color_none"
    using drawn by simp
  ultimately show thesis using that unfolding eq by blast
qed

section \<open>Writing text\<close>

definition printable :: "cstring \<Rightarrow> bool" where
  "printable msg \<longleftrightarrow> (\<forall>t \<in> set msg. unat t < 128)"

text \<open>The same console but for what is on the screen.\<close>

definition drawn_from :: "console \<Rightarrow> console \<Rightarrow> bool" where
  "drawn_from c c' \<longleftrightarrow> c' = c\<lparr>pixels := pixels c', screen_buffer := screen_buffer c'\<rparr>"

lemma drawn_from_refl [simp]: "drawn_from c c"
  unfolding drawn_from_def by (cases c) simp

lemma drawn_from_upd [simp]: "drawn_from c (c\<lparr>pixels := p, screen_buffer := b\<rparr>)"
  unfolding drawn_from_def by (cases c) simp

lemma drawn_from_trans: "drawn_from c c1 \<Longrightarrow> drawn_from c1 c2 \<Longrightarrow> drawn_from c c2"
  unfolding drawn_from_def by (cases c; cases c1; cases c2) simp

lemma drawn_from_iff:
  "drawn_from c c' \<longleftrightarrow> fb_pitch c' = fb_pitch c \<and> screen_cols c' = screen_cols c \<and> screen_rows c' = screen_rows c \<and>
     screen_width c' = screen_width c \<and> screen_height c' = screen_height c \<and>
     global_defualt_crus_x c' = global_defualt_crus_x c \<and> global_crus_x c' = global_crus_x c \<and>
     global_crus_y c' = global_crus_y c \<and> global_last_crus_x c' = global_last_crus_x c \<and>
     global_last_crus_y c' = global_last_crus_y c"
  unfolding drawn_from_def by (cases c; cases c') auto

lemma drawn_from_fields:
  assumes "drawn_from c c'"
  shows "screen_cols c' = screen_cols c" "screen_rows c' = screen_rows c" "screen_width c' = screen_width c"
    "global_crus_x c' = global_crus_x c" "global_crus_y c' = global_crus_y c"
    "global_defualt_crus_x c' = global_defualt_crus_x c" "on_screen c' = on_screen c"
  using assms by (auto simp: drawn_from_iff on_screen_def fun_eq_iff)

lemma line_full:
  assumes "console_ok c" "unat x \<le> unat (screen_cols c)"
  shows "screen_width c div 8 < x + 7 \<longleftrightarrow> unat (screen_cols c) < unat x + 7"
proof -
  have "unat x + 7 < 2 ^ 64" using assms by (simp add: console_ok_def)
  then have "unat (x + 7) = unat x + 7" by (simp add: unat_word_ariths)
  moreover have "screen_width c div 8 = screen_cols c" using assms(1) by (simp add: console_ok_def)
  ultimately show ?thesis by (simp add: word_less_nat_alt)
qed

text \<open>One character of the loops of \<open>write\<close> and \<open>put_char_on_crus\<close>: drawn and stored.\<close>

lemma char_written:
  assumes "screen_ok c" "on_screen c x y" "unat t < 128"
  obtains c' where "put_char x y a t b c \<bind> screen_put y x t = Some c'" "screen_ok c'" "drawn_from c c'"
    "\<forall>x' < unat (screen_cols c). \<forall>y'. grid c' x' y' = (if x' = unat x \<and> y' = unat y then t else grid c x' y')"
    "cell_shows c' (unat x) (unat y) t a b"
    "\<forall>x' y' t' a' b'. (x', y') \<noteq> (unat x, unat y) \<longrightarrow> cell_shows c' x' y' t' a' b' = cell_shows c x' y' t' a' b'"
proof -
  obtain p where p: "put_char x y a t b c = Some (c\<lparr>pixels := p\<rparr>)"
    "screen_put y x t (c\<lparr>pixels := p\<rparr>) = Some (c\<lparr>pixels := p, screen_buffer := (screen_buffer c)[unat y * 128 + unat x := t]\<rparr>)"
    "screen_ok (c\<lparr>pixels := p, screen_buffer := (screen_buffer c)[unat y * 128 + unat x := t]\<rparr>)" "length p = length (pixels c)"
    "cell_shows (c\<lparr>pixels := p\<rparr>) (unat x) (unat y) t a b"
    "\<forall>x' y' t' a' b'. (x', y') \<noteq> (unat x, unat y) \<longrightarrow> cell_shows (c\<lparr>pixels := p\<rparr>) x' y' t' a' b' = cell_shows c x' y' t' a' b'"
    by (rule put_text_effect[OF assms])
  have ok: "console_ok (c\<lparr>pixels := p\<rparr>)" "on_screen (c\<lparr>pixels := p\<rparr>) x y"
    using assms(1,2) p(4) by (simp_all add: screen_ok_def)
  have small: "x' < 128" if "x' < unat (screen_cols c)" for x' using assms(1) that by (simp add: screen_ok_def console_ok_def)
  show thesis
    by (rule that[OF _ p(3)])
      (use p(1,2,5,6) grid_upd[OF ok small, of _ t] in auto)
qed

text \<open>The cursor after the wrap at the right end of a line.\<close>

lemma line_wrapped:
  assumes "screen_ok c" "unat x \<le> unat (screen_cols c)" "unat y < unat (screen_rows c)" "unat x0 + 7 \<le> unat (screen_cols c)"
  obtains x' y' c' where
    "(if screen_width c div 8 < x + 7 then
        (if y < screen_rows c - 1 then Some (x0, y + 1, c) else do { c \<leftarrow> scroll_screen a b c; Some (x0, y, c) })
      else Some (x, y, c)) = Some (x', y', c')" "screen_ok c'" "drawn_from c c'" "on_screen c' x' y'" "unat x' + 7 \<le> unat (screen_cols c)"
proof (cases "screen_width c div 8 < x + 7")
  case False
  have ok: "console_ok c" using assms(1) by (simp add: screen_ok_def)
  have "unat x + 7 \<le> unat (screen_cols c)" using False line_full[OF ok assms(2)] by simp
  then show thesis using False assms(1,3) by (intro that[of x y c]) (auto simp: on_screen_def)
next
  case True
  have ok: "console_ok c" using assms(1) by (simp add: screen_ok_def)
  show thesis
  proof (cases "y < screen_rows c - 1")
    case less: True
    have r: "0 < unat (screen_rows c)" using ok by (simp add: console_ok_def)
    then have "unat (screen_rows c - 1) = unat (screen_rows c) - 1" using unat_minus_one[of "screen_rows c"] by (cases "screen_rows c = 0") auto
    then have y: "Suc (unat y) < unat (screen_rows c)" using less by (simp add: word_less_nat_alt)
    have "unat (screen_rows c) \<le> 256" using ok by (simp add: console_ok_def)
    then have "unat (y + 1) = Suc (unat y)" using y by (simp add: unat_word_ariths)
    then show thesis using True less assms(1,4) y by (intro that[of x0 "y + 1" c]) (auto simp: on_screen_def)
  next
    case False
    obtain p d where s: "scroll_screen a b c = Some (c\<lparr>pixels := p, screen_buffer := d\<rparr>)"
      "screen_ok (c\<lparr>pixels := p, screen_buffer := d\<rparr>)" "scrolled c (c\<lparr>pixels := p, screen_buffer := d\<rparr>)"
      by (rule scroll_screen_effect[OF assms(1)])
    then show thesis using True False assms(3,4)
      by (intro that[of x0 y "c\<lparr>pixels := p, screen_buffer := d\<rparr>"]) (auto simp: on_screen_def)
  qed
qed

lemma write_chars_safe:
  assumes "screen_ok c" "printable msg" "unat crus_x \<le> unat (screen_cols c)" "unat crus_y < unat (screen_rows c)"
    "unat x + 7 \<le> unat (screen_cols c)"
  shows "\<exists>y' c'. write_chars x a b msg crus_x crus_y c = Some (y', c') \<and> screen_ok c' \<and> drawn_from c c' \<and>
    unat y' < unat (screen_rows c)"
  using assms
proof (induction msg arbitrary: crus_x crus_y c)
  case Nil
  then show ?case by auto
next
  case (Cons t msg)
  obtain x1 y1 c1 where 1: "(if screen_width c div 8 < crus_x + 7 then
        (if crus_y < screen_rows c - 1 then Some (x, crus_y + 1, c) else do { c \<leftarrow> scroll_screen a b c; Some (x, crus_y, c) })
      else Some (crus_x, crus_y, c)) = Some (x1, y1, c1)" "screen_ok c1" "drawn_from c c1" "on_screen c1 x1 y1"
    "unat x1 + 7 \<le> unat (screen_cols c)"
    by (rule line_wrapped[OF Cons.prems(1,3,4,5)])
  have t: "unat t < 128" and msg: "printable msg" using Cons.prems(2) by (auto simp: printable_def)
  obtain c2 where 2: "put_char x1 y1 a t b c1 \<bind> screen_put y1 x1 t = Some c2" "screen_ok c2" "drawn_from c1 c2"
    by (rule char_written[OF 1(2,4) t])
  have f: "screen_cols c2 = screen_cols c" "screen_rows c2 = screen_rows c"
    using drawn_from_fields[OF 1(3)] drawn_from_fields[OF 2(3)] by simp_all
  have "unat (x1 + 1) = unat x1 + 1"
    using 1(2,5) drawn_from_fields[OF 1(3)] by (simp add: screen_ok_def console_ok_def unat_word_ariths)
  then have x2: "unat (x1 + 1) \<le> unat (screen_cols c2)" using 1(5) f by simp
  have y2: "unat y1 < unat (screen_rows c2)" using 1(4) f drawn_from_fields[OF 1(3)] by (simp add: on_screen_def)
  have "write_chars x a b (t # msg) crus_x crus_y c = write_chars x a b msg (x1 + 1) y1 c2"
    unfolding write_chars.simps 1(1) bind.bind_lunit case_prod_conv using 2(1)
    by (cases "put_char x1 y1 a t b c1") auto
  then show ?case
    using Cons.IH[OF 2(2) msg x2 y2] Cons.prems(5) f drawn_from_trans[OF 1(3) 2(3)] drawn_from_trans by auto
qed

text \<open>A text that fits on its line changes the characters of this stretch and no others.\<close>

lemma write_chars_line:
  assumes "screen_ok c" "printable msg" "unat crus_x + length msg + 6 \<le> unat (screen_cols c)" "unat crus_y < unat (screen_rows c)"
  shows "\<exists>c'. write_chars x a b msg crus_x crus_y c = Some (crus_y, c') \<and> screen_ok c' \<and> drawn_from c c' \<and>
    (\<forall>x' < unat (screen_cols c). \<forall>y'. grid c' x' y' =
      (if y' = unat crus_y \<and> unat crus_x \<le> x' \<and> x' < unat crus_x + length msg then msg ! (x' - unat crus_x) else grid c x' y')) \<and>
    (\<forall>i < length msg. cell_shows c' (unat crus_x + i) (unat crus_y) (msg ! i) a b) \<and>
    (\<forall>x' y' t' a' b'. \<not> (y' = unat crus_y \<and> unat crus_x \<le> x' \<and> x' < unat crus_x + length msg) \<longrightarrow>
       cell_shows c' x' y' t' a' b' = cell_shows c x' y' t' a' b')"
  using assms
proof (induction msg arbitrary: crus_x c)
  case Nil
  then show ?case by auto
next
  case (Cons t msg)
  have ok: "console_ok c" using Cons.prems(1) by (simp add: screen_ok_def)
  have t: "unat t < 128" and msg: "printable msg" using Cons.prems(2) by (auto simp: printable_def)
  have on: "on_screen c crus_x crus_y" using Cons.prems(3,4) by (simp add: on_screen_def)
  have fits: "\<not> screen_width c div 8 < crus_x + 7" using line_full[OF ok] Cons.prems(3) by simp
  obtain c2 where 2: "put_char crus_x crus_y a t b c \<bind> screen_put crus_y crus_x t = Some c2" "screen_ok c2" "drawn_from c c2"
    "\<forall>x' < unat (screen_cols c). \<forall>y'. grid c2 x' y' = (if x' = unat crus_x \<and> y' = unat crus_y then t else grid c x' y')"
    and drawn: "cell_shows c2 (unat crus_x) (unat crus_y) t a b"
    and other: "\<forall>x' y' t' a' b'. (x', y') \<noteq> (unat crus_x, unat crus_y) \<longrightarrow> cell_shows c2 x' y' t' a' b' = cell_shows c x' y' t' a' b'"
    by (rule char_written[OF Cons.prems(1) on t])
  note f = drawn_from_fields[OF 2(3)]
  have next_x: "unat (crus_x + 1) = unat crus_x + 1"
    using ok Cons.prems(3) by (simp add: console_ok_def unat_word_ariths)
  have w: "write_chars x a b (t # msg) crus_x crus_y c = write_chars x a b msg (crus_x + 1) crus_y c2"
    unfolding write_chars.simps using fits 2(1) by (cases "put_char crus_x crus_y a t b c") auto
  have fit2: "unat (crus_x + 1) + length msg + 6 \<le> unat (screen_cols c2)" "unat crus_y < unat (screen_rows c2)"
    using Cons.prems(3,4) next_x f by simp_all
  obtain c3 where 3: "write_chars x a b msg (crus_x + 1) crus_y c2 = Some (crus_y, c3)" "screen_ok c3" "drawn_from c2 c3"
    and g: "\<forall>x' < unat (screen_cols c2). \<forall>y'. grid c3 x' y' =
      (if y' = unat crus_y \<and> unat (crus_x + 1) \<le> x' \<and> x' < unat (crus_x + 1) + length msg then msg ! (x' - unat (crus_x + 1))
       else grid c2 x' y')"
    and drawn3: "\<forall>i < length msg. cell_shows c3 (unat (crus_x + 1) + i) (unat crus_y) (msg ! i) a b"
    and other3: "\<forall>x' y' t' a' b'. \<not> (y' = unat crus_y \<and> unat (crus_x + 1) \<le> x' \<and> x' < unat (crus_x + 1) + length msg) \<longrightarrow>
       cell_shows c3 x' y' t' a' b' = cell_shows c2 x' y' t' a' b'"
    using Cons.IH[OF 2(2) msg fit2] by blast
  have "cell_shows c3 (unat crus_x + i) (unat crus_y) ((t # msg) ! i) a b" if "i < length (t # msg)" for i
  proof (cases i)
    case 0
    then show ?thesis using drawn other3 next_x by simp
  next
    case (Suc k)
    then show ?thesis using drawn3[rule_format, of k] that next_x by simp
  qed
  moreover have "cell_shows c3 x' y' t' a' b' = cell_shows c x' y' t' a' b'"
    if "\<not> (y' = unat crus_y \<and> unat crus_x \<le> x' \<and> x' < unat crus_x + length (t # msg))" for x' y' t' a' b'
  proof -
    have "\<not> (y' = unat crus_y \<and> unat (crus_x + 1) \<le> x' \<and> x' < unat (crus_x + 1) + length msg)"
      "(x', y') \<noteq> (unat crus_x, unat crus_y)"
      using that next_x by auto
    then show ?thesis using other other3 by blast
  qed
  moreover have "grid c3 x' y' = (if y' = unat crus_y \<and> unat crus_x \<le> x' \<and> x' < unat crus_x + length (t # msg)
      then (t # msg) ! (x' - unat crus_x) else grid c x' y')" if x': "x' < unat (screen_cols c)" for x' y'
  proof (cases "y' = unat crus_y \<and> unat crus_x < x'")
    case True
    then have "x' - unat crus_x = Suc (x' - unat (crus_x + 1))" using next_x Suc_diff_Suc by simp
    then show ?thesis using g 2(4) x' next_x f(1) True by simp
  next
    case False
    then show ?thesis using g 2(4) x' next_x f(1) by auto
  qed
  moreover have "write_chars x a b (t # msg) crus_x crus_y c = Some (crus_y, c3)" using w 3(1) by simp
  ultimately show ?case using 3(2) drawn_from_trans[OF 2(3) 3(3)] by (intro exI[of _ c3]) simp
qed

section \<open>Typing at the cursor\<close>

definition cursor_ok :: "console \<Rightarrow> bool" where
  "cursor_ok c \<longleftrightarrow> unat (global_crus_x c) + 6 \<le> unat (screen_cols c) \<and> unat (global_crus_y c) < unat (screen_rows c) \<and>
     unat (global_defualt_crus_x c) + 7 \<le> unat (screen_cols c)"

lemma cursor_upd [simp]:
  "console_ok (c\<lparr>global_crus_x := x\<rparr>) = console_ok c" "console_ok (c\<lparr>global_crus_y := y\<rparr>) = console_ok c"
  "screen_ok (c\<lparr>global_crus_x := x\<rparr>) = screen_ok c" "screen_ok (c\<lparr>global_crus_y := y\<rparr>) = screen_ok c"
  "grid (c\<lparr>global_crus_x := x\<rparr>) = grid c" "grid (c\<lparr>global_crus_y := y\<rparr>) = grid c"
  "on_screen (c\<lparr>global_crus_x := x\<rparr>) = on_screen c"
  by (simp_all add: screen_ok_def console_ok_def line_length_def grid_def cell_shows_def on_screen_def fun_eq_iff)

text \<open>The console without its cursor and what it shows.\<close>

definition same_shape :: "console \<Rightarrow> console \<Rightarrow> bool" where
  "same_shape c c' \<longleftrightarrow> fb_pitch c' = fb_pitch c \<and> screen_cols c' = screen_cols c \<and> screen_rows c' = screen_rows c \<and>
     screen_width c' = screen_width c \<and> screen_height c' = screen_height c \<and>
     global_defualt_crus_x c' = global_defualt_crus_x c \<and>
     global_last_crus_x c' = global_last_crus_x c \<and> global_last_crus_y c' = global_last_crus_y c"

lemma same_shape_refl [simp]: "same_shape c c"
  by (simp add: same_shape_def)

lemma same_shape_trans: "same_shape c c1 \<Longrightarrow> same_shape c1 c2 \<Longrightarrow> same_shape c c2"
  by (simp add: same_shape_def)

lemma drawn_same_shape: "drawn_from c c' \<Longrightarrow> same_shape c c'"
  by (simp add: drawn_from_iff same_shape_def)

lemma plus_gc_y_safe:
  assumes "screen_ok c" "unat (global_crus_y c) < unat (screen_rows c)"
  obtains c' where "plus_gc_y a b c = Some c'" "screen_ok c'" "same_shape c c'" "global_crus_x c' = global_crus_x c"
    "unat (global_crus_y c') < unat (screen_rows c)"
proof (cases "global_crus_y c < screen_rows c - 1")
  case less: True
  have r: "0 < unat (screen_rows c)" "unat (screen_rows c) \<le> 256" using assms(1) by (simp_all add: screen_ok_def console_ok_def)
  then have "unat (screen_rows c - 1) = unat (screen_rows c) - 1"
    using unat_minus_one[of "screen_rows c"] by (cases "screen_rows c = 0") auto
  then have y: "Suc (unat (global_crus_y c)) < unat (screen_rows c)" using less by (simp add: word_less_nat_alt)
  then have "unat (global_crus_y c + 1) = Suc (unat (global_crus_y c))" using r by (simp add: unat_word_ariths)
  then show thesis using less assms(1) y
    by (intro that[of "c\<lparr>global_crus_y := global_crus_y c + 1\<rparr>"]) (simp_all add: plus_gc_y_def same_shape_def)
next
  case False
  obtain p d where s: "scroll_screen a b c = Some (c\<lparr>pixels := p, screen_buffer := d\<rparr>)"
    "screen_ok (c\<lparr>pixels := p, screen_buffer := d\<rparr>)" "scrolled c (c\<lparr>pixels := p, screen_buffer := d\<rparr>)"
    by (rule scroll_screen_effect[OF assms(1)])
  then show thesis using False assms(2)
    by (intro that[of "c\<lparr>pixels := p, screen_buffer := d\<rparr>"]) (simp_all add: plus_gc_y_def same_shape_def)
qed

lemma cursor_line:
  assumes "screen_ok c" "cursor_ok c"
  obtains c1 where "(if screen_width c div 8 < global_crus_x c + 7
      then plus_gc_y a b (c\<lparr>global_crus_x := global_defualt_crus_x c\<rparr>) else Some c) = Some c1"
    "screen_ok c1" "cursor_ok c1" "same_shape c c1" "unat (global_crus_x c1) + 7 \<le> unat (screen_cols c)"
proof -
  let ?c = "c\<lparr>global_crus_x := global_defualt_crus_x c\<rparr>"
  have ok: "console_ok c" using assms(1) by (simp add: screen_ok_def)
  have cur: "unat (global_crus_x c) + 6 \<le> unat (screen_cols c)" "unat (global_crus_y c) < unat (screen_rows c)"
    "unat (global_defualt_crus_x c) + 7 \<le> unat (screen_cols c)" using assms(2) by (auto simp: cursor_ok_def)
  show thesis
  proof (cases "screen_width c div 8 < global_crus_x c + 7")
    case False
    then show thesis using line_full[OF ok] cur(1) assms by (intro that[of c]) simp_all
  next
    case True
    obtain c1 where "plus_gc_y a b ?c = Some c1" "screen_ok c1" "same_shape ?c c1" "global_crus_x c1 = global_crus_x ?c"
      "unat (global_crus_y c1) < unat (screen_rows ?c)"
      by (rule plus_gc_y_safe[of ?c a b]) (use assms(1) cur(2) in simp_all)
    then show thesis using True cur by (intro that[of c1]) (simp_all add: cursor_ok_def same_shape_def)
  qed
qed

lemma put_char_on_crus_safe:
  assumes "screen_ok c" "cursor_ok c" "printable msg" "s \<noteq> 1"
  shows "\<exists>c'. put_char_on_crus a b msg s m c = Some c' \<and> screen_ok c' \<and> cursor_ok c' \<and> same_shape c c'"
  using assms
proof (induction msg arbitrary: c)
  case Nil
  then show ?case by auto
next
  case (Cons t msg)
  obtain c1 where 1: "(if screen_width c div 8 < global_crus_x c + 7
      then plus_gc_y a b (c\<lparr>global_crus_x := global_defualt_crus_x c\<rparr>) else Some c) = Some c1"
    "screen_ok c1" "cursor_ok c1" "same_shape c c1" "unat (global_crus_x c1) + 7 \<le> unat (screen_cols c)"
    by (rule cursor_line[OF Cons.prems(1,2)])
  have t: "unat t < 128" and msg: "printable msg" using Cons.prems(3) by (auto simp: printable_def)
  have on: "on_screen c1 (global_crus_x c1) (global_crus_y c1)"
    using 1(3,4,5) by (simp add: on_screen_def cursor_ok_def same_shape_def)
  obtain c2 where 2: "put_char (global_crus_x c1) (global_crus_y c1) a t b c1 \<bind> screen_put (global_crus_y c1) (global_crus_x c1) t = Some c2"
    "screen_ok c2" "drawn_from c1 c2"
    by (rule char_written[OF 1(2) on t])
  then obtain c1' where 3: "put_char (global_crus_x c1) (global_crus_y c1) a t b c1 = Some c1'"
    "screen_put (global_crus_y c1) (global_crus_x c1) t c1' = Some c2"
    by (cases "put_char (global_crus_x c1) (global_crus_y c1) a t b c1") auto
  obtain p where 4: "c1' = c1\<lparr>pixels := p\<rparr>"
    using put_char_effect[of c1 "global_crus_x c1" "global_crus_y c1" t a b] 1(2) on t 3(1) by (auto simp: screen_ok_def)
  let ?c3 = "c2\<lparr>global_crus_x := global_crus_x c2 + 1\<rparr>"
  note f = drawn_from_fields[OF 2(3)]
  have sh: "same_shape c ?c3" using same_shape_trans[OF 1(4) drawn_same_shape[OF 2(3)]] by (simp add: same_shape_def)
  have "unat (screen_cols c) \<le> 128" using Cons.prems(1) by (simp add: screen_ok_def console_ok_def)
  then have "unat (global_crus_x c1 + 1) = unat (global_crus_x c1) + 1" using 1(5) by (simp add: unat_word_ariths)
  then have cur: "cursor_ok ?c3" using 1(3,4,5) f by (simp add: cursor_ok_def same_shape_def)
  have "put_char_on_crus a b (t # msg) s m c = put_char_on_crus a b msg s m ?c3"
    using Cons.prems(4) 1(1) 3 4 by simp
  moreover obtain c' where "put_char_on_crus a b msg s m ?c3 = Some c'" "screen_ok c'" "cursor_ok c'" "same_shape ?c3 c'"
    using Cons.IH[of ?c3] 2(2) cur msg Cons.prems(4) by auto
  ultimately show ?case by (auto intro: same_shape_trans[OF sh])
qed

section \<open>The cursor\<close>

lemma screen_ok_cell:
  assumes "screen_ok c" "length p = length (pixels c)" "x < unat (screen_cols c)" "y < unat (screen_rows c)"
    and "cell_shows (c\<lparr>pixels := p\<rparr>) x y (grid c x y) a b"
    and "\<forall>x' y' t' a' b'. (x', y') \<noteq> (x, y) \<longrightarrow> cell_shows (c\<lparr>pixels := p\<rparr>) x' y' t' a' b' = cell_shows c x' y' t' a' b'"
  shows "screen_ok (c\<lparr>pixels := p\<rparr>)"
proof -
  have "\<exists>a b. cell_shows (c\<lparr>pixels := p\<rparr>) x' y' (grid c x' y') a b"
    if "x' < unat (screen_cols c)" "y' < unat (screen_rows c)" for x' y'
  proof (cases "(x', y') = (x, y)")
    case True
    then show ?thesis using assms(5) by auto
  next
    case False
    then show ?thesis using assms(1,6) that unfolding screen_ok_def by metis
  qed
  then show ?thesis using assms(1,2) by (simp add: screen_ok_def)
qed

lemma put_blank_effect:
  assumes "screen_ok c" "on_screen c x y"
  obtains p where "put_cell x y (\<lambda>row k. Some v) c = Some (c\<lparr>pixels := p\<rparr>)" "screen_ok (c\<lparr>pixels := p\<rparr>)"
proof -
  have ok: "console_ok c" using assms(1) by (simp add: screen_ok_def)
  obtain p where p: "put_cell x y (\<lambda>row k. Some v) c = Some (c\<lparr>pixels := p\<rparr>)"
    "cell_drawn (line_length c) (unat x) (unat y) (\<lambda>row k. v) (pixels c) p"
    by (rule put_cell_effect[OF ok assms(2), of "\<lambda>row k. Some v" "\<lambda>row k. v"]) auto
  have l: "line_length (c\<lparr>pixels := p\<rparr>) = line_length c" by (simp add: line_length_def)
  have "screen_ok (c\<lparr>pixels := p\<rparr>)"
  proof (rule screen_ok_cell[OF assms(1)])
    show "length p = length (pixels c)" using p(2) by (simp add: cell_drawn_def)
    show "unat x < unat (screen_cols c)" "unat y < unat (screen_rows c)" using assms(2) by (simp_all add: on_screen_def)
    show "cell_shows (c\<lparr>pixels := p\<rparr>) (unat x) (unat y) (grid c (unat x) (unat y)) v v"
      using p(2) l by (auto simp: cell_drawn_def cell_shows_def)
    show "\<forall>x' y' t' a' b'. (x', y') \<noteq> (unat x, unat y) \<longrightarrow>
        cell_shows (c\<lparr>pixels := p\<rparr>) x' y' t' a' b' = cell_shows c x' y' t' a' b'"
      using p(2) l by (auto simp: cell_drawn_def cell_shows_def)
  qed
  then show thesis using that p(1) by blast
qed

lemma redraw_effect:
  assumes "screen_ok c" "on_screen c x y"
  obtains p where "put_char x y a (grid c (unat x) (unat y)) b c = Some (c\<lparr>pixels := p\<rparr>)" "screen_ok (c\<lparr>pixels := p\<rparr>)"
proof -
  have xy: "unat x < unat (screen_cols c)" "unat y < unat (screen_rows c)" using assms(2) by (simp_all add: on_screen_def)
  have ok: "console_ok c" and t: "unat (grid c (unat x) (unat y)) < 128" using assms(1) xy by (auto simp: screen_ok_def)
  obtain p where p: "put_char x y a (grid c (unat x) (unat y)) b c = Some (c\<lparr>pixels := p\<rparr>)" "length p = length (pixels c)"
    "cell_shows (c\<lparr>pixels := p\<rparr>) (unat x) (unat y) (grid c (unat x) (unat y)) a b"
    "\<forall>x' y' t' a' b'. (x', y') \<noteq> (unat x, unat y) \<longrightarrow> cell_shows (c\<lparr>pixels := p\<rparr>) x' y' t' a' b' = cell_shows c x' y' t' a' b'"
    by (rule put_char_effect[OF ok assms(2) t, of a b])
  show thesis by (rule that[OF p(1) screen_ok_cell[OF assms(1) p(2) xy p(3,4)]])
qed

text \<open>Drawing the cursor restores the cell it was on and inverts the new one.\<close>

lemma put_crus_safe:
  assumes "screen_ok c" "on_screen c (global_crus_x c) (global_crus_y c)" "on_screen c (global_last_crus_x c) (global_last_crus_y c)"
  obtains p where "put_crus a b c = Some (c\<lparr>pixels := p, global_last_crus_x := global_crus_x c, global_last_crus_y := global_crus_y c\<rparr>)"
    "screen_ok (c\<lparr>pixels := p, global_last_crus_x := global_crus_x c, global_last_crus_y := global_crus_y c\<rparr>)"
proof -
  let ?x = "global_crus_x c" and ?y = "global_crus_y c" and ?lx = "global_last_crus_x c" and ?ly = "global_last_crus_y c"
  have ok: "console_ok c" using assms(1) by (simp add: screen_ok_def)
  obtain q1 where q1: "put_cell ?lx ?ly (\<lambda>row k. Some b) c = Some (c\<lparr>pixels := q1\<rparr>)" "screen_ok (c\<lparr>pixels := q1\<rparr>)"
    by (rule put_blank_effect[OF assms(1,3)])
  obtain q2 where q2: "put_char ?lx ?ly a (grid c (unat ?lx) (unat ?ly)) b c = Some (c\<lparr>pixels := q2\<rparr>)" "screen_ok (c\<lparr>pixels := q2\<rparr>)"
    by (rule redraw_effect[OF assms(1,3)])
  obtain p1 where p1: "reput_char a b ?lx ?ly c = Some (c\<lparr>pixels := p1\<rparr>)" "screen_ok (c\<lparr>pixels := p1\<rparr>)"
    using q1 q2 screen_put_effect(2)[OF ok assms(3)] by (cases "is_blank (grid c (unat ?lx) (unat ?ly))") (auto simp: reput_char_def)
  let ?c = "c\<lparr>pixels := p1\<rparr>" and ?t = "grid c (unat ?x) (unat ?y)"
  have on: "on_screen ?c ?x ?y" using assms(2) by simp
  have ok1: "console_ok ?c" using p1(2) by (simp add: screen_ok_def)
  obtain r1 where r1: "put_cell ?x ?y (\<lambda>row k. Some a) ?c = Some (?c\<lparr>pixels := r1\<rparr>)" "screen_ok (?c\<lparr>pixels := r1\<rparr>)"
    by (rule put_blank_effect[OF p1(2) on])
  obtain r2 where r2: "put_char ?x ?y b (grid ?c (unat ?x) (unat ?y)) a ?c = Some (?c\<lparr>pixels := r2\<rparr>)" "screen_ok (?c\<lparr>pixels := r2\<rparr>)"
    by (rule redraw_effect[OF p1(2) on])
  obtain p2 where p2: "(if is_blank ?t then put_cell ?x ?y (\<lambda>row k. Some a) ?c else put_cell ?x ?y (glyph_color ?t b a) ?c) =
      Some (?c\<lparr>pixels := p2\<rparr>)" "screen_ok (?c\<lparr>pixels := p2\<rparr>)"
    using r1 r2 by (cases "is_blank ?t") (auto simp: put_char_def)
  have "put_crus a b c = Some (c\<lparr>pixels := p2, global_last_crus_x := ?x, global_last_crus_y := ?y\<rparr>)"
    using p1(1) p2(1) screen_put_effect(2)[OF ok1 on] by (cases "is_blank ?t") (simp_all add: put_crus_def)
  moreover have "screen_ok (c\<lparr>pixels := p2, global_last_crus_x := ?x, global_last_crus_y := ?y\<rparr>)"
    using p2(2) by (simp add: screen_ok_def console_ok_def line_length_def grid_def cell_shows_def)
  ultimately show thesis using that by blast
qed

section \<open>A blank screen\<close>

lemma blank_screen:
  assumes "console_ok c" "pixels c = replicate n v" "screen_buffer c = replicate 32768 0"
  shows "screen_ok c"
proof -
  have g: "grid c x y = 0" if "x < unat (screen_cols c)" "y < unat (screen_rows c)" for x y
  proof -
    have "x < 128" "y < 256" using that assms(1) by (auto simp: console_ok_def)
    then show ?thesis using assms(3) by (simp add: grid_def)
  qed
  have "\<exists>a b. cell_shows c x y 0 a b" for x y
    using assms(2) by (intro exI[of _ v]) (simp add: cell_shows_def)
  then show ?thesis using assms(1) g by (auto simp: screen_ok_def)
qed

text \<open>Sixteen columns and two rows on a framebuffer of 128 by 16 pixels.\<close>

definition demo_console :: console where
  "demo_console = \<lparr>pixels = replicate 2048 0, fb_pitch = 512, screen_cols = 16, screen_rows = 2, screen_width = 128, screen_height = 16,
     global_defualt_crus_x = 1, global_crus_x = 1, global_crus_y = 0, global_last_crus_x = 1, global_last_crus_y = 0,
     screen_buffer = replicate 32768 0\<rparr>"

lemma demo_console_fields [simp]:
  "screen_cols demo_console = 16" "screen_rows demo_console = 2" "global_crus_x demo_console = 1" "global_crus_y demo_console = 0"
  "global_defualt_crus_x demo_console = 1"
  by (simp_all add: demo_console_def)

lemma demo_console_ok [simp]: "console_ok demo_console"
  by (simp add: console_ok_def demo_console_def line_length_def)

lemma demo_screen_ok [simp]: "screen_ok demo_console"
  by (rule blank_screen[OF demo_console_ok]) (simp_all add: demo_console_def)

lemma demo_cursor_ok [simp]: "cursor_ok demo_console"
  by (simp add: cursor_ok_def)

lemma printable_demo [simp]: "printable (ascii ''abc'')"
  by (simp add: printable_def ascii_def)

section \<open>Properties\<close>

text \<open>C31. Drawing a character changes exactly the pixels of its eight by eight cell: bit k of row r of the glyph selects the
  foreground or the background colour.\<close>

theorem put_char_pixels:
  assumes "console_ok c" "on_screen c x y" "unat t < 128"
  shows "\<exists>p. put_char x y a t b c = Some (c\<lparr>pixels := p\<rparr>) \<and> length p = length (pixels c) \<and>
    (\<forall>i < length (pixels c). p ! i =
      (if i mod line_length c div 8 = unat x \<and> i div line_length c div 8 = unat y
       then (if bit (font8x8_basic ! unat t ! (i div line_length c mod 8)) (i mod line_length c mod 8) then a else b)
       else pixels c ! i))"
proof -
  let ?w = "\<lambda>row k. if bit (font8x8_basic ! unat t ! row) k then a else b"
  obtain p where "put_cell x y (glyph_color t a b) c = Some (c\<lparr>pixels := p\<rparr>)"
    "cell_drawn (line_length c) (unat x) (unat y) ?w (pixels c) p"
    by (rule put_cell_effect[OF assms(1,2), of "glyph_color t a b" ?w]) (use glyph_color_eq[OF assms(3)] in auto)
  then show ?thesis unfolding put_char_def cell_drawn_def by blast
qed

theorem put_char_pixels_witness:
  "\<exists>p. put_char 3 1 7 65 0 demo_console = Some (demo_console\<lparr>pixels := p\<rparr>)"
  using put_char_pixels[of demo_console 3 1 65 7 0] by (auto simp: on_screen_def)

text \<open>C29. Scrolling moves every row of characters up by one, empties the last row and draws every cell of the grid in the colours
  of the call: in each cell the pixels that the glyph of its character sets have the first colour and the others the second.\<close>

theorem scroll_moves_rows:
  assumes "screen_ok c"
  shows "\<exists>c'. scroll_screen a b c = Some c' \<and> drawn_from c c' \<and> screen_ok c' \<and>
    (\<forall>x < unat (screen_cols c). grid c' x (unat (screen_rows c) - 1) = 0) \<and>
    (\<forall>x < unat (screen_cols c). \<forall>y < unat (screen_rows c) - 1. grid c' x y = grid c x (Suc y)) \<and>
    (\<forall>x < unat (screen_cols c). \<forall>y < unat (screen_rows c). cell_shows c' x y (grid c' x y) a b)"
proof -
  obtain p d where "scroll_screen a b c = Some (c\<lparr>pixels := p, screen_buffer := d\<rparr>)"
    "screen_ok (c\<lparr>pixels := p, screen_buffer := d\<rparr>)" "scrolled c (c\<lparr>pixels := p, screen_buffer := d\<rparr>)"
    "\<forall>x < unat (screen_cols c). \<forall>y < unat (screen_rows c). cell_shows (c\<lparr>pixels := p, screen_buffer := d\<rparr>) x y
       (grid (c\<lparr>pixels := p, screen_buffer := d\<rparr>) x y) a b"
    by (rule scroll_screen_effect[OF assms])
  then show ?thesis by (intro exI[of _ "c\<lparr>pixels := p, screen_buffer := d\<rparr>"]) (simp add: scrolled_def)
qed

theorem scroll_moves_rows_witness:
  "\<exists>c'. scroll_screen 7 0 demo_console = Some c' \<and> (\<forall>x < 16. grid c' x 1 = 0)"
  using scroll_moves_rows[OF demo_screen_ok, of 7 0] by auto

text \<open>C30. A text that fits on its line appears in the character buffer at its position, every other character stays, each character
  of the text is drawn in its cell in the colours of the call, and every other cell shows what it showed before.\<close>

theorem write_shows_text:
  assumes "screen_ok c" "printable msg" "unat x + length msg + 6 \<le> unat (screen_cols c)" "unat y < unat (screen_rows c)"
  shows "\<exists>c'. screen_write x y a b msg c = Some (y, c') \<and> screen_ok c' \<and> drawn_from c c' \<and>
    (\<forall>x' < unat (screen_cols c). \<forall>y'. grid c' x' y' =
      (if y' = unat y \<and> unat x \<le> x' \<and> x' < unat x + length msg then msg ! (x' - unat x) else grid c x' y')) \<and>
    (\<forall>i < length msg. cell_shows c' (unat x + i) (unat y) (msg ! i) a b) \<and>
    (\<forall>x' y' t' a' b'. \<not> (y' = unat y \<and> unat x \<le> x' \<and> x' < unat x + length msg) \<longrightarrow>
       cell_shows c' x' y' t' a' b' = cell_shows c x' y' t' a' b')"
proof -
  have r: "unat (screen_rows c - 1) = unat (screen_rows c) - 1"
    using assms(4) unat_minus_one[of "screen_rows c"] by (cases "screen_rows c = 0") auto
  then have "\<not> screen_rows c - 1 < y" using assms(4) by (simp add: word_less_nat_alt)
  then show ?thesis using write_chars_line[OF assms] by (simp add: screen_write_def)
qed

theorem write_shows_text_witness:
  "\<exists>c'. screen_write 2 1 7 0 (ascii ''abc'') demo_console = Some (1, c') \<and> grid c' 3 1 = 98"
  using write_shows_text[OF demo_screen_ok printable_demo, of 2 1 7 0] by (auto simp: ascii_def)

text \<open>C28. The screen stays well formed: from a position that leaves room for a character on a line, \<open>write\<close> puts any text of ASCII
  characters on the screen, wrapping and scrolling, without an access outside the framebuffer, the font or the character buffer, and
  so does the typing of a text at the cursor, which also keeps the cursor on the screen.\<close>

theorem console_well_formed:
  assumes "screen_ok c" "cursor_ok c" "printable msg" "unat x + 7 \<le> unat (screen_cols c)"
  shows "(\<exists>y' c'. screen_write x y a b msg c = Some (y', c') \<and> screen_ok c' \<and> cursor_ok c' \<and> unat y' < unat (screen_rows c')) \<and>
    (\<exists>c'. put_char_on_crus a b msg 0 m c = Some c' \<and> screen_ok c' \<and> cursor_ok c')"
proof
  define y0 where "y0 = (if screen_rows c - 1 < y then screen_rows c - 1 else y)"
  have "0 < unat (screen_rows c)" using assms(1) by (simp add: screen_ok_def console_ok_def)
  then have "unat (screen_rows c - 1) < unat (screen_rows c)"
    using unat_minus_one[of "screen_rows c"] by (cases "screen_rows c = 0") auto
  then have "unat y0 < unat (screen_rows c)" by (auto simp: y0_def word_less_nat_alt)
  then obtain y' c' where w: "write_chars x a b msg x y0 c = Some (y', c')" "screen_ok c'" "drawn_from c c'"
    "unat y' < unat (screen_rows c)"
    using write_chars_safe[OF assms(1,3) _ _ assms(4), of x y0 a b] assms(4) by auto
  then have "cursor_ok c'" using assms(2) drawn_from_fields[OF w(3)] by (simp add: cursor_ok_def)
  then show "\<exists>y' c'. screen_write x y a b msg c = Some (y', c') \<and> screen_ok c' \<and> cursor_ok c' \<and> unat y' < unat (screen_rows c')"
    using w drawn_from_fields[OF w(3)] by (auto simp: screen_write_def y0_def)
  show "\<exists>c'. put_char_on_crus a b msg 0 m c = Some c' \<and> screen_ok c' \<and> cursor_ok c'"
    using put_char_on_crus_safe[OF assms(1-3), of 0 a b m] by auto
qed

theorem console_well_formed_witness:
  "\<exists>y' c'. screen_write 1 9 7 0 (ascii ''abc'') demo_console = Some (y', c') \<and> screen_ok c'"
  using console_well_formed[OF demo_screen_ok demo_cursor_ok printable_demo, of 1 9 7 0 0] by auto

text \<open>C39. The character buffer has its two sizes the other way round: on a screen of more than 128 columns the character stored at
  column 128 or more of a row is read back as the character of a lower column of the next row.\<close>

theorem wide_screen_aliases:
  assumes "screen_put y (x + 128) v c = Some c'"
  shows "screen_at (y + 1) x c' = Some v"
proof -
  have "unat (y * 128 + (x + 128)) = unat ((y + 1) * 128 + x)" by (simp add: algebra_simps)
  then have i: "screen_index (y + 1) x = screen_index y (x + 128)" by (simp add: screen_index_def MAX_ROWS_def)
  show ?thesis using assms unfolding screen_put_def screen_at_def i by (auto simp: poke_def split: if_splits)
qed

theorem wide_screen_aliases_witness:
  "\<exists>c'. screen_put 0 130 65 demo_console = Some c' \<and> screen_at 1 2 c' = Some 65"
proof -
  have "130 < length (screen_buffer demo_console)" by (simp add: demo_console_def)
  then obtain c' where "screen_put 0 (2 + 128) 65 demo_console = Some c'"
    by (simp add: screen_put_def screen_index_def)
  from this and wide_screen_aliases[OF this] show ?thesis by auto
qed

end
