(* ===== verification/ShellText.thy ===== *)
theory ShellText
  imports Shell ConsoleProps
begin

text \<open>
  The shell without the disk: the words of a command line, \<open>echo\<close>, the lines of a script, the fuel of \<open>enter\<close> and typing.
\<close>

section \<open>Words of a command line\<close>

text \<open>The words of a line: its longest pieces without a blank.\<close>

function blank_words :: "cstring \<Rightarrow> cstring list" where
  "blank_words s =
     (let r = dropWhile (\<lambda>c. c = 32) s in
      if r = [] then [] else takeWhile (\<lambda>c. c \<noteq> 32) r # blank_words (dropWhile (\<lambda>c. c \<noteq> 32) r))"
  by pat_completeness auto
termination
proof (relation "measure length", simp)
  fix s r :: cstring
  assume r: "r = dropWhile (\<lambda>c. c = 32) s" "r \<noteq> []"
  then have "hd r \<noteq> 32" using hd_dropWhile[of "\<lambda>c. c = 32" s] by simp
  then have "length (dropWhile (\<lambda>c. c \<noteq> 32) r) < length r"
    using r(2) by (cases r) (auto intro: le_imp_less_Suc length_dropWhile_le)
  also have "\<dots> \<le> length s" using r(1) by (simp add: length_dropWhile_le)
  finally show "(dropWhile (\<lambda>c. c \<noteq> 32) r, s) \<in> measure length" by simp
qed

declare blank_words.simps [simp del]

lemma blank_words_Nil [simp]: "blank_words [] = []"
  by (simp add: blank_words.simps)

lemma blank_words_blank [simp]: "blank_words (32 # s) = blank_words s"
  by (simp add: blank_words.simps[of "32 # s"] blank_words.simps[of s])

lemma blank_words_word:
  "w \<noteq> [] \<Longrightarrow> 32 \<notin> set w \<Longrightarrow> s = [] \<or> hd s = 32 \<Longrightarrow> blank_words (w @ s) = w # blank_words s"
proof -
  assume w: "w \<noteq> []" "32 \<notin> set w" and s: "s = [] \<or> hd s = 32"
  have d: "dropWhile (\<lambda>c. c = 32) (w @ s) = w @ s" using w by (cases w) auto
  have t: "takeWhile (\<lambda>c. c \<noteq> 32) (w @ s) = w" "dropWhile (\<lambda>c. c \<noteq> 32) (w @ s) = s"
    using w(2) s by (cases s; auto simp: takeWhile_append dropWhile_append)+
  show ?thesis by (subst blank_words.simps) (use d t w(1) in \<open>simp add: Let_def\<close>)
qed

definition no_blanks :: "bytes \<Rightarrow> bytes" where
  "no_blanks s = map (\<lambda>c. if c = 32 then 0 else c) s"

lemma cmd_words_suc: "cmd_words s (Suc i) nw = map Suc (cmd_words s i nw)"
  by (induction s arbitrary: i nw) auto

lemma cstr_of_word:
  assumes "0 \<notin> set s"
  shows "cstr_of (no_blanks s @ [0]) = takeWhile (\<lambda>c. c \<noteq> 32) s"
  using assms by (induction s) (auto simp: cstr_of_def no_blanks_def)

text \<open>The scan from a position inside a word skips the rest of it.\<close>

lemma cmd_words_skip:
  assumes "0 \<notin> set s"
  shows "map (\<lambda>p. cstr_of (drop p (no_blanks s @ [0]))) (cmd_words (no_blanks s @ [0]) 0 nw) =
    (if nw then blank_words s else blank_words (dropWhile (\<lambda>c. c \<noteq> 32) s))"
  using assms
proof (induction s arbitrary: nw)
  case Nil
  then show ?case by (simp add: no_blanks_def cstr_of_def)
next
  case (Cons c s)
  then have c: "c \<noteq> 0" and s: "0 \<notin> set s" by auto
  have tl: "map (\<lambda>p. cstr_of (drop p (no_blanks (c # s) @ [0]))) (cmd_words (no_blanks s @ [0]) (Suc 0) b) =
      (if b then blank_words s else blank_words (dropWhile (\<lambda>c. c \<noteq> 32) s))" for b
    using Cons.IH[OF s, of b] by (simp add: cmd_words_suc no_blanks_def comp_def)
  show ?case
  proof (cases "c = 32")
    case True
    then show ?thesis using tl[of True] by (simp add: no_blanks_def)
  next
    case False
    have w: "blank_words (c # s) = takeWhile (\<lambda>c. c \<noteq> 32) (c # s) # blank_words (dropWhile (\<lambda>c. c \<noteq> 32) s)"
      using False by (subst blank_words.simps) simp
    show ?thesis
      using False c tl[of False] cstr_of_word[of "c # s"] Cons.prems w by (auto simp: no_blanks_def)
  qed
qed

lemma parse_words:
  assumes "is_cstring cmd"
  shows "arg_list (parse_command cmd) = blank_words cmd"
  using cmd_words_skip[of cmd True] assms
  by (simp add: arg_list_def parse_command_def no_blanks_def is_cstring_def Let_def)

lemma length_argvs: "length (argvs a) = length (arg_list a)"
  by (simp add: arg_list_def)

lemma arg_eq: "arg a i = (if i < length (arg_list a) then Some (arg_list a ! i) else None)"
  by (simp add: arg_def arg_list_def)

lemma argvs_Nil: "argvs a = [] \<longleftrightarrow> arg_list a = []"
  by (simp add: arg_list_def)

text \<open>The array \<open>argvs\<close> has \<open>argc\<close> elements, enough for the words.\<close>

lemma length_cmd_words:
  "length (cmd_words (s @ [0]) i True) \<le> length (filter (\<lambda>c. c = 0) (s @ [0])) \<and>
   length (cmd_words (s @ [0]) i False) < length (filter (\<lambda>c. c = 0) (s @ [0]))"
proof (induction s arbitrary: i)
  case Nil
  then show ?case by simp
next
  case (Cons c s)
  from Cons[of "Suc i"] show ?case by (auto simp del: filter_append)
qed

lemma argvs_fit:
  assumes "is_cstring cmd"
  shows "length (argvs (parse_command cmd)) \<le> argc (parse_command cmd)"
proof -
  have f: "length (filter (\<lambda>c. c = 0) (no_blanks s)) = length (filter (\<lambda>c. c = 32) s)" if "0 \<notin> set s" for s
    using that by (induction s) (auto simp: no_blanks_def)
  have "length (cmd_words (no_blanks cmd @ [0]) 0 True) \<le> length (filter (\<lambda>c. c = 0) (no_blanks cmd @ [0]))"
    using length_cmd_words[of "no_blanks cmd" 0] by blast
  then show ?thesis
    using f[of cmd] assms by (simp add: parse_command_def no_blanks_def is_cstring_def Let_def)
qed

section \<open>Command names\<close>

lemma unat_of_char: "unat (of_char c :: u8) = of_char c"
proof -
  have "(of_char c :: u8) = of_nat (of_char c)" by (simp only: of_nat_of_char)
  then show ?thesis by (simp add: unat_of_nat take_bit_nat_eq_self of_char_def)
qed

lemma ascii_eq [simp]: "ascii s = ascii t \<longleftrightarrow> s = t"
proof -
  have "inj (of_char :: char \<Rightarrow> u8)"
  proof (rule injI)
    fix c d :: char assume "(of_char c :: u8) = of_char d"
    then have "(of_char c :: nat) = of_char d" by (simp only: unat_of_char[symmetric])
    then show "c = d" by (simp only: of_char_eq_iff)
  qed
  then show ?thesis by (simp add: ascii_def inj_map_eq_map)
qed

lemma word_not_longer: "w \<in> set (blank_words s) \<Longrightarrow> length w \<le> length s"
proof (induction s rule: blank_words.induct)
  case (1 s)
  let ?r = "dropWhile (\<lambda>c. c = 32) s"
  have r: "length ?r \<le> length s" by (rule length_dropWhile_le)
  show ?case
  proof (cases "w = takeWhile (\<lambda>c. c \<noteq> 32) ?r")
    case True
    then show ?thesis using r length_takeWhile_le[of "\<lambda>c. c \<noteq> 32" ?r] by simp
  next
    case False
    then have "?r \<noteq> []" "w \<in> set (blank_words (dropWhile (\<lambda>c. c \<noteq> 32) ?r))"
      using "1.prems" by (subst (asm) blank_words.simps; auto simp: Let_def split: if_splits)+
    then have "length w \<le> length (dropWhile (\<lambda>c. c \<noteq> 32) ?r)" using "1.IH" by simp
    then show ?thesis using r length_dropWhile_le[of "\<lambda>c. c \<noteq> 32" ?r] by linarith
  qed
qed

lemma words_cstring: "is_cstring s \<Longrightarrow> w \<in> set (blank_words s) \<Longrightarrow> is_cstring w"
proof (induction s rule: blank_words.induct)
  case (1 s)
  let ?r = "dropWhile (\<lambda>c. c = 32) s"
  have r: "is_cstring ?r" "is_cstring (dropWhile (\<lambda>c. c \<noteq> 32) ?r)" "is_cstring (takeWhile (\<lambda>c. c \<noteq> 32) ?r)"
    using "1.prems"(1) by (auto simp: is_cstring_def dest: set_dropWhileD set_takeWhileD)
  show ?case
  proof (cases "w = takeWhile (\<lambda>c. c \<noteq> 32) ?r")
    case True
    then show ?thesis using r by simp
  next
    case False
    then have "?r \<noteq> []" "w \<in> set (blank_words (dropWhile (\<lambda>c. c \<noteq> 32) ?r))"
      using "1.prems"(2) by (subst (asm) blank_words.simps; auto simp: Let_def split: if_splits)+
    then show ?thesis using "1.IH" r(2) by simp
  qed
qed

text \<open>The comparison over the length of the command is equality.\<close>

lemma is_cmd_iff:
  assumes "is_cstring w" "is_cstring c" "length w < n"
  shows "fs_strcmp w c n \<noteq> 0 \<longleftrightarrow> w = c"
proof -
  have "take n w = take n c \<longleftrightarrow> w = c"
    using assms(3) by (metis length_take min_less_iff_disj take_all_iff less_imp_le_nat nat_less_le)
  then show ?thesis using assms by (simp add: fs_strcmp_result)
qed

text \<open>The command that a line names: the branches of \<open>enter\<close> as a test on its first word.\<close>

lemma is_cmd_hd:
  assumes "is_cstring cmd" "blank_words cmd = w # ws" "is_cstring c"
  shows "fs_strcmp (arg_list (parse_command cmd) ! 0) c (length cmd + 1) \<noteq> 0 \<longleftrightarrow> w = c"
proof -
  have "is_cstring w" "length w < length cmd + 1"
    using words_cstring[OF assms(1), of w] word_not_longer[of w cmd] assms(2) by simp_all
  then show ?thesis using is_cmd_iff[of w c "length cmd + 1"] assms by (simp add: parse_words)
qed

lemma of_char_word_0: "(of_char c :: u8) = 0 \<longleftrightarrow> c = CHR 0x00"
proof -
  have "(of_char c :: u8) = 0 \<longleftrightarrow> unat (of_char c :: u8) = 0" by (metis unat_0 word_unat_eq_iff)
  also have "\<dots> \<longleftrightarrow> (of_char c :: nat) = of_char (CHR 0x00)" by (simp only: unat_of_char of_char_of) simp
  finally show ?thesis by (simp only: of_char_eq_iff)
qed

lemma is_cstring_ascii [simp]: "is_cstring (ascii s) \<longleftrightarrow> CHR 0x00 \<notin> set s"
  by (auto simp: is_cstring_def ascii_def of_char_word_0 image_iff)

section \<open>Echo\<close>

definition join_tail :: "cstring list \<Rightarrow> cstring" where
  "join_tail ws = concat (map (\<lambda>w. 32 # w) ws)"

fun join_blank :: "cstring list \<Rightarrow> cstring" where
  "join_blank [] = []"
| "join_blank (w # ws) = w @ join_tail ws"

lemma join_args_False:
  "point + length (join_tail ws) \<le> length buf \<Longrightarrow>
     join_args ws False buf point = Some (take point buf @ join_tail ws @ drop (point + length (join_tail ws)) buf,
       point + length (join_tail ws))"
proof (induction ws arbitrary: buf point)
  case Nil
  then show ?case by (simp add: join_tail_def)
next
  case (Cons w ws)
  have j: "join_tail (w # ws) = 32 # w @ join_tail ws" by (simp add: join_tail_def)
  have le: "point + 1 + length w + length (join_tail ws) \<le> length buf" using Cons.prems j by simp
  let ?b = "take (point + 1) (buf[point := 32]) @ w @ drop (point + 1 + length w) (buf[point := 32])"
  have c: "concat_copy (buf[point := 32]) (point + 1) w = Some (?b, point + 1 + length w)"
    using le by (intro concat_copy_eq) simp
  have IH: "join_args ws False ?b (point + 1 + length w) = Some (take (point + 1 + length w) ?b @ join_tail ws @
      drop (point + 1 + length w + length (join_tail ws)) ?b, point + 1 + length w + length (join_tail ws))"
    using le by (intro Cons.IH) simp
  have t: "take (point + 1 + length w) ?b = take point buf @ 32 # w"
    using le by (simp add: take_Suc_conv_app_nth)
  have d: "drop (point + 1 + length w + length (join_tail ws)) ?b = drop (point + length (join_tail (w # ws))) buf"
    using le j by (simp add: ac_simps)
  show ?case using c IH le unfolding t d by (simp add: j)
qed

lemma join_args_True:
  assumes "length (join_blank ws) \<le> length buf"
  shows "join_args ws True buf 0 = Some (join_blank ws @ drop (length (join_blank ws)) buf, length (join_blank ws))"
proof (cases ws)
  case Nil
  then show ?thesis by simp
next
  case (Cons w vs)
  let ?b = "w @ drop (length w) buf"
  have "concat_copy buf 0 w = Some (?b, length w)"
    using assms Cons concat_copy_eq[of 0 w buf] by simp
  moreover have "join_args vs False ?b (length w) = Some (take (length w) ?b @ join_tail vs @
      drop (length w + length (join_tail vs)) ?b, length w + length (join_tail vs))"
    using assms Cons by (intro join_args_False) simp
  ultimately show ?thesis using Cons assms by (simp add: ac_simps)
qed

lemma is_cstring_concat: "is_cstring (concat xs) \<longleftrightarrow> (\<forall>x \<in> set xs. is_cstring x)"
  by (auto simp: is_cstring_def)

lemma is_cstring_join_blank: "(\<And>w. w \<in> set ws \<Longrightarrow> is_cstring w) \<Longrightarrow> is_cstring (join_blank ws)"
proof (cases ws)
  case (Cons w vs)
  assume "\<And>w. w \<in> set ws \<Longrightarrow> is_cstring w"
  then show ?thesis using Cons by (auto simp: join_tail_def is_cstring_def)
qed (simp add: is_cstring_def)

section \<open>Scripts\<close>

text \<open>The lines of a script, the last one without a newline left out when it is empty.\<close>

function script_lines :: "cstring \<Rightarrow> cstring list" where
  "script_lines s =
     (if 10 \<in> set s then takeWhile (\<lambda>c. c \<noteq> 10) s # script_lines (tl (dropWhile (\<lambda>c. c \<noteq> 10) s))
      else if s = [] then [] else [s])"
  by pat_completeness auto
termination
proof (relation "measure length", simp)
  fix s :: cstring
  assume "10 \<in> set s"
  then have "dropWhile (\<lambda>c. c \<noteq> 10) s \<noteq> []" by auto
  then have "length (tl (dropWhile (\<lambda>c. c \<noteq> 10) s)) < length (dropWhile (\<lambda>c. c \<noteq> 10) s)" by simp
  also have "\<dots> \<le> length s" by (rule length_dropWhile_le)
  finally show "(tl (dropWhile (\<lambda>c. c \<noteq> 10) s), s) \<in> measure length" by simp
qed

declare script_lines.simps [simp del]

lemma script_lines_line: "10 \<notin> set line \<Longrightarrow> script_lines (line @ 10 # s) = line # script_lines s"
  by (subst script_lines.simps) (simp add: takeWhile_append dropWhile_append)

lemma script_lines_last: "10 \<notin> set line \<Longrightarrow> script_lines line = (if line = [] then [] else [line])"
  by (subst script_lines.simps) simp

fun run_all :: "'d runner \<Rightarrow> cstring list \<Rightarrow> 'd kernel \<Rightarrow> 'd kernel option" where
  "run_all sc [] k = Some k"
| "run_all sc (l # ls) k = do { (r, k) \<leftarrow> sc l k; run_all sc ls k }"

lemma sh_lines_run:
  assumes "is_cstring s" "10 \<notin> set line" "length line + length s < 1024"
  shows "sh_lines sc (s @ 0 # rest) line k = run_all sc (script_lines (line @ s)) k"
  using assms
proof (induction s arbitrary: line k)
  case Nil
  then show ?case by (cases "sc line k") (auto simp: script_lines_last)
next
  case (Cons c s)
  have c: "c \<noteq> 0" and s: "is_cstring s" using Cons.prems(1) by (auto simp: is_cstring_def)
  show ?case
  proof (cases "c = 10")
    case True
    then show ?thesis
      using Cons.IH[OF s, of "[]"] Cons.prems(2,3)
      by (cases "sc line k") (simp_all add: script_lines_line split: prod.splits)
  next
    case False
    then show ?thesis
      using Cons.IH[OF s, of "line @ [c]"] Cons.prems(2,3) c by simp
  qed
qed

section \<open>Fuel\<close>

text \<open>\<open>option_le a b\<close>: \<open>b\<close> is what \<open>a\<close> is, if that is a value.\<close>

definition option_le :: "'a option \<Rightarrow> 'a option \<Rightarrow> bool" where
  "option_le a b \<longleftrightarrow> (\<forall>r. a = Some r \<longrightarrow> b = Some r)"

definition extends :: "'d runner \<Rightarrow> 'd runner \<Rightarrow> bool" where
  "extends f g \<longleftrightarrow> (\<forall>c k. option_le (f c k) (g c k))"

lemma le_refl: "option_le a a"
  by (simp add: option_le_def)

lemma le_None: "option_le None b"
  by (simp add: option_le_def)

lemma le_bind:
  assumes "option_le a b" "\<And>x. option_le (f x) (g x)"
  shows "option_le (a \<bind> f) (b \<bind> g)"
proof (cases a)
  case (Some x)
  then have "b = Some x" using assms(1) by (simp add: option_le_def)
  then show ?thesis using Some assms(2)[of x] by simp
qed (simp add: option_le_def)

lemma le_prod: "(\<And>x y. option_le (f x y) (g x y)) \<Longrightarrow> option_le (case_prod f p) (case_prod g p)"
  by (cases p) simp

lemma le_if: "option_le a b \<Longrightarrow> option_le c d \<Longrightarrow> option_le (if P then a else c) (if P then b else d)"
  by simp

lemma le_ext: "extends f g \<Longrightarrow> option_le (f c k) (g c k)"
  by (simp add: extends_def)

lemmas le_rules = le_bind le_prod le_if le_ext

lemma extends_shell_command: "extends f g \<Longrightarrow> extends (shell_command_with f) (shell_command_with g)"
  unfolding extends_def[of "shell_command_with f"] shell_command_with_def
  by (intro allI le_rules le_refl)

lemma le_sh_lines:
  assumes "extends f g"
  shows "option_le (sh_lines f s line k) (sh_lines g s line k)"
proof (induction s arbitrary: line k)
  case Nil
  show ?case unfolding sh_lines.simps by (intro le_rules assms le_refl)
next
  case (Cons c s)
  have "option_le (sh_lines f [] line k) (sh_lines g [] line k)"
    unfolding sh_lines.simps by (intro le_rules assms le_refl)
  then show ?case unfolding sh_lines.simps(2) by (intro le_if le_bind le_prod Cons le_ext assms le_refl)
qed

lemma le_for_loop:
  assumes "extends f g"
  shows "option_le (for_loop M f a var i n k) (for_loop M g a var i n k)"
proof (induction n arbitrary: i k)
  case 0
  show ?case by (simp add: le_refl)
next
  case (Suc n)
  show ?case unfolding for_loop.simps Let_def by (intro le_bind le_prod Suc le_ext assms le_refl)
qed

lemma le_run_rest: "extends f g \<Longrightarrow> option_le (run_rest M f a k) (run_rest M g a k)"
  unfolding run_rest_def by (intro le_rules le_refl)

lemma le_cmds:
  assumes "extends f g" "extends e h"
  shows "option_le (cmd_sh M f a k) (cmd_sh M g a k)" "option_le (cmd_fi M f a k) (cmd_fi M g a k)"
    "option_le (cmd_else M f a k) (cmd_else M g a k)" "option_le (cmd_rand M f a k) (cmd_rand M g a k)"
    "option_le (cmd_for M e f a k) (cmd_for M h g a k)"
proof -
  show "option_le (cmd_sh M f a k) (cmd_sh M g a k)"
    unfolding cmd_sh_def by (intro le_bind le_prod le_sh_lines assms le_refl)
  show "option_le (cmd_fi M f a k) (cmd_fi M g a k)" "option_le (cmd_else M f a k) (cmd_else M g a k)"
    unfolding cmd_fi_def cmd_else_def by (intro le_if le_run_rest assms le_refl)+
  show "option_le (cmd_rand M f a k) (cmd_rand M g a k)"
    unfolding cmd_rand_def Let_def by (intro le_bind le_prod le_if le_ext[OF assms(1)] le_refl)
  show "option_le (cmd_for M e f a k) (cmd_for M h g a k)"
    unfolding cmd_for_def Let_def by (intro le_bind le_prod le_ext[OF assms(2)] le_for_loop[OF assms(1)] le_refl)
qed

lemma le_enter_body:
  assumes "extends f g"
  shows "option_le (enter_body M f cmd k) (enter_body M g cmd k)"
  unfolding enter_body_def Let_def
  by (intro le_if le_cmds[OF extends_shell_command[OF assms] assms] le_refl)

lemma extends_enter: "extends (enter M n) (enter M (n + m))"
proof (induction n)
  case 0
  then show ?case by (simp add: extends_def le_None)
next
  case (Suc n)
  show ?case unfolding add_Suc enter.simps extends_def[of "enter_body M (enter M n)"] by (intro allI le_enter_body Suc.IH)
qed

section \<open>Typing\<close>

text \<open>The shell is ready for a key: the screen and its cursors are well formed and there is room in the command.\<close>

definition ready :: "'d kernel \<Rightarrow> bool" where
  "ready k \<longleftrightarrow> screen_ok (con k) \<and> cursor_ok (con k) \<and>
     on_screen (con k) (global_last_crus_x (con k)) (global_last_crus_y (con k)) \<and>
     length (command k) = 4096 \<and> kbd_inv (keyboard k)"

definition typable :: "u8 \<Rightarrow> bool" where
  "typable ch \<longleftrightarrow> unat ch < 128 \<and> ch \<noteq> 0 \<and> ch \<noteq> 8 \<and> ch \<noteq> 10"

text \<open>What editing a line leaves alone.\<close>

definition untouched :: "'d kernel \<Rightarrow> 'd kernel \<Rightarrow> bool" where
  "untouched k k' \<longleftrightarrow> kfs k' = kfs k \<and> current_dir_id k' = current_dir_id k \<and> cmd_line_text k' = cmd_line_text k \<and>
     read_out k' = read_out k \<and> screen_cols (con k') = screen_cols (con k)"

lemma untouched_refl [simp]: "untouched k k"
  by (simp add: untouched_def)

lemma untouched_trans: "untouched k k1 \<Longrightarrow> untouched k1 k2 \<Longrightarrow> untouched k k2"
  by (simp add: untouched_def)

lemma cursor_on_screen: "cursor_ok c \<Longrightarrow> on_screen c (global_crus_x c) (global_crus_y c)"
  by (simp add: cursor_ok_def on_screen_def)

lemma put_crus_ready:
  assumes "ready k"
  obtains k' where "con_call (put_crus a b) k = Some k'" "ready k'" "k' = k\<lparr>con := con k'\<rparr>" "screen_cols (con k') = screen_cols (con k)"
proof -
  have s: "screen_ok (con k)" and c: "cursor_ok (con k)"
    and l: "on_screen (con k) (global_last_crus_x (con k)) (global_last_crus_y (con k))" using assms by (auto simp: ready_def)
  obtain p where p: "put_crus a b (con k) = Some ((con k)\<lparr>pixels := p, global_last_crus_x := global_crus_x (con k),
      global_last_crus_y := global_crus_y (con k)\<rparr>)" (is "_ = Some ?c")
    "screen_ok ((con k)\<lparr>pixels := p, global_last_crus_x := global_crus_x (con k), global_last_crus_y := global_crus_y (con k)\<rparr>)"
    by (rule put_crus_safe[OF s cursor_on_screen[OF c] l])
  have "con_call (put_crus a b) k = Some (k\<lparr>con := ?c\<rparr>)" using p(1) by (simp add: con_call_def)
  moreover have "ready (k\<lparr>con := ?c\<rparr>)"
    using assms p(2) cursor_on_screen[OF c] by (simp add: ready_def cursor_ok_def on_screen_def)
  ultimately show thesis using that by simp
qed

lemma debug_command_works:
  assumes "50 \<le> length b"
  shows "\<exists>out. debug_command b = Some out"
proof -
  have "\<exists>out. oloop 0 50 (\<lambda>x out. do { v \<leftarrow> peek b x; Some (out @ debug_char v @ [32]) }) [] = Some out \<and> True"
    by (rule oloop_invariant) (use assms in simp_all)
  then show ?thesis unfolding debug_command_def by auto
qed

lemma shell_type_effect:
  assumes "ready k" "typable ch" "unat (command_point_c_main k) < 4095"
  obtains k' where "shell_type ch k = Some k'" "ready k'" "screen_cols (con k') = screen_cols (con k)"
    "k' = k\<lparr>con := con k', command := (command k)[unat (command_point_c_main k) := ch],
           command_point_c_main := command_point_c_main k + 1\<rparr>"
proof -
  have s: "screen_ok (con k)" and c: "cursor_ok (con k)" using assms by (auto simp: ready_def)
  have cs: "cstr_of [ch, 0] = [ch]" and pr: "printable [ch]"
    using assms(2) by (auto simp: cstr_of_def printable_def typable_def)
  obtain c' where c': "put_char_on_crus color_fg color_bg [ch] 0 0 (con k) = Some c'" "screen_ok c'" "cursor_ok c'" "same_shape (con k) c'"
    using put_char_on_crus_safe[OF s c pr, of 0 color_fg color_bg 0] by auto
  have lt: "command_point_c_main k < of_nat (max_command_lenght_bytes - 1)"
    using assms(3) by (simp add: max_command_lenght_bytes_def word_less_nat_alt)
  let ?k = "k\<lparr>con := c', command := (command k)[unat (command_point_c_main k) := ch], command_point_c_main := command_point_c_main k + 1\<rparr>"
  have "shell_type ch k = Some ?k"
    using c'(1) cs lt assms(1,3) by (simp add: shell_type_def con_call_def ready_def del: put_char_on_crus.simps)
  moreover have "ready ?k"
    using assms(1) c'(2-4) by (simp add: ready_def same_shape_def on_screen_def)
  ultimately show thesis using that c'(4) by (simp add: same_shape_def)
qed

text \<open>One key of the queue.\<close>

lemma key_typed:
  assumes "ready k" "kbd_items (keyboard k) = ch # rest" "typable ch" "unat (command_point_c_main k) < 4095"
  obtains k' where "shell_step M n k = Some (False, k_hlt M k')" "ready k'" "kbd_items (keyboard k') = rest"
    "command k' = (command k)[unat (command_point_c_main k) := ch]"
    "command_point_c_main k' = command_point_c_main k + 1" "untouched k k'"
proof -
  have inv: "kbd_inv (keyboard k)" using assms(1) by (simp add: ready_def)
  define kb where "kb = (keyboard k)\<lparr>tail := (tail (keyboard k) + 1) mod BUFFER_SIZE\<rparr>"
  have ne: "head (keyboard k) \<noteq> tail (keyboard k)" using kbd_empty_iff[OF inv] assms(2) by simp
  then have rd: "read_kyboard_from_main 0 (keyboard k) = (1, ch, kb)" and items: "kbd_items kb = rest"
    using kbd_read_cons[OF inv ne] assms(2) by (simp_all add: read_kyboard_from_main_def kb_def)
  have kb: "kbd_inv kb" unfolding kb_def by (rule kbd_tail_inv[OF inv])
  obtain k1 where k1: "con_call (put_crus color_fg color_bg) k = Some k1" "ready k1" "k1 = k\<lparr>con := con k1\<rparr>" "screen_cols (con k1) = screen_cols (con k)"
    by (rule put_crus_ready[OF assms(1)])
  define k2 where "k2 = k1\<lparr>keyboard := kb\<rparr>"
  have f2: "command k2 = command k" "command_point_c_main k2 = command_point_c_main k" "keyboard k2 = kb"
    unfolding k2_def by (subst k1(3), simp)+
  have u2: "untouched k k2" unfolding k2_def untouched_def using k1(4) by (subst (1 2 3 4) k1(3)) simp
  have r2: "ready k2" using k1(2) kb by (simp add: k2_def ready_def)
  obtain k3 where k3: "shell_type ch k2 = Some k3" "ready k3" "screen_cols (con k3) = screen_cols (con k2)"
    "k3 = k2\<lparr>con := con k3, command := (command k2)[unat (command_point_c_main k2) := ch],
             command_point_c_main := command_point_c_main k2 + 1\<rparr>"
    using shell_type_effect[OF r2 assms(3)] f2(2) assms(4) by metis
  obtain k4 where k4: "con_call (put_crus color_fg color_bg) k3 = Some k4" "ready k4" "k4 = k3\<lparr>con := con k4\<rparr>" "screen_cols (con k4) = screen_cols (con k3)"
    by (rule put_crus_ready[OF k3(2)])
  have len: "length (command k4) = 4096" using k4(2) by (simp add: ready_def)
  obtain out where out: "debug_command (command k4) = Some out" using debug_command_works[of "command k4"] len by auto
  have f3: "command k3 = (command k)[unat (command_point_c_main k) := ch]" "command_point_c_main k3 = command_point_c_main k + 1"
    "keyboard k3 = kb"
    by (subst k3(4), simp add: f2)+
  have u3: "untouched k2 k3" unfolding untouched_def using k3(3) by (subst (1 2 3 4) k3(4)) simp
  have f4: "command k4 = command k3" "command_point_c_main k4 = command_point_c_main k3" "keyboard k4 = keyboard k3"
    by (subst k4(3), simp)+
  have "untouched k3 k4" unfolding untouched_def using k4(4) by (subst (1 2 3 4) k4(3)) simp
  then have u: "untouched k k4" using untouched_trans u2 u3 by blast
  have kb1: "keyboard k1 = keyboard k" by (subst k1(3)) simp
  have "shell_step M n k = Some (False, k_hlt M (k_debug out k4))"
    using k1(1) kb1 rd k3(1) k4(1) out assms(3) by (simp add: shell_step_def k2_def typable_def Let_def)
  then show thesis
    by (rule that) (use k4(2) f4 f3 items u in \<open>simp_all add: k_debug_def ready_def untouched_def\<close>)
qed

text \<open>A text that is typed ahead ends up in the command buffer.\<close>

lemma keys_typed:
  assumes "ready k" "kbd_items (keyboard k) = ks @ rest" "list_all typable ks"
    "unat (command_point_c_main k) + length ks \<le> 4095" "\<And>k. k_hlt M k = k"
  shows "\<exists>k'. shell M n k = shell M n k' \<and> ready k' \<and> kbd_items (keyboard k') = rest \<and>
    command k' = take (unat (command_point_c_main k)) (command k) @ ks @ drop (unat (command_point_c_main k) + length ks) (command k) \<and>
    unat (command_point_c_main k') = unat (command_point_c_main k) + length ks \<and> untouched k k'"
  using assms
proof (induction ks arbitrary: k)
  case Nil
  then show ?case by (intro exI[of _ k]) simp
next
  case (Cons ch ks)
  have ch: "typable ch" and ks: "list_all typable ks" using Cons.prems(3) by auto
  have lt: "unat (command_point_c_main k) < 4095" using Cons.prems(4) by simp
  have it: "kbd_items (keyboard k) = ch # (ks @ rest)" using Cons.prems(2) by simp
  obtain k1 where k1: "shell_step M n k = Some (False, k_hlt M k1)" "ready k1" "kbd_items (keyboard k1) = ks @ rest"
    "command k1 = (command k)[unat (command_point_c_main k) := ch]"
    "command_point_c_main k1 = command_point_c_main k + 1" "untouched k k1"
    by (rule key_typed[OF Cons.prems(1) it ch lt])
  have sh: "shell M n k = shell M n k1"
    using k1(1) Cons.prems(5) by (subst shell.simps) simp
  have u: "unat (command_point_c_main k1) = Suc (unat (command_point_c_main k))"
    using lt k1(5) by (simp add: unat_word_ariths)
  have le: "unat (command_point_c_main k1) + length ks \<le> 4095" using u Cons.prems(4) by simp
  obtain k' where k': "shell M n k1 = shell M n k'" "ready k'" "kbd_items (keyboard k') = rest"
    "command k' = take (unat (command_point_c_main k1)) (command k1) @ ks @ drop (unat (command_point_c_main k1) + length ks) (command k1)"
    "unat (command_point_c_main k') = unat (command_point_c_main k1) + length ks"
    "untouched k1 k'"
    using Cons.IH[OF k1(2,3) ks le Cons.prems(5)] by blast
  have len: "length (command k) = 4096" using Cons.prems(1) by (simp add: ready_def)
  define p where "p = unat (command_point_c_main k)"
  have "take (Suc p) ((command k)[p := ch]) = take p (command k) @ [ch]"
    using lt len by (simp add: p_def take_Suc_conv_app_nth)
  then have "command k' = take p (command k) @ (ch # ks) @ drop (p + length (ch # ks)) (command k)"
    using k'(4) unfolding k1(4) u p_def[symmetric] by simp
  then show ?case using sh k' u untouched_trans[OF k1(6) k'(6)] by (intro exI[of _ k']) (simp add: p_def)
qed

end
