(* ===== verification/FsProps.thy ===== *)
theory FsProps
  imports FsFormat
begin

text \<open>
  The properties of the file system on the driver of \<open>Ata\<close> and the drive of \<open>AtaDrive\<close>: the lemmas of the locale
  \<open>block_device\<close>, interpreted there, written out over the definitions of \<open>FsPath\<close>, \<open>FsFile\<close> and \<open>FsSuper\<close>.
\<close>

section \<open>A volume on the drive\<close>

abbreviation disk_ops :: "(drive \<Rightarrow> nat \<Rightarrow> u8) \<Rightarrow> drive ata_h" where
  "disk_ops \<equiv> ata_driver drive_ports"

abbreviation volume :: "drive fs \<Rightarrow> bool" where
  "volume \<equiv> volume_ok drive_ok dsectors dcap"

abbreviation vtable :: "drive fs \<Rightarrow> fs_file_entry list" where
  "vtable \<equiv> fs_table dsectors"

abbreviation vbit :: "drive fs \<Rightarrow> nat \<Rightarrow> bool" where
  "vbit \<equiv> fs_bit dsectors"

abbreviation vdata :: "drive fs \<Rightarrow> fs_file_entry \<Rightarrow> bytes" where
  "vdata \<equiv> file_data dsectors"

abbreviation vlast :: "drive fs \<Rightarrow> u64" where
  "vlast \<equiv> fs_last_id dsectors"

text \<open>Uninitialised arrays that happen to hold zeros.\<close>

definition no_junk :: "drive \<Rightarrow> nat \<Rightarrow> u8" where
  "no_junk d i = 0"

text \<open>
  The volume of the witnesses: 4000 sectors with the directory \<open>d\<close> of id 1 and in it the file \<open>f\<close> of id 2, which holds the
  three bytes \<open>abc\<close> in a region of eight sectors at frame 0.
\<close>

definition demo_dir :: fs_file_entry where
  "demo_dir = \<lparr>e_name = pad_name [100], e_size = 4, e_parent_id = 0, e_id = 1, e_type = 3,
     e_region_size = 0, e_flags = 0, e_data_frame = 0\<rparr>"

definition demo_file :: fs_file_entry where
  "demo_file = \<lparr>e_name = pad_name [102], e_size = 3, e_parent_id = 1, e_id = 2, e_type = 2,
     e_region_size = 8, e_flags = 0, e_data_frame = 0\<rparr>"

definition demo_layout :: "drive \<Rightarrow> drive fs" where
  "demo_layout d = \<lparr>dsk = d, sectors = 4000, fs_data_bitmap_size_sectors = 1, start_table = 3, start_storage = 131,
     path_resolve_path_res = replicate 1024 0, path_to_abs_path_res = replicate 1024 0,
     id_to_path_path = replicate 512 (replicate 32 0), id_to_path_point = 0, id_to_path_first_one = False,
     name_buf = replicate 24 0, fs_is_new = 0\<rparr>"

definition demo_sectors :: "nat \<Rightarrow> bytes" where
  "demo_sectors i =
     (if i = 0 then superblock (demo_layout (blank_drive 4000))
      else if i = 1 then 255 # replicate 511 0
      else if i = 2 then put_u64 (replicate 512 0) 0 2
      else if i = 3 then put_entry (put_entry (replicate 512 0) 0 demo_dir) 1 demo_file
      else if i = 131 then [97, 98, 99] @ replicate 509 0
      else replicate 512 0)"

definition demo_fs :: "drive fs" where
  "demo_fs = demo_layout ((blank_drive 4000)\<lparr>dsectors := demo_sectors\<rparr>)"

lemma demo_fs_sel [simp]:
  "dsk demo_fs = (blank_drive 4000)\<lparr>dsectors := demo_sectors\<rparr>" "sectors demo_fs = 4000"
  "fs_data_bitmap_size_sectors demo_fs = 1" "start_table demo_fs = 3" "start_storage demo_fs = 131"
  "dcap (dsk demo_fs) = 4000" "fs_idle demo_fs"
  by (simp_all add: demo_fs_def demo_layout_def blank_drive_def fs_idle_def)

lemma blank_cap [simp]: "dcap (blank_drive n) = n"
  by (simp add: blank_drive_def)

lemma demo_enames [simp]:
  "ename demo_dir = [100]" "ename demo_file = [102]" "length (e_name demo_dir) = 24" "length (e_name demo_file) = 24"
  "0 \<in> set (e_name demo_dir)" "0 \<in> set (e_name demo_file)"
  using cstr_of_pad[of "[100]"] cstr_of_pad[of "[102]"] pad_name_ok[of "[100]"] pad_name_ok[of "[102]"]
  by (simp_all add: demo_dir_def demo_file_def is_cstring_def)

lemma demo_drive: "drive_ok (dsk demo_fs)" "dbusy (dsk demo_fs) = 0"
  using blank_drive_ok[of 4000] by (auto simp: drive_ok_def demo_sectors_def blank_drive_def)

lemma demo_table: "vtable demo_fs = demo_dir # demo_file # replicate 1022 zero_entry"
proof (rule nth_equalityI)
  fix k assume "k < length (vtable demo_fs)"
  then have k: "k < 1024" by simp
  have w: "wf_entry demo_dir" "wf_entry demo_file" by (simp_all add: wf_entry_def)
  have "vtable demo_fs ! k = entry_at (demo_sectors (3 + k div 8)) (k mod 8)"
    using nth_fs_table[OF k, of dsectors demo_fs] by simp
  also have "\<dots> = (if k = 0 then demo_dir else if k = 1 then demo_file else zero_entry)"
  proof (cases "k < 8")
    case True
    then show ?thesis using w by (auto simp: demo_sectors_def entry_at_zeros)
  next
    case False
    then have "3 + k div 8 \<noteq> 3" "3 + k div 8 < 131" using k by auto
    moreover have "k mod 8 < 8" by simp
    ultimately show ?thesis using False by (simp add: demo_sectors_def entry_at_zeros)
  qed
  finally show "vtable demo_fs ! k = (demo_dir # demo_file # replicate 1022 zero_entry) ! k"
    using k by (auto simp: nth_Cons')
qed simp

lemma demo_bit: "f < 4096 \<Longrightarrow> vbit demo_fs f \<longleftrightarrow> f < 8"
proof -
  assume f: "f < 4096"
  have "f div 8 mod 512 = f div 8" using f by simp
  moreover have "bit (255 :: u8) (f mod 8)"
  proof -
    have "bit (mask 8 :: u8) (f mod 8)" by (simp add: bit_simps)
    then show ?thesis by (simp add: mask_eq_exp_minus_1)
  qed
  moreover have "\<not> bit ((255 # replicate 511 0 :: u8 list) ! (f div 8)) (f mod 8)" if "\<not> f < 8"
  proof -
    have "f div 8 - 1 < 511" "f div 8 \<noteq> 0" using that f by auto
    then have "(255 # replicate 511 0 :: u8 list) ! (f div 8) = 0" by (simp only: nth_Cons' if_False nth_replicate)
    then show ?thesis by simp
  qed
  ultimately show ?thesis using f by (cases "f < 8") (simp_all add: fs_bit_def bitmap_bit_def demo_sectors_def)
qed

lemma demo_used [simp]: "used demo_dir" "used demo_file" "\<not> used zero_entry" "is_file demo_file" "\<not> is_file demo_dir"
  by (simp_all add: used_def is_file_def demo_dir_def demo_file_def zero_entry_def)

lemma demo_sel [simp]:
  "e_parent_id demo_dir = 0" "e_id demo_dir = 1" "e_type demo_dir = 3" "e_parent_id demo_file = 1" "e_id demo_file = 2"
  "e_type demo_file = 2" "e_size demo_file = 3" "e_region_size demo_file = 8" "e_data_frame demo_file = 0"
  by (simp_all add: demo_dir_def demo_file_def)

lemma demo_map: "dir_map (vtable demo_fs) = [(0, [100]) \<mapsto> (1, 3), (1, [102]) \<mapsto> (2, 2)]"
proof -
  have z: "first_idx (\<lambda>e. used e \<and> ename e = w \<and> e_parent_id e = p) (replicate 1022 zero_entry) = None" for w p
    by (simp add: first_idx_None)
  show ?thesis
    by (rule ext) (auto simp: dir_map_def demo_table z)
qed

lemma demo_tree: "tree_ok (vtable demo_fs)"
proof -
  let ?es = "demo_dir # demo_file # replicate 1022 zero_entry"
  have "names_ok ?es" by (simp add: names_ok_def) (simp add: zero_entry_def)
  moreover have "is_dir_id ?es 0" "is_dir_id ?es 1" by (simp_all add: is_dir_id_def)
  then have "entries_ok ?es"
    by (simp add: entries_ok_def good_name_def fs_not_found_def) (simp add: zero_entry_def)
  moreover have "distinct_entries ?es"
    by (auto simp: distinct_entries_def nth_Cons')
  ultimately show ?thesis unfolding demo_table tree_ok_def by simp
qed

lemma demo_frames: "file_frames demo_file = {..<8}"
  by (auto simp: file_frames_def in_region_def)

lemma demo_volume: "volume demo_fs"
proof -
  have "fs_good drive_ok dcap demo_fs" using demo_drive(1) by (simp add: fs_good_def layout_ok_def blank_drive_def)
  moreover have "vlast demo_fs = max_id (vtable demo_fs)"
    by (simp add: fs_last_id_def demo_sectors_def demo_table)
  moreover have "regions_ok (region_fits (dcap (dsk demo_fs)) demo_fs) (vbit demo_fs) (vtable demo_fs)"
    unfolding demo_table regions_ok_def
    by (auto simp: demo_frames demo_bit region_fits_def frame_bound_def nth_Cons' is_file_def)
  ultimately show ?thesis by (simp add: volume_ok_def demo_tree)
qed

section \<open>Paths\<close>

text \<open>C12. \<open>path_resolve\<close> brings every path into a normal form: absolute, without empty components, \<open>.\<close> and \<open>..\<close>, where \<open>..\<close> takes
  away the component before it and does nothing at the root; resolving the result again changes nothing.\<close>

theorem path_resolve_canonical:
  assumes "is_cstring path" "length path < 1022"
  shows "\<exists>p b b'. path_resolve path s = Some (p, s\<lparr>path_resolve_path_res := b\<rparr>) \<and>
    p = slash # join_words (normalise [] (components path)) \<and>
    components p = normalise [] (components path) \<and> {[], [dot], [dot, dot]} \<inter> set (components p) = {} \<and>
    path_resolve p s = Some (p, s\<lparr>path_resolve_path_res := b'\<rparr>)"
proof -
  let ?n = "normalise [] (components path)"
  let ?p = "slash # join_words ?n"
  have ok: "w \<noteq> [] \<and> w \<noteq> [dot] \<and> w \<noteq> [dot, dot] \<and> slash \<notin> set w \<and> is_cstring w" if "w \<in> set ?n" for w
  proof -
    have w: "w \<in> set (components path)" "w \<noteq> [dot]" "w \<noteq> [dot, dot]"
      using subsetD[OF set_normalise that] by simp_all
    then have "w \<in> set (split_path path)" by (simp add: components_def)
    then show ?thesis using w slash_split components_cstrings[OF assms(1)] by blast
  qed
  have c: "components ?p = ?n" using components_join[of ?n] ok by simp
  have cs: "is_cstring ?p" using is_cstring_join[of ?n] ok by (auto simp: is_cstring_def)
  have "length ?p < 1023"
    using length_join_words[of ?n] words_size_normalise[of "[]" "components path"] words_size_components[of path] assms(2)
    by simp
  from path_resolve_eq[OF cs this, of s] obtain b' where r2: "path_resolve ?p s = Some (slash # join_words (normalise [] (components ?p)), s\<lparr>path_resolve_path_res := b'\<rparr>)"
    by (rule exE)
  have "normalise [] (components ?p) = ?n" unfolding c using normalise_clean[of ?n "[]"] ok by simp
  moreover have "length path < 1023" using assms(2) by simp
  from path_resolve_eq[OF assms(1) this, of s] obtain b where
    "path_resolve path s = Some (?p, s\<lparr>path_resolve_path_res := b\<rparr>)" by (rule exE)
  moreover have "{[], [dot], [dot, dot]} \<inter> set (components ?p) = {}" unfolding c using ok by blast
  ultimately show ?thesis using r2 c by (intro exI[of _ ?p] exI[of _ b] exI[of _ b'] conjI) simp_all
qed

theorem path_resolve_canonical_witness:
  "\<exists>b. path_resolve (ascii ''a/./../..//d'') demo_fs = Some (ascii ''/d'', demo_fs\<lparr>path_resolve_path_res := b\<rparr>)"
proof -
  have "slash # join_words (normalise [] (components (ascii ''a/./../..//d''))) = ascii ''/d''"
    "is_cstring (ascii ''a/./../..//d'')" "length (ascii ''a/./../..//d'') < 1022"
    by code_simp+
  then show ?thesis using path_resolve_canonical[of "ascii ''a/./../..//d''" demo_fs] by metis
qed

text \<open>The path leads from the directory \<open>cur\<close> to the entry with id \<open>i\<close>.\<close>

definition leads_to :: "fs_file_entry list \<Rightarrow> u64 \<Rightarrow> cstring \<Rightarrow> u64 option" where
  "leads_to es cur path = resolve (dir_map es) (components path) (if rel_or_abs_path path = 1 then cur else 0)"

lemma path_id_leads_to:
  assumes "tree_ok es" "is_cstring path" "path \<noteq> [dot]"
  shows "path_id es path cur = (case leads_to es cur path of None \<Rightarrow> fs_not_found | Some i \<Rightarrow> i)"
  using walk_resolve[OF assms(1) components_cstrings[OF assms(2)]] assms(3)
  by (simp add: path_id_def start_id_def leads_to_def)

lemma volume_table: "volume s \<Longrightarrow> tree_ok (vtable s)"
  by (simp add: volume_ok_def)

lemma volume_good: "volume s \<Longrightarrow> fs_good drive_ok dcap s"
  by (simp add: volume_ok_def)

lemma volume_idle: "volume s \<Longrightarrow> fs_idle s"
  by (simp add: volume_ok_def)

text \<open>What a function that only reads leaves of a volume.\<close>

lemma volume_step:
  assumes "volume s" "fs_step drive_ok dsectors dcap {} s s'" "fs_idle s'"
  shows "volume s'"
  using assms fs_step_good[OF assms(2)] fs_step_same[OF assms(2)] fs_step_vars[OF assms(2)] region_fits_cong[of s' s]
  by (simp add: volume_ok_def)

text \<open>C11. \<open>path_to_id\<close> walks the components of a path through the directory map of the volume, from the root or from the current
  directory, and answers the id it reaches, or -1 when a component does not exist. Nothing on the disk changes.\<close>

theorem path_lookup:
  assumes "volume s" "is_cstring path" "length path \<le> 1023" "path \<noteq> [dot]"
  shows "\<exists>s'. path_to_id (disk_ops junk) path cur s
      = Some (case leads_to (vtable s) cur path of None \<Rightarrow> fs_not_found | Some i \<Rightarrow> i, s') \<and>
    volume s' \<and> dsectors (dsk s') = dsectors (dsk s)"
proof -
  obtain s' where b: "disk_becomes drive_ok dsectors dcap (dsectors (dsk s)) s s'"
    and p: "path_to_id (disk_ops junk) path cur s = Some (path_id (vtable s) path cur, s')"
    by (rule drv.path_to_id_effect[OF volume_good[OF assms(1)] assms(2,3)])
  have "volume s'"
    using volume_step[OF assms(1) becomes_step[OF b]] becomes_idle[OF b] volume_idle[OF assms(1)] by simp
  then show ?thesis
    using p path_id_leads_to[OF volume_table[OF assms(1)] assms(2,4)] disk_becomes_sec[OF b] by auto
qed

lemma demo_leads: "leads_to (vtable demo_fs) 0 (ascii ''d/f'') = Some 2" "is_cstring (ascii ''d/f'')"
    "ascii ''d/f'' \<noteq> [dot]" "length (ascii ''d/f'') = 3"
proof -
  have a: "ascii ''d/f'' = [100, 47, 102]" by code_simp
  show "leads_to (vtable demo_fs) 0 (ascii ''d/f'') = Some 2" "is_cstring (ascii ''d/f'')"
    "ascii ''d/f'' \<noteq> [dot]" "length (ascii ''d/f'') = 3"
    by (simp_all add: a leads_to_def demo_map components_def rel_or_abs_path_def cat_def is_cstring_def)
qed

theorem path_lookup_witness:
  "\<exists>s'. path_to_id (disk_ops no_junk) (ascii ''d/f'') 0 demo_fs = Some (2, s') \<and> volume s'"
  using path_lookup[OF demo_volume demo_leads(2) _ demo_leads(3), of no_junk 0] demo_leads(1,4) by auto

text \<open>C13. A relative path and the absolute path that \<open>path_to_abs\<close> makes of it lead to the same entry: looked up in any directory,
  the absolute path has the id that the relative path has in the current directory.\<close>

theorem relative_path_agrees:
  assumes "volume s" "is_cstring path" "rel_or_abs_path path = 1" "path \<noteq> [dot]"
    and "cur = 0 \<or> (\<exists>e \<in> set (vtable s). used e \<and> e_id e = cur)"
    and "ancestry (vtable s) id_to_path_depth cur = Some ns" "length ns \<le> 512" "length (dir_prefix ns @ path) \<le> 1023"
  shows "\<exists>apath i s1 s2 s3. path_to_abs (disk_ops junk) path cur s = Some (apath, s1) \<and> rel_or_abs_path apath = 0 \<and>
    path_to_id (disk_ops junk) apath other s1 = Some (i, s2) \<and> path_to_id (disk_ops junk) path cur s = Some (i, s3)"
proof -
  note g = volume_good[OF assms(1)] and t = volume_table[OF assms(1)]
  let ?a = "dir_prefix ns @ path"
  have ready: "abs_ready (vtable s) cur path ?a"
    using assms(2,3,6-8) t by (simp add: abs_ready_def tree_ok_def)
  obtain s1 where a: "path_to_abs (disk_ops junk) path cur s = Some (?a, s1)" and st: "fs_step drive_ok dsectors dcap {} s s1"
    by (rule drv.path_to_abs_effect[OF g volume_idle[OF assms(1)] ready])
  obtain s2 where "path_to_id (disk_ops junk) ?a other s1 = Some (path_id (vtable s1) ?a other, s2)"
    by (rule drv.path_to_id_effect[OF fs_step_good[OF st g] abs_ready_cstring[OF ready] assms(8)])
  moreover obtain s3 where "path_to_id (disk_ops junk) path cur s = Some (path_id (vtable s) path cur, s3)"
    by (rule drv.path_to_id_effect[OF g assms(2)]) (use assms(8) in simp)
  moreover have "path_id (vtable s1) ?a other = path_id (vtable s) path cur"
    using abs_walk(1)[OF t assms(6,5)] fs_step_same(2)[OF st] assms(3,4) by (simp add: path_id_def start_id_def)
  ultimately show ?thesis using a abs_ready_absolute[OF ready] by metis
qed

lemma demo_ancestry: "ancestry (vtable demo_fs) id_to_path_depth 1 = Some [[100]]"
proof -
  have "ancestry (vtable demo_fs) (Suc n) 1 = Some [[100]]" for n by (simp add: demo_table)
  moreover have "id_to_path_depth = Suc (id_to_path_depth - 1)" by (simp add: id_to_path_depth_def)
  ultimately show ?thesis by metis
qed

lemma dir_prefix_d: "dir_prefix [[100]] = [slash, 100, slash]"
  by (simp add: dir_prefix_def Let_def)

theorem relative_path_agrees_witness:
  "\<exists>apath i s1 s2 s3. path_to_abs (disk_ops no_junk) [102] 1 demo_fs = Some (apath, s1) \<and>
    path_to_id (disk_ops no_junk) apath 0 s1 = Some (i, s2) \<and> path_to_id (disk_ops no_junk) [102] 1 demo_fs = Some (i, s3)"
proof -
  have "\<exists>e \<in> set (vtable demo_fs). used e \<and> e_id e = 1" by (simp add: demo_table)
  then show ?thesis
    using relative_path_agrees[OF demo_volume _ _ _ _ demo_ancestry, of "[102]" no_junk 0]
    by (auto simp: is_cstring_def rel_or_abs_path_def cat_def dir_prefix_d)
qed

section \<open>Directories and files\<close>

text \<open>C2. Creating a directory acts on the volume as on the abstract map: the new name appears in its directory with the next id and
  type 3, every other name stays, no frame is allocated, no byte of file data changes, and the volume stays well formed.\<close>

theorem mk_dir_refines:
  assumes "volume s" "new_path (vtable s) cur path parent w" "room_for_entry (vtable s)"
  shows "\<exists>s'. fs_mk_dir (disk_ops junk) path cur s = Some (0, s') \<and> volume s' \<and>
    dir_map (vtable s') = (dir_map (vtable s))((parent, w) \<mapsto> (vlast s + 1, 3)) \<and>
    (\<forall>f < frame_bound s. vbit s' f = vbit s f) \<and>
    (\<forall>i \<ge> unat (start_storage s). dsectors (dsk s') i = dsectors (dsk s) i)"
  by (rule drv.mk_dir_volume[OF assms, of junk], intro exI conjI) assumption+

lemma map_upd_at: "m = m'(k \<mapsto> v) \<Longrightarrow> m k = Some v"
  by simp

lemma demo_room: "room_for_entry (vtable demo_fs)"
  by (simp add: room_for_entry_def demo_table fs_not_found_def)

lemma demo_new_path: "new_path (vtable demo_fs) 0 [slash, 100, slash, 120] 1 [120]"
proof -
  have "abs_ready (vtable demo_fs) 0 [slash, 100, slash, 120] [slash, 100, slash, 120]"
    by (simp add: abs_ready_def is_cstring_def rel_or_abs_path_def cat_def)
  moreover have "components [slash, 100, slash, 120] = [[100], [120]]" by (simp add: components_def)
  moreover have "base_name [slash, 100, slash, 120] = [120]"
    by (simp add: base_name_def last_slash_def upt_rec)
  moreover have "is_dir_id (vtable demo_fs) 1" by (simp add: demo_table is_dir_id_def)
  ultimately show ?thesis
    unfolding new_path_def by (auto simp: demo_map good_name_def)
qed

theorem mk_dir_refines_witness:
  "\<exists>s'. fs_mk_dir (disk_ops no_junk) [slash, 100, slash, 120] 0 demo_fs = Some (0, s') \<and> volume s' \<and>
    dir_map (vtable s') (1, [120]) = Some (vlast demo_fs + 1, 3)"
proof -
  from mk_dir_refines[OF demo_volume demo_new_path demo_room, of no_junk] obtain s'
    where a: "fs_mk_dir (disk_ops no_junk) [slash, 100, slash, 120] 0 demo_fs = Some (0, s')" "volume s'"
      "dir_map (vtable s') = (dir_map (vtable demo_fs))((1, [120]) \<mapsto> (vlast demo_fs + 1, 3))"
    by (elim exE conjE)
  show ?thesis by (intro exI[of _ s'] conjI a map_upd_at[OF a(3)])
qed

text \<open>C6. Creating a file allocates the least free run of eight frames, marks exactly these frames, and adds the name with the next id
  and type 2; every other name and allocation stays and the volume stays well formed.\<close>

theorem mk_file_refines:
  assumes "volume s" "new_path (vtable s) cur path parent w" "room_for_entry (vtable s)"
    and "least_run (vbit s) 8 = Some p" "region_fits (dcap (dsk s)) s 8 (of_nat p)"
  shows "\<exists>s'. fs_mk_file (disk_ops junk) path cur s = Some (0, s') \<and> volume s' \<and>
    dir_map (vtable s') = (dir_map (vtable s))((parent, w) \<mapsto> (vlast s + 1, 2)) \<and>
    (\<forall>f < frame_bound s. vbit s' f = (in_region 8 (of_nat p) f \<or> vbit s f)) \<and>
    (\<forall>i \<ge> unat (start_storage s). dsectors (dsk s') i = dsectors (dsk s) i)"
  by (rule drv.mk_file_volume[OF assms, of junk], intro exI conjI) assumption+

lemma demo_run: "least_run (vbit demo_fs) 8 = Some 8" "region_fits (dcap (dsk demo_fs)) demo_fs 8 (of_nat 8)"
proof -
  have "\<not> free_run (vbit demo_fs) 8 j" if "j < 8" for j
    using that by (auto simp: free_run_def demo_bit intro!: exI[of _ 0])
  moreover have "free_run (vbit demo_fs) 8 8" by (auto simp: free_run_def demo_bit)
  ultimately show "least_run (vbit demo_fs) 8 = Some 8"
    by (simp add: least_run_def first_idx_Some)
  show "region_fits (dcap (dsk demo_fs)) demo_fs 8 (of_nat 8)" by (simp add: region_fits_def frame_bound_def)
qed

theorem mk_file_refines_witness:
  "\<exists>s'. fs_mk_file (disk_ops no_junk) [slash, 100, slash, 120] 0 demo_fs = Some (0, s') \<and> volume s' \<and>
    dir_map (vtable s') (1, [120]) = Some (vlast demo_fs + 1, 2)"
proof -
  from mk_file_refines[OF demo_volume demo_new_path demo_room demo_run, of no_junk] obtain s'
    where a: "fs_mk_file (disk_ops no_junk) [slash, 100, slash, 120] 0 demo_fs = Some (0, s')" "volume s'"
      "dir_map (vtable s') = (dir_map (vtable demo_fs))((1, [120]) \<mapsto> (vlast demo_fs + 1, 2))"
    by (elim exE conjE)
  show ?thesis by (intro exI[of _ s'] conjI a map_upd_at[OF a(3)])
qed

text \<open>Nothing is created below a directory that does not exist: both creating functions return 1 and leave every sector as it was.\<close>

lemma mk_without_parent:
  assumes "volume s" "abs_ready (vtable s) cur path apath" "length (base_name path) < 24" "[dot] \<notin> set (components apath)"
    and "resolve (dir_map (vtable s)) (butlast (components apath)) 0 = None"
  shows "\<exists>s1 s2. fs_mk_dir (disk_ops junk) path cur s = Some (1, s1) \<and> volume s1 \<and> dsectors (dsk s1) = dsectors (dsk s) \<and>
    fs_mk_file (disk_ops junk) path cur s = Some (1, s2) \<and> volume s2 \<and> dsectors (dsk s2) = dsectors (dsk s)"
proof -
  have cs: "is_cstring apath" by (rule abs_ready_cstring[OF assms(2)])
  have "walk_path (vtable s) (butlast (components apath)) 0 = fs_not_found"
    using walk_resolve[OF volume_table[OF assms(1)], of "butlast (components apath)" 0] components_cstrings[OF cs] assms(5)
    by (auto dest: in_set_butlastD)
  then obtain s' where h: "new_entry_head (disk_ops junk) path cur s = Some (Inl 1, s')"
    and st: "fs_step drive_ok dsectors dcap {} s s'" "fs_idle s'"
    using drv.new_entry_head_effect[OF volume_good[OF assms(1)] volume_idle[OF assms(1)] assms(2-4), of junk] by auto
  have "fs_mk_dir (disk_ops junk) path cur s = Some (1, s')" "fs_mk_file (disk_ops junk) path cur s = Some (1, s')"
    using h by (simp_all add: fs_mk_dir_def fs_mk_file_def)
  then show ?thesis using volume_step[OF assms(1) st] fs_step_same(1)[OF st(1)] by blast
qed

lemma demo_no_parent:
  "abs_ready (vtable demo_fs) 0 [slash, 120, slash, 121] [slash, 120, slash, 121]"
  "components [slash, 120, slash, 121] = [[120], [121]]" "base_name [slash, 120, slash, 121] = [121]"
  by (simp_all add: abs_ready_def is_cstring_def rel_or_abs_path_def cat_def components_def base_name_def last_slash_def upt_rec)

lemma mk_without_parent_witness:
  "\<exists>s1. fs_mk_dir (disk_ops no_junk) [slash, 120, slash, 121] 0 demo_fs = Some (1, s1) \<and> volume s1"
  using mk_without_parent[OF demo_volume demo_no_parent(1), of no_junk] demo_no_parent(2,3) demo_map by fastforce

text \<open>C36. A name of 24 or more characters runs over the 24 bytes of the static buffer of \<open>path_to_name\<close> (an access outside the array, \<open>None\<close>),
  whichever of the creating functions is called; nothing checks the length.\<close>

theorem long_name_overflows:
  assumes "length (name_buf s) = 24" "24 \<le> length (base_name path)"
  shows "fs_mk_dir E path cur s = None \<and> fs_mk_file E path cur s = None \<and> fs_mk_file_size E path cur n s = None"
  using path_to_name_overflow[OF assms(2,1)]
  by (simp add: fs_mk_dir_def fs_mk_file_def fs_mk_file_size_def new_entry_head_def)

theorem long_name_overflows_witness:
  "fs_mk_dir (disk_ops no_junk) (replicate 24 120) 0 demo_fs = None"
proof -
  have "last_slash (replicate 24 120) = -1" by (rule last_slash_none) simp
  then have "base_name (replicate 24 120) = replicate 24 120" by (simp add: base_name_def)
  moreover have "length (name_buf demo_fs) = 24" by (simp add: demo_fs_def demo_layout_def)
  ultimately show ?thesis using long_name_overflows[of demo_fs "replicate 24 120" "disk_ops no_junk" 0 0] by simp
qed

text \<open>The states in which the removing functions find the entry of a path.\<close>

lemma rm_lookup:
  assumes "volume s" "is_cstring path" "length path \<le> 1023" "path \<noteq> [dot]" "leads_to (vtable s) cur path = Some i"
  obtains s1 where "path_to_id (disk_ops junk) path cur s = Some (i, s1)" and "volume s1" and "dsectors (dsk s1) = dsectors (dsk s)"
    and "vtable s1 = vtable s" and "vbit s1 = vbit s" and "start_storage s1 = start_storage s" and "frame_bound s1 = frame_bound s"
    and "file_chain dsectors s1 = file_chain dsectors s"
    and "table_sectors s1 = table_sectors s" and "id_sector s1 = id_sector s"
proof -
  obtain s1 where b: "disk_becomes drive_ok dsectors dcap (dsectors (dsk s)) s s1"
    and p: "path_to_id (disk_ops junk) path cur s = Some (path_id (vtable s) path cur, s1)"
    by (rule drv.path_to_id_effect[OF volume_good[OF assms(1)] assms(2,3)])
  have "volume s1"
    using volume_step[OF assms(1) becomes_step[OF b]] becomes_idle[OF b] volume_idle[OF assms(1)] by simp
  moreover note same = drv.reads_same[OF b] disk_becomes_vars[OF b]
  moreover have "frame_bound s1 = frame_bound s" by (simp add: frame_bound_def same)
  moreover have "table_sectors s1 = table_sectors s" "id_sector s1 = id_sector s"
    by (simp_all add: table_sectors_def id_sector_def same)
  moreover have "file_chain dsectors s1 = file_chain dsectors s" unfolding file_chain_def[abs_def] by (simp add: same cong: if_cong)
  moreover have "path_id (vtable s) path cur = i"
    using path_id_leads_to[OF volume_table[OF assms(1)] assms(2,4)] assms(5) by simp
  ultimately show thesis using that[of s1] p by simp
qed

lemma volume_id:
  assumes "volume s" "k < 1024" "used (vtable s ! k)"
  shows "e_id (vtable s ! k) \<noteq> fs_not_found" "e_id (vtable s ! k) \<noteq> 0"
  using tree_ok_used(1,2)[OF volume_table[OF assms(1)] nth_mem assms(3)] assms(2) by simp_all

text \<open>C4. Removing a file of one region takes its name out of the directory map, frees exactly the frames of its region and leaves
  every other name, frame and byte of file data; the volume stays well formed.\<close>

theorem rm_file_refines:
  assumes "volume s" "is_cstring path" "length path \<le> 1023" "path \<noteq> [dot]" "leads_to (vtable s) cur path = Some (e_id (vtable s ! k))"
    and "k < 1024" "is_file (vtable s ! k)" "file_chain dsectors s (vtable s ! k) = [e_data_frame (vtable s ! k)]"
  shows "\<exists>s'. fs_rm_file (disk_ops junk) path cur s = Some (0, s') \<and> volume s' \<and>
    dir_map (vtable s') = (dir_map (vtable s))((e_parent_id (vtable s ! k), ename (vtable s ! k)) := None) \<and>
    (\<forall>f < frame_bound s. vbit s' f = (f \<notin> file_frames (vtable s ! k) \<and> vbit s f)) \<and>
    (\<forall>i \<ge> unat (start_storage s). dsectors (dsk s') i = dsectors (dsk s) i)"
proof -
  obtain s1 where p: "path_to_id (disk_ops junk) path cur s = Some (e_id (vtable s ! k), s1)" and v: "volume s1"
    and same: "dsectors (dsk s1) = dsectors (dsk s)" "vtable s1 = vtable s" "vbit s1 = vbit s"
      "start_storage s1 = start_storage s" "frame_bound s1 = frame_bound s" "file_chain dsectors s1 = file_chain dsectors s"
    by (rule rm_lookup[OF assms(1-5)])
  obtain s2 where "fs_rm_file_by_id (disk_ops junk) (e_id (vtable s ! k)) s1 = Some (0, s2)" "volume s2"
    "dir_map (vtable s2) = (dir_map (vtable s))((e_parent_id (vtable s ! k), ename (vtable s ! k)) := None)"
    "\<forall>f < frame_bound s. vbit s2 f = (f \<notin> file_frames (vtable s ! k) \<and> vbit s f)"
    "\<forall>i \<ge> unat (start_storage s). dsectors (dsk s2) i = dsectors (dsk s) i"
    by (rule drv.rm_file_volume[OF v assms(6), of junk, unfolded same, OF assms(7,8)])
  moreover have "e_id (vtable s ! k) \<noteq> fs_not_found" "e_id (vtable s ! k) \<noteq> 0"
    using volume_id[OF assms(1,6)] assms(7) by (simp_all add: is_file_def)
  ultimately show ?thesis using p by (intro exI[of _ s2]) (simp add: fs_rm_file_def)
qed

lemma demo_file_slot: "vtable demo_fs ! 1 = demo_file" "vtable demo_fs ! 0 = demo_dir"
  by (simp_all add: demo_table)

lemma demo_chain: "file_chain dsectors demo_fs demo_file = [0]"
  by (simp add: file_chain_def file_regions_num_def)

theorem rm_file_refines_witness:
  "\<exists>s'. fs_rm_file (disk_ops no_junk) (ascii ''d/f'') 0 demo_fs = Some (0, s') \<and> volume s' \<and> dir_map (vtable s') (1, [102]) = None"
  using rm_file_refines[OF demo_volume demo_leads(2) _ demo_leads(3), of 0 1 no_junk] demo_leads(1,4)
  by (auto simp: demo_file_slot[simplified] demo_chain)

text \<open>C7. A directory is removed only when it is empty: with an entry in it the call returns 1 and no sector of the disk
  changes. An empty one is removed: its slot of the table is cleared and every other entry stays as it is, the last id becomes
  the largest id left, its name leaves the directory map, and no sector outside the table and the sector of the last id changes
  (so neither the bitmap nor the data). The volume stays well formed.\<close>

theorem rm_dir_refines:
  assumes "volume s" "is_cstring path" "length path \<le> 1023" "path \<noteq> [dot]" "leads_to (vtable s) cur path = Some (e_id (vtable s ! k))"
    and "k < 1024" "used (vtable s ! k)" "e_type (vtable s ! k) = 3"
    and "vacant = (\<forall>w. dir_map (vtable s) (e_id (vtable s ! k), w) = None)"
  shows "\<exists>s'. fs_rm_dir (disk_ops junk) path cur s = Some (if vacant then 0 else 1, s') \<and> volume s' \<and>
    dir_map (vtable s') = (if vacant then (dir_map (vtable s))((e_parent_id (vtable s ! k), ename (vtable s ! k)) := None)
      else dir_map (vtable s)) \<and>
    vtable s' = (if vacant then (vtable s)[k := zero_entry] else vtable s) \<and> vlast s' = max_id (vtable s') \<and>
    (\<forall>f < frame_bound s. vbit s' f = vbit s f) \<and>
    (\<forall>i. i \<notin> (if vacant then table_sectors s \<union> id_sector s else {}) \<longrightarrow> dsectors (dsk s') i = dsectors (dsk s) i)"
proof -
  obtain s1 where p: "path_to_id (disk_ops junk) path cur s = Some (e_id (vtable s ! k), s1)" and v: "volume s1"
    and same: "dsectors (dsk s1) = dsectors (dsk s)" "vtable s1 = vtable s" "vbit s1 = vbit s"
      "start_storage s1 = start_storage s" "frame_bound s1 = frame_bound s" "file_chain dsectors s1 = file_chain dsectors s"
      "table_sectors s1 = table_sectors s" "id_sector s1 = id_sector s"
    by (rule rm_lookup[OF assms(1-5)])
  obtain s2 where "fs_rm_dir_by_id (disk_ops junk) (e_id (vtable s ! k)) s1 = Some (if vacant then 0 else 1, s2)" "volume s2"
    "dir_map (vtable s2) = (if vacant then (dir_map (vtable s))((e_parent_id (vtable s ! k), ename (vtable s ! k)) := None)
      else dir_map (vtable s))"
    "\<forall>f < frame_bound s. vbit s2 f = vbit s f"
    "vtable s2 = (if vacant then (vtable s)[k := zero_entry] else vtable s)" "vlast s2 = max_id (vtable s2)"
    "\<forall>i. i \<notin> (if vacant then table_sectors s \<union> id_sector s else {}) \<longrightarrow> dsectors (dsk s2) i = dsectors (dsk s) i"
    by (rule drv.rm_dir_volume[OF v assms(6), of junk, unfolded same assms(9)[symmetric], OF assms(7,8)])
  moreover have "e_id (vtable s ! k) \<noteq> fs_not_found" "e_id (vtable s ! k) \<noteq> 0"
    using volume_id[OF assms(1,6,7)] by simp_all
  ultimately show ?thesis using p by (intro exI[of _ s2]) (simp add: fs_rm_dir_def fs_rm_dir_inside_def)
qed

theorem rm_dir_refines_witness:
  "\<exists>s'. fs_rm_dir (disk_ops no_junk) [100] 0 demo_fs = Some (1, s') \<and> volume s' \<and> dir_map (vtable s') = dir_map (vtable demo_fs)"
proof -
  have l: "leads_to (vtable demo_fs) 0 [100] = Some 1"
    by (simp add: leads_to_def demo_map components_def rel_or_abs_path_def cat_def)
  have "False = (\<forall>w. dir_map (vtable demo_fs) (e_id (vtable demo_fs ! 0), w) = None)"
    by (auto simp: demo_file_slot demo_map)
  from rm_dir_refines[OF demo_volume _ _ _ _ _ _ _ this, of "[100]" 0 no_junk] show ?thesis
    using l by (auto simp: demo_file_slot is_cstring_def)
qed

section \<open>File contents\<close>

lemma file_region_positive:
  assumes "volume s" "j < 1024" "is_file (vtable s ! j)"
  shows "0 < unat (e_region_size (vtable s ! j))"
proof -
  have "vtable s ! j \<in> set (vtable s)" using assms(2) by (intro nth_mem) simp
  then have "region_fits (dcap (dsk s)) s (ucast (e_region_size (vtable s ! j))) (e_data_frame (vtable s ! j))"
    using assms(1,3) unfolding volume_ok_def regions_ok_def by blast
  then show ?thesis by (simp add: region_fits_def unat_ucast_16)
qed

lemma ancestry_skel: "ancestry (map skel es) n i = ancestry es n i"
proof (induction n arbitrary: i)
  case (Suc n)
  have "first_idx (\<lambda>e. e_id e = i) es = Some k \<Longrightarrow> map skel es ! k = skel (es ! k)" for k by (simp add: first_idx_Some)
  then show ?case by (cases "first_idx (\<lambda>e. e_id e = i) es") (simp_all add: first_idx_map Suc)
qed simp

lemma names_file_resize:
  assumes "names_file es cur path k"
  shows "names_file (es[k := (es ! k)\<lparr>e_size := n\<rparr>]) cur path k"
proof -
  let ?es = "es[k := (es ! k)\<lparr>e_size := n\<rparr>]"
  have "ancestry ?es d cur = ancestry es d cur" for d by (metis map_skel_resize ancestry_skel)
  moreover have "names_ok (map skel es) = names_ok es" for es by (simp add: names_ok_def)
  then have "names_ok ?es = names_ok es" by (metis map_skel_resize)
  ultimately have "abs_ready ?es cur path = abs_ready es cur path" by (simp add: abs_ready_def fun_eq_iff)
  then show ?thesis
    using assms by (simp add: names_file_def resize_same) (simp add: is_file_def used_def)
qed

text \<open>C8. Writing a file (its size given, or 0 for a C string) succeeds when the bytes fit into one region: the first
  region of the file then holds them, its entry records their number and the rest of the table, the directory map and the
  bitmap stay the same. No sector of the disk changes apart from those of the table and of that region. So a file of any
  number of regions whose chain does not pass through the written region keeps its chain and every sector of it, and the
  first region of every other file keeps its bytes, up to its recorded size, without a condition. (A chain that does pass through the region, which
  \<open>fs.c:813\<close> makes possible, is not covered.)\<close>

theorem write_file_isolated:
  assumes "volume s" "names_file (vtable s) cur path k"
    and "(if n = 0 then cstrlen src else Some (unat n)) = Some sz" "sz \<le> length src" "one_region (vtable s ! k) sz"
  shows "\<exists>s'. fs_write_file (disk_ops junk) path src n cur s = Some (0, s') \<and> volume s' \<and>
    vtable s' = (vtable s)[k := (vtable s ! k)\<lparr>e_size := of_nat sz\<rparr>] \<and> dir_map (vtable s') = dir_map (vtable s) \<and>
    (\<forall>f < frame_bound s. vbit s' f = vbit s f) \<and> vdata s' (vtable s' ! k) = take sz src \<and>
    (\<forall>i. i \<notin> table_sectors s \<longrightarrow> i \<notin> (+) (unat (start_storage s)) ` file_frames (vtable s ! k) \<longrightarrow>
       dsectors (dsk s') i = dsectors (dsk s) i) \<and>
    (\<forall>j < 1024. j \<noteq> k \<longrightarrow> is_file (vtable s ! j) \<longrightarrow>
       all_frames dsectors s (vtable s ! j) \<inter> file_frames (vtable s ! k) = {} \<longrightarrow>
       file_chain dsectors s' (vtable s' ! j) = file_chain dsectors s (vtable s ! j) \<and>
       (\<forall>f \<in> all_frames dsectors s (vtable s ! j).
          dsectors (dsk s') (unat (start_storage s) + f) = dsectors (dsk s) (unat (start_storage s) + f))) \<and>
    (\<forall>j < 1024. j \<noteq> k \<longrightarrow> is_file (vtable s ! j) \<longrightarrow> vdata s' (vtable s' ! j) = vdata s (vtable s ! j))"
proof -
  obtain s' where s': "fs_write_file (disk_ops junk) path src n cur s = Some (0, s')" "volume s'"
    "vtable s' = (vtable s)[k := (vtable s ! k)\<lparr>e_size := of_nat sz\<rparr>]" "\<forall>f < frame_bound s. vbit s' f = vbit s f"
    "vdata s' (vtable s' ! k) = take sz src"
    "\<forall>j < 1024. j \<noteq> k \<longrightarrow> is_file (vtable s ! j) \<longrightarrow> vdata s' (vtable s' ! j) = vdata s (vtable s ! j)"
    "\<forall>i. i \<notin> table_sectors s \<longrightarrow> i \<notin> (+) (unat (start_storage s)) ` file_frames (vtable s ! k) \<longrightarrow>
       dsectors (dsk s') i = dsectors (dsk s) i"
    and keep: "\<forall>e. 0 < unat (e_region_size e) \<longrightarrow> all_frames dsectors s e \<inter> file_frames (vtable s ! k) = {} \<longrightarrow>
       file_chain dsectors s' e = file_chain dsectors s e \<and>
       (\<forall>f \<in> all_frames dsectors s e.
          dsectors (dsk s') (unat (start_storage s) + f) = dsectors (dsk s) (unat (start_storage s) + f))"
    by (rule drv.write_file_volume[OF assms, of junk])
  have "file_chain dsectors s' (vtable s' ! j) = file_chain dsectors s (vtable s ! j) \<and>
      (\<forall>f \<in> all_frames dsectors s (vtable s ! j).
         dsectors (dsk s') (unat (start_storage s) + f) = dsectors (dsk s) (unat (start_storage s) + f))"
    if j: "j < 1024" "j \<noteq> k" "is_file (vtable s ! j)" "all_frames dsectors s (vtable s ! j) \<inter> file_frames (vtable s ! k) = {}"
    for j
  proof -
    have "vtable s' ! j = vtable s ! j" using j(2) by (simp add: s'(3))
    moreover have "0 < unat (e_region_size (vtable s ! j))"
      using file_region_positive[OF assms(1) j(1,3)] .
    ultimately show ?thesis using keep j(4) by simp
  qed
  moreover have "dir_map (vtable s') = dir_map (vtable s)" unfolding s'(3) by (rule resize_same(1))
  ultimately show ?thesis using s' by (intro exI[of _ s'] conjI) blast+
qed

lemma demo_names_file: "names_file (vtable demo_fs) 0 [slash, 100, slash, 102] 1"
proof -
  have "abs_ready (vtable demo_fs) 0 [slash, 100, slash, 102] [slash, 100, slash, 102]"
    "components [slash, 100, slash, 102] = [[100], [102]]"
    by (simp_all add: abs_ready_def is_cstring_def rel_or_abs_path_def cat_def components_def)
  then show ?thesis unfolding names_file_def demo_map by (auto simp: demo_file_slot[simplified])
qed

theorem write_file_isolated_witness:
  "\<exists>s'. fs_write_file (disk_ops no_junk) [slash, 100, slash, 102] [120, 121, 0] 0 0 demo_fs = Some (0, s') \<and>
    vdata s' (vtable s' ! 1) = [120, 121]"
proof -
  have "(if 0 = (0 :: u64) then cstrlen [120, 121, 0] else Some (unat (0 :: u64))) = Some 2"
    by (simp add: cstrlen_def cstr_of_def)
  from write_file_isolated[OF demo_volume demo_names_file this, of no_junk] show ?thesis
    by (auto simp: one_region_def demo_file_slot[simplified])
qed

text \<open>C3. What is written to a file is what is read from it: reading with room for one byte more than was written returns exactly the
  bytes written, then a terminating zero, and leaves the rest of the buffer alone.\<close>

theorem write_then_read:
  assumes "volume s" "names_file (vtable s) cur path k" "n \<noteq> 0" "unat n \<le> length src" "one_region (vtable s ! k) (unat n)"
    and "n < mx" "unat n < length buffer"
  shows "\<exists>s1 s2. fs_write_file (disk_ops junk) path src n cur s = Some (0, s1) \<and>
    fs_read_file (disk_ops junk) path buffer mx cur s1 = Some (0, take (unat n) src @ 0 # drop (unat n + 1) buffer, s2) \<and>
    volume s2 \<and> dsectors (dsk s2) = dsectors (dsk s1)"
proof -
  have k: "k < 1024" using assms(2) by (simp add: names_file_def)
  have sz: "(if n = 0 then cstrlen src else Some (unat n)) = Some (unat n)" using assms(3) by simp
  obtain s1 where s1: "fs_write_file (disk_ops junk) path src n cur s = Some (0, s1)" "volume s1"
    "vtable s1 = (vtable s)[k := (vtable s ! k)\<lparr>e_size := of_nat (unat n)\<rparr>]" "vdata s1 (vtable s1 ! k) = take (unat n) src"
    by (rule drv.write_file_volume[OF assms(1,2) sz assms(4,5), of junk])
  have e: "vtable s1 ! k = (vtable s ! k)\<lparr>e_size := n\<rparr>" using s1(3) k by simp
  have nf: "names_file (vtable s1) cur path k" unfolding s1(3) by (rule names_file_resize[OF assms(2)])
  have one: "one_region (vtable s1 ! k) (unat (e_size (vtable s1 ! k)))" using assms(5) by (simp add: e one_region_def)
  have mx: "mx \<noteq> 0" "unat n < unat mx" using assms(6) by (auto simp: word_less_nat_alt)
  then have rc: "unat n = read_count mx (vtable s1 ! k)" by (simp add: read_count_def e)
  obtain s2 where "fs_read_file (disk_ops junk) path buffer mx cur s1
      = Some (0, take (unat n) (vdata s1 (vtable s1 ! k)) @ 0 # drop (unat n + 1) buffer, s2)"
    and "fs_step drive_ok dsectors dcap {} s1 s2" "volume s2"
    by (rule drv.read_file_volume[OF s1(2) nf one rc assms(7)])
  then show ?thesis using s1(1,4) fs_step_same(1) by (intro exI[of _ s1] exI[of _ s2]) auto
qed

theorem write_then_read_witness:
  "\<exists>s1 s2. fs_write_file (disk_ops no_junk) [slash, 100, slash, 102] [7, 8, 9, 10] 4 0 demo_fs = Some (0, s1) \<and>
    fs_read_file (disk_ops no_junk) [slash, 100, slash, 102] (replicate 8 1) 8 0 s1 = Some (0, [7, 8, 9, 10, 0, 1, 1, 1], s2)"
proof -
  have "replicate 3 (1 :: u8) = [1, 1, 1]" by (simp add: numeral_eq_Suc)
  then show ?thesis
    using write_then_read[OF demo_volume demo_names_file, of 4 "[7, 8, 9, 10]" 8 "replicate 8 1" no_junk]
    by (auto simp: one_region_def demo_file_slot[simplified] word_less_nat_alt)
qed

text \<open>C35. The allocator takes the lowest run of free frames that is long enough and changes nothing on the disk; when the first sector
  of the bitmap holds no such run, the scan reads past the end of its 512-byte buffer.\<close>

theorem data_region_first_fit:
  assumes "volume s" "2 \<le> unat n" "unat n \<le> 4096"
  shows "(\<exists>p s'. get_data_region (disk_ops junk) 0 n s = Some (of_nat p, s') \<and> volume s' \<and> dsectors (dsk s') = dsectors (dsk s) \<and>
      p + unat n \<le> 4096 \<and> (\<forall>i < unat n. \<not> vbit s (p + i)) \<and> (\<forall>q < p. \<exists>i < unat n. vbit s (q + i))) \<or>
    (get_data_region (disk_ops junk) 0 n s = None \<and> (\<forall>p. p + unat n \<le> 4096 \<longrightarrow> (\<exists>i < unat n. vbit s (p + i))))"
proof -
  obtain s' where b: "disk_becomes drive_ok dsectors dcap (dsectors (dsk s)) s s'"
    and r: "get_data_region (disk_ops junk) 0 n s = map_option (\<lambda>p. (of_nat p, s')) (least_run (vbit s) (unat n))"
    using drv.get_data_region_effect[OF volume_good[OF assms(1)] assms(2,3)] by blast
  have v: "volume s'"
    using volume_step[OF assms(1) becomes_step[OF b]] becomes_idle[OF b] volume_idle[OF assms(1)] by simp
  show ?thesis
  proof (cases "least_run (vbit s) (unat n)")
    case None
    then show ?thesis using r least_run_None[OF None] by (auto simp: free_run_def)
  next
    case (Some p)
    then show ?thesis
      using r v disk_becomes_sec[OF b] least_run_Some[OF Some] by (auto simp: free_run_def)
  qed
qed

theorem data_region_first_fit_witness:
  "\<exists>p s'. get_data_region (disk_ops no_junk) 0 8 demo_fs = Some (of_nat p, s') \<and> (\<forall>i < 8. \<not> vbit demo_fs (p + i))"
proof -
  have u: "unat (8 :: u64) = 8" by simp
  have "\<not> vbit demo_fs (8 + i)" if "i < 8" for i using that by (simp add: demo_bit)
  then have "\<not> (\<forall>p. p + unat (8 :: u64) \<le> 4096 \<longrightarrow> (\<exists>i < unat (8 :: u64). vbit demo_fs (p + i)))"
    unfolding u by (intro notI) (erule allE[of _ 8], auto)
  moreover have "2 \<le> unat (8 :: u64)" "unat (8 :: u64) \<le> 4096" by simp_all
  note data_region_first_fit[OF demo_volume this, of no_junk]
  ultimately show ?thesis unfolding u by (elim disjE exE conjE) blast+
qed

section \<open>Formatting and mounting\<close>

lemma init_formatted:
  assumes "drive_ok (dsk s)" "dbusy (dsk s) = 0" "fs_idle s" "ident_total (dident (dsk s)) = n"
    and "layout_ok (dcap (dsk s)) (fs_compute_layout n s)" "\<not> superblock_ok (dsectors (dsk s) 0) n"
  obtains s' where "fs_init (disk_ops junk) s = Some (0, s')" "empty_volume drive_ok dsectors dcap s'" "fs_is_new s' = 1" "sectors s' = n"
    "start_storage s' = start_storage (fs_compute_layout n s)" "dcap (dsk s') = dcap (dsk s)"
proof -
  obtain d1 where d1: "ata_identify drive_ports (replicate 256 0) (dsk s) = Some (1, dident (dsk s), d1)"
    "drive_ok d1" "dsectors d1 = dsectors (dsk s)" "dcap d1 = dcap (dsk s)"
    by (rule drive_identify[OF assms(1,2)])
  show thesis
    by (rule drv.init_formats[OF assms(3) _ assms(4), of junk d1]) (use that d1 assms in simp_all)
qed

text \<open>C9. On a drive without a valid superblock \<open>fs_init\<close> formats: the result is a well-formed empty volume (no name, no allocated frame)
  whose size is the one the drive reports, with its superblock in sector 0.\<close>

theorem fs_init_formats:
  assumes "drive_ok (dsk s)" "dbusy (dsk s) = 0" "fs_idle s" "ident_total (dident (dsk s)) = n"
    and "layout_ok (dcap (dsk s)) (fs_compute_layout n s)" "\<not> superblock_ok (dsectors (dsk s) 0) n"
  shows "\<exists>s'. fs_init (disk_ops junk) s = Some (0, s') \<and> volume s' \<and> dir_map (vtable s') = Map.empty \<and>
    (\<forall>f < frame_bound s'. \<not> vbit s' f) \<and> sectors s' = n \<and> dsectors (dsk s') 0 = superblock s' \<and> fs_is_new s' = 1"
proof -
  obtain s' where "fs_init (disk_ops junk) s = Some (0, s')" "empty_volume drive_ok dsectors dcap s'" "fs_is_new s' = 1" "sectors s' = n"
    by (rule init_formatted[OF assms])
  then show ?thesis by (intro exI[of _ s']) (simp add: empty_volume_def empty_table)
qed

lemma ident_total_blank: "ident_total ((replicate 256 0)[60 := 4000]) = 4000"
  by (simp add: ident_total_def)

theorem fs_init_formats_witness:
  "\<exists>s'. fs_init (disk_ops no_junk) (demo_layout (blank_drive 4000)) = Some (0, s') \<and> volume s' \<and> sectors s' = 4000"
proof -
  let ?s = "demo_layout (blank_drive 4000)"
  have "ident_total (dident (dsk ?s)) = 4000" using ident_total_blank by (simp add: demo_layout_def blank_drive_def)
  moreover have "layout_ok (dcap (dsk ?s)) (fs_compute_layout 4000 ?s)"
    by (simp add: layout_ok_def fs_compute_layout_def demo_layout_def Let_def)
  moreover have "\<not> superblock_ok (dsectors (dsk ?s) 0) 4000"
    by (simp add: superblock_ok_def sb_magic_ok_def demo_layout_def blank_drive_def sb_magic_def ascii_def upt_rec)
  ultimately show ?thesis
    using fs_init_formats[of ?s 4000 no_junk] blank_drive_ok[of 4000]
    by (auto simp: demo_layout_def fs_idle_def blank_drive_def)
qed

text \<open>C10. What is on a volume survives a restart: mounting its disk again, with the variables of the file system in any idle state, finds the
  superblock, and the directory map, the allocated frames and the content of every file are what they were.\<close>

theorem fs_init_remounts:
  assumes "volume v" "dsectors (dsk v) 0 = superblock v" "dbusy (dsk v) = 0" "sectors v \<le> ident_total (dident (dsk v))"
    and "dsk s = dsk v" "fs_idle s"
  shows "\<exists>s'. fs_init (disk_ops junk) s = Some (1, s') \<and> volume s' \<and> vtable s' = vtable v \<and> dir_map (vtable s') = dir_map (vtable v) \<and>
    (\<forall>f < frame_bound v. vbit s' f = vbit v f) \<and> (\<forall>k < 1024. is_file (vtable v ! k) \<longrightarrow> vdata s' (vtable v ! k) = vdata v (vtable v ! k)) \<and>
    sectors s' = sectors v"
proof -
  have dk: "drive_ok (dsk v)" using volume_good[OF assms(1)] by (simp add: fs_good_def)
  obtain d1 where d1: "ata_identify drive_ports (replicate 256 0) (dsk v) = Some (1, dident (dsk v), d1)"
    "drive_ok d1" "dsectors d1 = dsectors (dsk v)" "dcap d1 = dcap (dsk v)"
    by (rule drive_identify[OF dk assms(3)])
  obtain s' where s': "fs_init (disk_ops junk) s = Some (1, s')" "volume s'" "vtable s' = vtable v"
    "\<forall>f < frame_bound v. vbit s' f = vbit v f" "\<forall>i \<ge> unat (start_storage v). dsectors (dsk s') i = dsectors (dsk v) i"
    "start_storage s' = start_storage v" "sectors s' = sectors v"
    by (rule drv.init_remounts[OF assms(1,2,4,6) _ refl, of junk d1]) (use d1 assms(5) in simp_all)
  have "vdata s' e = vdata v e" for e
    by (rule file_data_cong) (use s'(5,6) in simp_all)
  then show ?thesis using s' by (intro exI[of _ s'] conjI) simp_all
qed

theorem fs_init_remounts_witness:
  "\<exists>s'. fs_init (disk_ops no_junk) (demo_fs\<lparr>start_table := 0, start_storage := 0, sectors := 0, fs_data_bitmap_size_sectors := 0\<rparr>)
     = Some (1, s') \<and> volume s' \<and> dir_map (vtable s') (1, [102]) = Some (2, 2)"
proof -
  have "dsectors (dsk demo_fs) 0 = superblock demo_fs"
    by (simp add: demo_sectors_def demo_fs_def superblock_def demo_layout_def)
  moreover have "sectors demo_fs \<le> ident_total (dident (dsk demo_fs))"
    using ident_total_blank by (simp add: demo_fs_def demo_layout_def blank_drive_def)
  moreover have "fs_idle (demo_fs\<lparr>start_table := 0, start_storage := 0, sectors := 0, fs_data_bitmap_size_sectors := 0\<rparr>)"
    using demo_fs_sel(7) by (simp add: fs_idle_def)
  ultimately obtain s' where "fs_init (disk_ops no_junk) (demo_fs\<lparr>start_table := 0, start_storage := 0, sectors := 0,
      fs_data_bitmap_size_sectors := 0\<rparr>) = Some (1, s')" "volume s'" "dir_map (vtable s') = dir_map (vtable demo_fs)"
    using fs_init_remounts[OF demo_volume, of "demo_fs\<lparr>start_table := 0, start_storage := 0, sectors := 0, fs_data_bitmap_size_sectors := 0\<rparr>" no_junk]
      demo_drive(2) by auto
  moreover have "dir_map (vtable demo_fs) (1, [102]) = Some (2, 2)" by (simp add: demo_map)
  ultimately show ?thesis by (intro exI[of _ s']) simp
qed

end
