(* ===== verification/ShellProps.thy ===== *)
theory ShellProps
  imports ShellText FsProps
begin

text \<open>
  The properties of the shell: command lines, scripts, fuel and typing from \<open>ShellText\<close>, and the commands on a volume, where the
  lemmas of \<open>FsProps\<close> and of the locale \<open>block_device\<close> are put behind \<open>path_arg\<close>.
\<close>

section \<open>Paths on the command line\<close>

definition canonical :: "cstring \<Rightarrow> cstring" where
  "canonical path = slash # join_words (normalise [] (components path))"

text \<open>What a call that only looks something up leaves of the file system.\<close>

definition same_volume :: "drive fs \<Rightarrow> drive fs \<Rightarrow> bool" where
  "same_volume s s' \<longleftrightarrow> volume s' \<and> dsectors (dsk s') = dsectors (dsk s) \<and> vtable s' = vtable s \<and> vbit s' = vbit s \<and>
     vlast s' = vlast s \<and> start_table s' = start_table s \<and> same_geometry dcap s s'"

lemma same_volume_trans: "same_volume s s1 \<Longrightarrow> same_volume s1 s2 \<Longrightarrow> same_volume s s2"
  using geometry_trans by (auto simp: same_volume_def)

lemma step_same_volume:
  assumes "volume s" "fs_step drive_ok dsectors dcap {} s s'" "fs_idle s'"
  shows "same_volume s s'"
  using volume_step[OF assms] fs_step_same[OF assms(2)] fs_step_vars[OF assms(2)]
  by (simp add: same_volume_def step_geometry[OF assms(2)])

lemma resolve_same:
  assumes "volume s"
  shows "same_volume s (s\<lparr>path_resolve_path_res := b\<rparr>)"
proof (rule step_same_volume[OF assms])
  show "fs_step drive_ok dsectors dcap {} s (s\<lparr>path_resolve_path_res := b\<rparr>)"
    using volume_good[OF assms] by (simp add: fs_step_def fs_good_def)
  show "fs_idle (s\<lparr>path_resolve_path_res := b\<rparr>)" using volume_idle[OF assms] by (simp add: fs_idle_def)
qed

lemma path_arg_effect:
  assumes "ata M = disk_ops junk" "volume (kfs k)" "abs_ready (vtable (kfs k)) (current_dir_id k) w apath" "length apath < 1023"
  obtains s' where "path_arg M w k = Some (canonical apath, k\<lparr>kfs := s'\<rparr>)" "same_volume (kfs k) s'"
proof -
  obtain s1 where s1: "path_to_abs (disk_ops junk) w (current_dir_id k) (kfs k) = Some (apath, s1)"
    "fs_step drive_ok dsectors dcap {} (kfs k) s1" "fs_idle s1"
    by (rule drv.path_to_abs_effect[OF volume_good[OF assms(2)] volume_idle[OF assms(2)] assms(3)])
  from path_resolve_eq[OF abs_ready_cstring[OF assms(3)] assms(4), of s1]
  obtain b where b: "path_resolve apath s1 = Some (canonical apath, s1\<lparr>path_resolve_path_res := b\<rparr>)"
    unfolding canonical_def by (rule exE)
  have "same_volume (kfs k) s1" by (rule step_same_volume[OF assms(2) s1(2,3)])
  then have "same_volume (kfs k) (s1\<lparr>path_resolve_path_res := b\<rparr>)"
    using same_volume_trans resolve_same by (metis same_volume_def)
  then show thesis
    by (rule that[rotated]) (simp add: path_arg_def fs_call_def assms(1) s1(1) b)
qed

text \<open>The normal form is ready for the functions of the file system.\<close>

lemma canonical_ready:
  assumes "abs_ready es cur w apath" "length apath < 1022"
  shows "is_cstring (canonical apath)" "length (canonical apath) \<le> 1023" "rel_or_abs_path (canonical apath) = 0"
    "components (canonical apath) = normalise [] (components apath)" "canonical apath \<noteq> [dot]"
    "abs_ready es' cur' (canonical apath) (canonical apath)"
proof -
  let ?n = "normalise [] (components apath)"
  have cs: "is_cstring apath" by (rule abs_ready_cstring[OF assms(1)])
  have ok: "w \<noteq> [] \<and> slash \<notin> set w \<and> is_cstring w" if "w \<in> set ?n" for w
  proof -
    have w: "w \<in> set (components apath)" using subsetD[OF set_normalise that] by simp
    then have "w \<in> set (split_path apath)" by (simp add: components_def)
    then show ?thesis using w slash_split components_cstrings[OF cs] components_ne by blast
  qed
  show c: "components (canonical apath) = ?n" using components_join[of ?n] ok by (simp add: canonical_def)
  show s: "is_cstring (canonical apath)"
    unfolding canonical_def using is_cstring_join[of ?n] ok by (auto simp: is_cstring_def)
  have "length (canonical apath) < 1023"
    unfolding canonical_def
    using length_join_words[of ?n] words_size_normalise[of "[]" "components apath"] words_size_components[of apath] assms(2)
    by simp
  then show l: "length (canonical apath) \<le> 1023" by simp
  show r: "rel_or_abs_path (canonical apath) = 0" by (simp add: canonical_def rel_or_abs_path_def cat_def)
  show "canonical apath \<noteq> [dot]" by (simp add: canonical_def)
  show "abs_ready es' cur' (canonical apath) (canonical apath)" using s l r by (simp add: abs_ready_def)
qed

section \<open>Dispatch\<close>

abbreviation started :: "cstring \<Rightarrow> 'd kernel \<Rightarrow> 'd kernel" where
  "started cmd k \<equiv> k\<lparr>last_global_command_lenght := of_nat (length cmd + 1)\<rparr>"

lemma dispatch:
  assumes "is_cstring cmd" "blank_words cmd = ascii c # ws" "CHR 0x00 \<notin> set c"
  shows "c = ''mkdir'' \<Longrightarrow> enter M (Suc n) cmd k = cmd_mkdir M (parse_command cmd) (started cmd k)"
    and "c = ''cat'' \<Longrightarrow> enter M (Suc n) cmd k = cmd_cat M (parse_command cmd) (started cmd k)"
    and "c = ''write'' \<Longrightarrow> enter M (Suc n) cmd k = cmd_write M (parse_command cmd) (started cmd k)"
    and "c = ''cd'' \<Longrightarrow> enter M (Suc n) cmd k = cmd_cd M (parse_command cmd) (started cmd k)"
    and "c = ''echo'' \<Longrightarrow> enter M (Suc n) cmd k = cmd_echo (parse_command cmd) (started cmd k)"
    and "c = ''mk'' \<Longrightarrow> enter M (Suc n) cmd k = cmd_mk M (parse_command cmd) (started cmd k)"
    and "c = ''rand'' \<Longrightarrow> enter M (Suc n) cmd k = cmd_rand M (shell_command_with (enter M n)) (parse_command cmd) (started cmd k)"
proof -
  have is_c: "fs_strcmp (arg_list (parse_command cmd) ! 0) (ascii s) (Suc (length cmd)) \<noteq> 0 \<longleftrightarrow> c = s" if "CHR 0x00 \<notin> set s" for s
    using is_cmd_hd[OF assms(1,2), of "ascii s"] that by simp
  have ne: "argvs (parse_command cmd) \<noteq> []" using assms(1,2) by (simp add: argvs_Nil parse_words)
  show "c = ''mkdir'' \<Longrightarrow> enter M (Suc n) cmd k = cmd_mkdir M (parse_command cmd) (started cmd k)"
    and "c = ''cat'' \<Longrightarrow> enter M (Suc n) cmd k = cmd_cat M (parse_command cmd) (started cmd k)"
    and "c = ''write'' \<Longrightarrow> enter M (Suc n) cmd k = cmd_write M (parse_command cmd) (started cmd k)"
    and "c = ''cd'' \<Longrightarrow> enter M (Suc n) cmd k = cmd_cd M (parse_command cmd) (started cmd k)"
    and "c = ''echo'' \<Longrightarrow> enter M (Suc n) cmd k = cmd_echo (parse_command cmd) (started cmd k)"
    and "c = ''mk'' \<Longrightarrow> enter M (Suc n) cmd k = cmd_mk M (parse_command cmd) (started cmd k)"
    and "c = ''rand'' \<Longrightarrow> enter M (Suc n) cmd k = cmd_rand M (shell_command_with (enter M n)) (parse_command cmd) (started cmd k)"
    using ne by (simp_all add: enter_body_def Let_def is_c)
qed

text \<open>A command of three parts: a word, a word and the rest of the line.\<close>

lemma cmd_words_word:
  "0 \<notin> set w \<Longrightarrow> cmd_words (w @ 0 # t) i False = cmd_words t (i + length w + 1) True"
  "0 \<notin> set w \<Longrightarrow> w \<noteq> [] \<Longrightarrow> cmd_words (w @ 0 # t) i True = i # cmd_words t (i + length w + 1) True"
proof -
  show a: "0 \<notin> set w \<Longrightarrow> cmd_words (w @ 0 # t) i False = cmd_words t (i + length w + 1) True" for w i
    by (induction w arbitrary: i) simp_all
  show "0 \<notin> set w \<Longrightarrow> w \<noteq> [] \<Longrightarrow> cmd_words (w @ 0 # t) i True = i # cmd_words t (i + length w + 1) True"
    using a[of "tl w" "Suc i"] by (cases w) auto
qed

lemma no_blanks_id: "32 \<notin> set w \<Longrightarrow> no_blanks w = w"
  by (induction w) (auto simp: no_blanks_def)

lemma no_blanks_append: "no_blanks (a @ b) = no_blanks a @ no_blanks b"
  by (simp add: no_blanks_def)

lemma three_parts:
  assumes "v \<noteq> []" "32 \<notin> set v" "w \<noteq> []" "32 \<notin> set w" "content \<noteq> []" "hd content \<noteq> 32" "is_cstring (v @ w @ content)"
  shows "blank_words (v @ 32 # w @ 32 # content) = v # w # blank_words content"
    and "content_from (parse_command (v @ 32 # w @ 32 # content)) 2 = Some content"
    and "3 \<le> length (blank_words (v @ 32 # w @ 32 # content))"
proof -
  let ?cmd = "v @ 32 # w @ 32 # content"
  show b: "blank_words ?cmd = v # w # blank_words content"
    using blank_words_word[OF assms(1,2), of "32 # w @ 32 # content"] blank_words_word[OF assms(3,4), of "32 # content"] by simp
  have z: "0 \<notin> set v" "0 \<notin> set w" "0 \<notin> set content" using assms(7) by (auto simp: is_cstring_def)
  have nb: "no_blanks ?cmd @ [0] = v @ 0 # w @ 0 # no_blanks content @ [0]"
    using no_blanks_id[OF assms(2)] no_blanks_id[OF assms(4)] by (simp add: no_blanks_append) (simp add: no_blanks_def)
  obtain c cs where c: "content = c # cs" "c \<noteq> 32" "c \<noteq> 0" using assms(5,6) z(3) by (cases content) auto
  let ?off = "length v + length w + 2"
  have cw: "\<exists>r. cmd_words (no_blanks ?cmd @ [0]) 0 True = 0 # (length v + 1) # ?off # r"
    unfolding nb using c by (simp add: cmd_words_word z assms(1,3)) (simp add: no_blanks_def)
  have p: "argv (parse_command ?cmd) = no_blanks ?cmd @ [0]" "argvs (parse_command ?cmd) = cmd_words (no_blanks ?cmd @ [0]) 0 True"
    by (simp_all add: parse_command_def no_blanks_def Let_def)
  have d: "drop ?off (argv (parse_command ?cmd)) = no_blanks content @ [0]" unfolding p(1) nb by simp
  have unblank: "map (\<lambda>c. if c = 0 then 32 else c) (no_blanks content) = content"
    using z(3) by (induction content) (auto simp: no_blanks_def)
  have len: "length (no_blanks content) = length content" by (simp add: no_blanks_def)
  obtain r where r: "argvs (parse_command ?cmd) = 0 # (length v + 1) # ?off # r" using cw p(2) by auto
  have "argvs (parse_command ?cmd) ! 2 = ?off" "2 < length (argvs (parse_command ?cmd))" by (simp_all add: r)
  then show "content_from (parse_command ?cmd) 2 = Some content"
    using d unblank len z(3) by (simp add: content_from_def Let_def is_cstring_def)
  have "is_cstring ?cmd" using assms(7) by (simp add: is_cstring_def)
  then have "length (blank_words ?cmd) = length (argvs (parse_command ?cmd))" by (simp add: length_argvs parse_words)
  then show "3 \<le> length (blank_words ?cmd)" by (simp add: r)
qed

section \<open>A kernel for the witnesses\<close>

definition demo_machine :: "drive machine" where
  "demo_machine = \<lparr>ata = disk_ops no_junk, k_hlt = (\<lambda>k. k), stacks = 0, run_task_entry = 0\<rparr>"

definition demo_kernel :: "drive kernel" where
  "demo_kernel = \<lparr>kfs = demo_fs, con = demo_console, keyboard = kbd_init,
     sch = \<lparr>tasks = replicate 16 zero_task, task_count = 0, current_task_id = 0, tick_count = 0, stack_mem = (\<lambda>a. 0), eoi_out = []\<rparr>,
     command = replicate 4096 0, command_point_c_main = 0, cmd_line_text = replicate 1024 0, read_out = replicate 4096 0,
     last_if_stat = 0, rng_state = 1, last_global_command_lenght = 0, current_dir_id = 0, task_b_counter = 0,
     u64_str = replicate 21 0, concats = concat_init, debug_out = []\<rparr>"

lemma demo_machine_sel [simp]: "ata demo_machine = disk_ops no_junk" "k_hlt demo_machine k = k"
  by (simp_all add: demo_machine_def)

lemma demo_kernel_sel [simp]:
  "kfs demo_kernel = demo_fs" "con demo_kernel = demo_console" "keyboard demo_kernel = kbd_init" "current_dir_id demo_kernel = 0"
  "length (command demo_kernel) = 4096" "command_point_c_main demo_kernel = 0" "length (read_out demo_kernel) = 4096"
  by (simp_all add: demo_kernel_def)

section \<open>Command lines and scripts\<close>

text \<open>C17. The words that \<open>enter\<close> finds in a command line are its longest pieces without a blank, and they fit into the array of pointers
  that it declares.\<close>

theorem command_line_words:
  assumes "is_cstring cmd"
  shows "arg_list (parse_command cmd) = blank_words cmd \<and> length (argvs (parse_command cmd)) \<le> argc (parse_command cmd)"
  using parse_words[OF assms] argvs_fit[OF assms] by blast

theorem command_line_words_witness:
  "arg_list (parse_command [97, 32, 32, 98, 99, 32]) = [[97], [98, 99]]"
  using command_line_words[of "[97, 32, 32, 98, 99, 32]"] by (simp add: is_cstring_def blank_words.simps)

text \<open>\<open>echo\<close> leaves its arguments, joined by single blanks, in \<open>read_out\<close> and asks for it to be printed; nothing else changes but the
  length of the command.\<close>

lemma echo_command:
  assumes "is_cstring cmd" "blank_words cmd = ascii ''echo'' # ws" "length (join_blank ws) < 1024" "length (read_out k) = 4096"
  shows "\<exists>out. enter M (Suc n) cmd k = Some (2, (started cmd k)\<lparr>read_out := out\<rparr>) \<and> length out = 4096 \<and> cstr out = Some (join_blank ws)"
proof -
  let ?f = "fill (read_out k) 1024 0" and ?j = "join_blank ws"
  let ?out = "?j @ drop (length ?j) ?f"
  have tl: "tl (arg_list (parse_command cmd)) = ws" using assms(1,2) by (simp add: parse_words)
  have cs: "is_cstring ?j"
    by (rule is_cstring_join_blank) (use words_cstring[OF assms(1)] assms(2) in simp)
  have "drop (length ?j) ?f = ?f ! length ?j # drop (Suc (length ?j)) ?f" using assms(3,4) by (simp add: Cons_nth_drop_Suc)
  also have "?f ! length ?j = 0" using assms(3,4) by (simp add: nth_fill)
  finally have out: "?out = ?j @ 0 # drop (Suc (length ?j)) ?f" by simp
  have "cstr ?out = Some ?j" unfolding out using cs by (simp add: cstr_def)
  moreover have d: "enter M (Suc n) cmd k = cmd_echo (parse_command cmd) (started cmd k)"
    by (rule dispatch(5)[OF assms(1,2)]) simp_all
  have "enter M (Suc n) cmd k = Some (2, (started cmd k)\<lparr>read_out := ?out\<rparr>)"
    unfolding d cmd_echo_def
    using assms(3,4) tl join_args_True[of ws ?f] by simp
  ultimately show ?thesis using assms(3,4) by (intro exI[of _ ?out]) simp
qed

lemma demo_echo: "is_cstring (ascii ''echo a  b'')" "blank_words (ascii ''echo a  b'') = ascii ''echo'' # [[97], [98]]"
  by code_simp+

lemma echo_command_witness:
  "\<exists>out. enter demo_machine 1 (ascii ''echo a  b'') demo_kernel = Some (2, (started (ascii ''echo a  b'') demo_kernel)\<lparr>read_out := out\<rparr>) \<and>
    cstr out = Some [97, 32, 98]"
  using echo_command[OF demo_echo, of demo_kernel demo_machine 0] by (auto simp: join_tail_def)

text \<open>C18. \<open>sh\<close> runs the lines of the text it has read one after the other, the last one also without a newline, and nothing of what
  follows the first NUL in its buffer.\<close>

theorem script_runs_lines:
  assumes "is_cstring s" "length s < 1024"
  shows "sh_lines sc (s @ 0 # rest) [] k = run_all sc (script_lines s) k"
  using sh_lines_run[OF assms(1), of "[]" sc rest k] assms(2) by simp

theorem script_runs_lines_witness:
  "sh_lines (enter demo_machine 3) ([97, 10, 98] @ 0 # [99]) [] demo_kernel = run_all (enter demo_machine 3) [[97], [98]] demo_kernel"
  using script_runs_lines[of "[97, 10, 98]"] by (simp add: is_cstring_def script_lines.simps)

text \<open>The fuel of \<open>enter\<close> only bounds the depth of commands that run commands: a result that some fuel gives is the result for every
  larger fuel.\<close>

lemma enter_fuel:
  assumes "enter M n cmd k = Some r"
  shows "enter M (n + m) cmd k = Some r"
  using extends_enter[of M n m] assms unfolding extends_def option_le_def by blast

lemma enter_fuel_witness:
  "enter demo_machine (1 + 4) [] demo_kernel = Some (0, started [] demo_kernel)"
proof -
  have "enter demo_machine 1 [] demo_kernel = Some (0, started [] demo_kernel)"
    by (simp add: enter_body_def Let_def parse_command_def One_nat_def)
  then show ?thesis by (rule enter_fuel)
qed

text \<open>C38. Each of the fifteen commands \<open>mk\<close>, \<open>mkdir\<close>, \<open>cat\<close>, \<open>cd\<close>, \<open>rm\<close>, \<open>rmdir\<close>, \<open>sw\<close>, \<open>sh\<close>, \<open>if\<close>, \<open>sleep\<close>, \<open>for\<close>,
  \<open>task\<close>, \<open>se\<close>, \<open>math\<close> and \<open>test\<close>, typed without an argument, dereferences a pointer that was never set (undefined behaviour,
  \<open>None\<close>). \<open>write\<close> and \<open>wadd\<close>, which test \<open>argc\<close>, are not among them.\<close>

theorem missing_argument:
  assumes "is_cstring cmd" "blank_words cmd = [ascii c]"
    and "c \<in> set [''mk'', ''mkdir'', ''cat'', ''cd'', ''rm'', ''rmdir'', ''sw'', ''sh'', ''if'', ''sleep'', ''for'', ''task'', ''se'', ''math'', ''test'']"
  shows "enter M n cmd k = None"
proof (cases n)
  case (Suc m)
  have c0: "CHR 0x00 \<notin> set c" using assms(3) by auto
  have is_c: "fs_strcmp (arg_list (parse_command cmd) ! 0) (ascii s) (Suc (length cmd)) \<noteq> 0 \<longleftrightarrow> c = s" if "CHR 0x00 \<notin> set s" for s
    using is_cmd_hd[OF assms(1,2), of "ascii s"] that by simp
  have cases: "c = ''mk'' \<or> c = ''mkdir'' \<or> c = ''cat'' \<or> c = ''cd'' \<or> c = ''rm'' \<or> c = ''rmdir'' \<or> c = ''sw'' \<or> c = ''sh'' \<or>
      c = ''if'' \<or> c = ''sleep'' \<or> c = ''for'' \<or> c = ''task'' \<or> c = ''se'' \<or> c = ''math'' \<or> c = ''test''"
    using assms(3) by simp
  define a where "a = parse_command cmd"
  have l: "arg_list a = [ascii c]" using assms(1,2) by (simp add: parse_words a_def)
  then have ne: "argvs a \<noteq> []" "length (argvs a) = 1" by (simp_all add: argvs_Nil length_argvs)
  have arg: "arg a 1 = None" "arg a 2 = None" "arg a 3 = None" using l by (simp_all add: arg_eq)
  have none: "cmd_mk M a k' = None" "cmd_mkdir M a k' = None" "cmd_cat M a k' = None" "cmd_cd M a k' = None" "cmd_rm M a k' = None"
    "cmd_rmdir M a k' = None" "cmd_sw M a k' = None" "cmd_sh M sc a k' = None" "cmd_if M a k' = None" "cmd_sleep M a k' = None"
    "cmd_for M ent sc a k' = None" "cmd_task M i a k' = None" "cmd_se M a k' = None" "cmd_math M a k' = None" "cmd_test M a k' = None"
    for k' sc ent i
    using arg ne(2) by (simp_all add: cmd_mk_def cmd_mkdir_def cmd_rm_def cmd_rmdir_def path_command_def cmd_cat_def cmd_cd_def cmd_sw_def
      cmd_sh_def cmd_if_def cmd_sleep_def cmd_for_def cmd_task_def cmd_se_def se_text_def cmd_math_def math_params_def cmd_test_def Let_def)
  show ?thesis
    unfolding Suc enter.simps enter_body_def Let_def a_def[symmetric]
    using cases ne(1) by (elim disjE) (simp_all add: is_c[folded a_def] none)
qed simp

theorem missing_argument_witness:
  "enter demo_machine 5 (ascii ''mkdir'') demo_kernel = None"
proof -
  have "blank_words (ascii ''mkdir'') = [ascii ''mkdir'']"
    by code_simp
  then show ?thesis by (intro missing_argument[of _ "''mkdir''"]) simp_all
qed

section \<open>Commands on a volume\<close>

lemma two_words:
  assumes "is_cstring cmd" "blank_words cmd = [v, w]"
  shows "arg (parse_command cmd) 1 = Some w" "is_cstring w"
  using assms words_cstring[OF assms(1), of w] by (simp_all add: arg_eq parse_words)

lemma same_volume_table: "same_volume s s' \<Longrightarrow> volume s' \<and> vtable s' = vtable s"
  by (simp add: same_volume_def)

text \<open>\<open>mkdir\<close> on a volume: the directory appears in the abstract map under the normal form of the path, with the next id and type 3,
  every other name stays, the volume stays well formed, and nothing of the kernel but the file system changes.\<close>

lemma mkdir_effect:
  assumes "ata M = disk_ops junk" "volume (kfs k)" "is_cstring cmd" "blank_words cmd = [ascii ''mkdir'', w]"
    and "abs_ready (vtable (kfs k)) (current_dir_id k) w apath" "length apath < 1022"
    and "new_path (vtable (kfs k)) (current_dir_id k) (canonical apath) parent name" "room_for_entry (vtable (kfs k))"
  obtains s' where "enter M (Suc n) cmd k = Some (0, (started cmd k)\<lparr>kfs := s'\<rparr>)" "volume s'"
    "dir_map (vtable s') = (dir_map (vtable (kfs k)))((parent, name) \<mapsto> (vlast (kfs k) + 1, 3))"
    "\<forall>f < frame_bound (kfs k). vbit s' f = vbit (kfs k) f" "\<exists>e. adds_entry (vtable (kfs k)) (vtable s') e \<and> e_type e = 3"
    "vlast s' = vlast (kfs k) + 1" "same_geometry dcap (kfs k) s'"
proof -
  let ?k = "started cmd k"
  obtain s1 where s1: "path_arg M w ?k = Some (canonical apath, ?k\<lparr>kfs := s1\<rparr>)" "same_volume (kfs ?k) s1"
    by (rule path_arg_effect[OF assms(1), of ?k w apath]) (use assms(2,5,6) in simp_all)
  have v1: "volume s1" "vtable s1 = vtable (kfs k)" "vbit s1 = vbit (kfs k)" "vlast s1 = vlast (kfs k)" "same_geometry dcap (kfs k) s1"
    using s1(2) by (simp_all add: same_volume_def)
  have np: "new_path (vtable s1) (current_dir_id k) (canonical apath) parent name" "room_for_entry (vtable s1)"
    using assms(7,8) v1(2) by simp_all
  obtain s2 where s2: "fs_mk_dir (disk_ops junk) (canonical apath) (current_dir_id k) s1 = Some (0, s2)" "volume s2"
    "dir_map (vtable s2) = (dir_map (vtable s1))((parent, name) \<mapsto> (vlast s1 + 1, 3))"
    "\<forall>f < frame_bound s1. vbit s2 f = vbit s1 f" "\<exists>e. adds_entry (vtable s1) (vtable s2) e \<and> e_type e = 3"
    "vlast s2 = vlast s1 + 1" "same_geometry dcap s1 s2"
    by (rule drv.mk_dir_volume[OF v1(1) np, of junk])
  have d: "enter M (Suc n) cmd k = cmd_mkdir M (parse_command cmd) ?k"
    by (rule dispatch(1)[OF assms(3,4)]) simp_all
  have "enter M (Suc n) cmd k = Some (0, ?k\<lparr>kfs := s2\<rparr>)"
    unfolding d cmd_mkdir_def path_command_def two_words(1)[OF assms(3,4)]
    using s1(1) s2(1) assms(1) by (simp add: fs_call_def report_def)
  then show thesis
    by (rule that) (use s2 v1 geometry_bound[OF v1(5)] geometry_trans[OF v1(5) s2(7)] in simp_all)
qed

text \<open>\<open>mk\<close> in the same way: a file of 8 frames, the lowest free run.\<close>

lemma mk_effect:
  assumes "ata M = disk_ops junk" "volume (kfs k)" "is_cstring cmd" "blank_words cmd = [ascii ''mk'', w]"
    and "abs_ready (vtable (kfs k)) (current_dir_id k) w apath" "length apath < 1022"
    and "new_path (vtable (kfs k)) (current_dir_id k) (canonical apath) parent name" "room_for_entry (vtable (kfs k))"
    and "least_run (vbit (kfs k)) 8 = Some p" "region_fits (dcap (dsk (kfs k))) (kfs k) 8 (of_nat p)"
  obtains s' where "enter M (Suc n) cmd k = Some (0, (started cmd k)\<lparr>kfs := s'\<rparr>)" "volume s'"
    "dir_map (vtable s') = (dir_map (vtable (kfs k)))((parent, name) \<mapsto> (vlast (kfs k) + 1, 2))"
    "\<forall>f < frame_bound (kfs k). vbit s' f = (in_region 8 (of_nat p) f \<or> vbit (kfs k) f)"
    "\<exists>e. adds_entry (vtable (kfs k)) (vtable s') e \<and> e_type e = 2 \<and> e_region_size e = 8"
    "vlast s' = vlast (kfs k) + 1" "same_geometry dcap (kfs k) s'"
proof -
  let ?k = "started cmd k"
  obtain s1 where s1: "path_arg M w ?k = Some (canonical apath, ?k\<lparr>kfs := s1\<rparr>)" "same_volume (kfs ?k) s1"
    by (rule path_arg_effect[OF assms(1), of ?k w apath]) (use assms(2,5,6) in simp_all)
  have v1: "volume s1" "vtable s1 = vtable (kfs k)" "vbit s1 = vbit (kfs k)" "vlast s1 = vlast (kfs k)" "same_geometry dcap (kfs k) s1"
    using s1(2) by (simp_all add: same_volume_def)
  have np: "new_path (vtable s1) (current_dir_id k) (canonical apath) parent name" "room_for_entry (vtable s1)"
    "least_run (vbit s1) 8 = Some p" "region_fits (dcap (dsk s1)) s1 8 (of_nat p)"
    using assms(7-10) v1(2,3) geometry_fits[OF v1(5)] by simp_all
  obtain s2 where s2: "fs_mk_file (disk_ops junk) (canonical apath) (current_dir_id k) s1 = Some (0, s2)" "volume s2"
    "dir_map (vtable s2) = (dir_map (vtable s1))((parent, name) \<mapsto> (vlast s1 + 1, 2))"
    "\<forall>f < frame_bound s1. vbit s2 f = (in_region 8 (of_nat p) f \<or> vbit s1 f)"
    "\<exists>e. adds_entry (vtable s1) (vtable s2) e \<and> e_type e = 2 \<and> e_region_size e = 8"
    "vlast s2 = vlast s1 + 1" "same_geometry dcap s1 s2"
    by (rule drv.mk_file_volume[OF v1(1) np, of junk])
  have d: "enter M (Suc n) cmd k = cmd_mk M (parse_command cmd) ?k"
    by (rule dispatch(6)[OF assms(3,4)]) simp_all
  have "enter M (Suc n) cmd k = Some (0, ?k\<lparr>kfs := s2\<rparr>)"
    unfolding d cmd_mk_def path_command_def two_words(1)[OF assms(3,4)]
    using s1(1) s2(1) assms(1) by (simp add: fs_call_def report_def)
  then show thesis
    by (rule that) (use s2 v1 geometry_bound[OF v1(5)] geometry_trans[OF v1(5) s2(7)] in simp_all)
qed

lemma absolute_ready: "is_cstring w \<Longrightarrow> length w \<le> 1023 \<Longrightarrow> rel_or_abs_path w = 0 \<Longrightarrow> abs_ready es cur w w"
  by (simp add: abs_ready_def)

lemma demo_mkdir: "is_cstring (ascii ''mkdir /d/./x'')" "blank_words (ascii ''mkdir /d/./x'') = [ascii ''mkdir'', ascii ''/d/./x'']"
    "is_cstring (ascii ''/d/./x'')" "length (ascii ''/d/./x'') = 6" "rel_or_abs_path (ascii ''/d/./x'') = 0"
    "canonical (ascii ''/d/./x'') = [slash, 100, slash, 120]"
  by code_simp+

lemma mkdir_effect_demo:
  "\<exists>s'. enter demo_machine 1 (ascii ''mkdir /d/./x'') demo_kernel = Some (0, (started (ascii ''mkdir /d/./x'') demo_kernel)\<lparr>kfs := s'\<rparr>) \<and>
    dir_map (vtable s') (1, [120]) = Some (vlast demo_fs + 1, 3)"
proof -
  have r: "abs_ready (vtable (kfs demo_kernel)) (current_dir_id demo_kernel) (ascii ''/d/./x'') (ascii ''/d/./x'')"
    using demo_mkdir(3-5) by (simp add: absolute_ready)
  obtain s' where s': "enter demo_machine (Suc 0) (ascii ''mkdir /d/./x'') demo_kernel = Some (0, (started (ascii ''mkdir /d/./x'') demo_kernel)\<lparr>kfs := s'\<rparr>)"
    "dir_map (vtable s') = (dir_map (vtable (kfs demo_kernel)))((1, [120]) \<mapsto> (vlast (kfs demo_kernel) + 1, 3))"
    by (rule mkdir_effect[OF demo_machine_sel(1) _ demo_mkdir(1,2) r, of 1 "[120]" 0])
      (use demo_volume demo_new_path demo_room in \<open>unfold demo_kernel_sel demo_mkdir(4,6), simp_all\<close>)
  show ?thesis using s'(1) map_upd_at[OF s'(2)] by (intro exI[of _ s']) simp
qed

text \<open>The id of a path, -1 when it leads nowhere.\<close>

definition target_id :: "drive fs \<Rightarrow> cstring \<Rightarrow> u64" where
  "target_id s path = (case leads_to (vtable s) 0 path of None \<Rightarrow> fs_not_found | Some i \<Rightarrow> i)"

lemma lookup_effect:
  assumes "ata M = disk_ops junk" "volume (kfs k)" "is_cstring path" "length path \<le> 1023" "path \<noteq> [dot]" "rel_or_abs_path path = 0"
  obtains s' where "fs_call (path_to_id (ata M) path cur) k = Some (target_id (kfs k) path, k\<lparr>kfs := s'\<rparr>)" "same_volume (kfs k) s'"
proof -
  obtain s' where b: "disk_becomes drive_ok dsectors dcap (dsectors (dsk (kfs k))) (kfs k) s'"
    and p: "path_to_id (disk_ops junk) path cur (kfs k) = Some (path_id (vtable (kfs k)) path cur, s')"
    by (rule drv.path_to_id_effect[OF volume_good[OF assms(2)] assms(3,4)])
  have "leads_to (vtable (kfs k)) cur path = leads_to (vtable (kfs k)) 0 path" using assms(6) by (simp add: leads_to_def)
  then have "path_id (vtable (kfs k)) path cur = target_id (kfs k) path"
    using path_id_leads_to[OF volume_table[OF assms(2)] assms(3,5)] by (simp add: target_id_def)
  moreover have "same_volume (kfs k) s'"
    using step_same_volume[OF assms(2) becomes_step[OF b]] becomes_idle[OF b] volume_idle[OF assms(2)] by simp
  ultimately show thesis using that p assms(1) by (simp add: fs_call_def)
qed

text \<open>Both lookups of a command that keeps the volume, from any kernel that has it.\<close>

lemma path_arg_keeps:
  assumes "ata M = disk_ops junk" "volume s" "abs_ready (vtable s) cur w apath" "length apath < 1022"
    and "same_volume s (kfs k)" "current_dir_id k = cur"
  shows "\<exists>s'. path_arg M w k = Some (canonical apath, k\<lparr>kfs := s'\<rparr>) \<and> same_volume s s'"
proof -
  have v: "volume (kfs k)" "abs_ready (vtable (kfs k)) (current_dir_id k) w apath" "length apath < 1023"
    using assms(3-6) by (simp_all add: same_volume_def)
  obtain s' where "path_arg M w k = Some (canonical apath, k\<lparr>kfs := s'\<rparr>)" "same_volume (kfs k) s'"
    by (rule path_arg_effect[OF assms(1) v])
  then show ?thesis using same_volume_trans[OF assms(5)] by blast
qed

lemma lookup_keeps:
  assumes "ata M = disk_ops junk" "is_cstring path" "length path \<le> 1023" "path \<noteq> [dot]" "rel_or_abs_path path = 0"
    and "same_volume s (kfs k)"
  shows "\<exists>s'. fs_call (path_to_id (ata M) path cur) k = Some (target_id s path, k\<lparr>kfs := s'\<rparr>) \<and> same_volume s s'"
proof -
  have v: "volume (kfs k)" "target_id (kfs k) path = target_id s path" using assms(6) by (simp_all add: same_volume_def target_id_def)
  obtain s' where "fs_call (path_to_id (ata M) path cur) k = Some (target_id (kfs k) path, k\<lparr>kfs := s'\<rparr>)" "same_volume (kfs k) s'"
    by (rule lookup_effect[OF assms(1) v(1) assms(2-5)])
  then show ?thesis using v(2) same_volume_trans[OF assms(6)] by auto
qed

text \<open>C15. \<open>cd\<close> moves to the id that the normal form of the path has in the directory map, whatever its type; when it has none, the command
  returns 3 and the current directory stays. Neither the volume nor the screen nor \<open>read_out\<close> is changed.\<close>

theorem cd_command:
  assumes "ata M = disk_ops junk" "volume (kfs k)" "is_cstring cmd" "blank_words cmd = [ascii ''cd'', w]"
    and "abs_ready (vtable (kfs k)) (current_dir_id k) w apath" "length apath < 1022"
  shows "\<exists>k'. enter M (Suc n) cmd k = Some (if target_id (kfs k) (canonical apath) = fs_not_found then 3 else 0, k') \<and>
    current_dir_id k' = (if target_id (kfs k) (canonical apath) = fs_not_found then current_dir_id k
                         else target_id (kfs k) (canonical apath)) \<and>
    same_volume (kfs k) (kfs k') \<and> con k' = con k \<and> read_out k' = read_out k"
proof -
  let ?k = "started cmd k" and ?i = "target_id (kfs k) (canonical apath)" and ?c = "canonical apath"
  note c = canonical_ready(1,2,5,3)[OF assms(5,6)]
  note arg = path_arg_keeps[OF assms(1,2,5,6)] and look = lookup_keeps[OF assms(1) c, of "kfs k"]
  have refl: "same_volume (kfs k) (kfs ?k)" using assms(2) by (simp add: same_volume_def same_geometry_def)
  obtain s1 where 1: "path_arg M w ?k = Some (?c, ?k\<lparr>kfs := s1\<rparr>)" "same_volume (kfs k) s1" using arg[OF refl] by auto
  let ?k1 = "k_debug (debug_print ?c) (?k\<lparr>kfs := s1\<rparr>)"
  obtain s2 where 2: "path_arg M w ?k1 = Some (?c, ?k1\<lparr>kfs := s2\<rparr>)" "same_volume (kfs k) s2"
    using arg[of ?k1] 1(2) by (auto simp: k_debug_def)
  obtain s3 where 3: "fs_call (path_to_id (ata M) ?c (current_dir_id k)) (?k1\<lparr>kfs := s2\<rparr>) = Some (?i, (?k1\<lparr>kfs := s2\<rparr>)\<lparr>kfs := s3\<rparr>)"
    "same_volume (kfs k) s3" using look[of "?k1\<lparr>kfs := s2\<rparr>"] 2(2) by auto
  let ?k3 = "k_debug (decimal (unat ?i)) (?k1\<lparr>kfs := s3\<rparr>)"
  have d: "k_debug64 M ?i (?k1\<lparr>kfs := s3\<rparr>) = Some ?k3"
    by (simp add: k_debug64_def k_local_def debug_put64_decimal)
  obtain s4 where 4: "path_arg M w ?k3 = Some (?c, ?k3\<lparr>kfs := s4\<rparr>)" "same_volume (kfs k) s4"
    using arg[of ?k3] 3(2) by (auto simp: k_debug_def)
  obtain s5 where 5: "fs_call (path_to_id (ata M) ?c (current_dir_id k)) (?k3\<lparr>kfs := s4\<rparr>) = Some (?i, (?k3\<lparr>kfs := s4\<rparr>)\<lparr>kfs := s5\<rparr>)"
    "same_volume (kfs k) s5" using look[of "?k3\<lparr>kfs := s4\<rparr>"] 4(2) by auto
  have cur: "current_dir_id (?k1\<lparr>kfs := s2\<rparr>) = current_dir_id k" "current_dir_id (?k3\<lparr>kfs := s4\<rparr>) = current_dir_id k"
    by (simp_all add: k_debug_def)
  have "enter M (Suc n) cmd k = cmd_cd M (parse_command cmd) ?k"
    by (rule dispatch(4)[OF assms(3,4)]) simp_all
  also have "\<dots> = (if ?i = fs_not_found then Some (3, k_debug (debug_print (ascii ''fijufj'')) (?k3\<lparr>kfs := s5\<rparr>))
      else Some (0, ?k3\<lparr>kfs := s5, current_dir_id := ?i\<rparr>))"
    unfolding cmd_cd_def two_words(1)[OF assms(3,4)] Let_def bind.bind_lunit 1(1) case_prod_conv 2(1) cur 3(1)
    using d 4(1) cur(2) 5(1) by simp
  finally show ?thesis using 5(2) by (cases "?i = fs_not_found") (auto simp: k_debug_def)
qed

lemma demo_cd: "is_cstring (ascii ''cd /d/../d'')" "blank_words (ascii ''cd /d/../d'') = [ascii ''cd'', ascii ''/d/../d'']"
    "is_cstring (ascii ''/d/../d'')" "length (ascii ''/d/../d'') = 7" "rel_or_abs_path (ascii ''/d/../d'') = 0"
    "canonical (ascii ''/d/../d'') = [slash, 100]"
  by code_simp+

lemma demo_target: "target_id demo_fs [slash, 100] = 1"
  by (simp add: target_id_def leads_to_def demo_map components_def rel_or_abs_path_def cat_def)

theorem cd_command_witness:
  "\<exists>k'. enter demo_machine 1 (ascii ''cd /d/../d'') demo_kernel = Some (0, k') \<and> current_dir_id k' = 1"
proof -
  have r: "abs_ready (vtable (kfs demo_kernel)) (current_dir_id demo_kernel) (ascii ''/d/../d'') (ascii ''/d/../d'')"
    using demo_cd(3-5) by (simp add: absolute_ready)
  show ?thesis
    using cd_command[OF demo_machine_sel(1) _ demo_cd(1,2) r, of 0] demo_volume demo_target
    unfolding demo_kernel_sel demo_cd(4,6) by (auto simp: fs_not_found_def)
qed

section \<open>Writing and printing a file\<close>

lemma abs_ready_resize:
  assumes "abs_ready es cur w apath"
  shows "abs_ready (es[j := (es ! j)\<lparr>e_size := z\<rparr>]) cur w apath"
proof -
  let ?es = "es[j := (es ! j)\<lparr>e_size := z\<rparr>]"
  have "ancestry ?es d cur = ancestry es d cur" for d by (metis map_skel_resize ancestry_skel)
  moreover have "names_ok (map skel es) = names_ok es" for es by (simp add: names_ok_def)
  then have "names_ok ?es = names_ok es" by (metis map_skel_resize)
  ultimately show ?thesis using assms by (simp add: abs_ready_def)
qed

text \<open>Only a line of exactly four words whose last one is \<open>f\<close> makes \<open>write\<close> copy a file.\<close>

lemma write_is_text:
  assumes "is_cstring cmd" "blank_words cmd = ascii ''write'' # w # ws" "ws \<noteq> []" "\<not> (length ws = 2 \<and> ws ! 1 = ascii ''f'')"
  shows "enter M (Suc n) cmd k = cmd_write_text M (parse_command cmd) (started cmd k)"
proof -
  let ?a = "parse_command cmd"
  have l: "arg_list ?a = ascii ''write'' # w # ws" using assms(1,2) by (simp add: parse_words)
  then have len: "length (argvs ?a) = length ws + 2" by (simp add: length_argvs)
  then have argc: "\<not> argc ?a < 3" using argvs_fit[OF assms(1)] assms(3) by (cases ws) auto
  have f: "fs_strcmp x (ascii ''f'') 2 \<noteq> 0 \<longleftrightarrow> x = ascii ''f''" if "is_cstring x" for x
  proof -
    have a: "ascii ''f'' = [102]" by code_simp
    have "take 2 x = take 2 [102] \<longleftrightarrow> x = [102]" by (cases x; cases "tl x") auto
    then show ?thesis using fs_strcmp_result[OF that, of "ascii ''f''" 2] unfolding a by (auto simp: is_cstring_def)
  qed
  have "\<not> (length (argvs ?a) = 4 \<and> fs_strcmp (arg_list ?a ! 3) (ascii ''f'') 2 \<noteq> 0)"
  proof
    assume h: "length (argvs ?a) = 4 \<and> fs_strcmp (arg_list ?a ! 3) (ascii ''f'') 2 \<noteq> 0"
    then have "length ws = 2" using len by simp
    moreover from this have "ws ! 1 \<in> set (blank_words cmd)" using assms(2) by simp
    then have "is_cstring (ws ! 1)" by (rule words_cstring[OF assms(1)])
    ultimately show False using h f[of "ws ! 1"] assms(4) by (simp add: l numeral_3_eq_3)
  qed
  moreover have "enter M (Suc n) cmd k = cmd_write M ?a (started cmd k)"
    by (rule dispatch(3)[OF assms(1,2)]) simp_all
  ultimately show ?thesis unfolding cmd_write_def using argc by (simp only: if_False)
qed

lemma write_command:
  assumes "ata M = disk_ops junk" "volume (kfs k)" "w \<noteq> []" "32 \<notin> set w" "content \<noteq> []" "hd content \<noteq> 32" "is_cstring (w @ content)"
    and "\<not> (length (blank_words content) = 2 \<and> blank_words content ! 1 = ascii ''f'')"
    and "abs_ready (vtable (kfs k)) (current_dir_id k) w apath" "length apath < 1022"
    and "names_file (vtable (kfs k)) (current_dir_id k) (canonical apath) j" "one_region (vtable (kfs k) ! j) (length content)"
    and "cmd = ascii ''write'' @ 32 # w @ 32 # content"
  obtains s' where "enter M (Suc n) cmd k = Some (0, (started cmd k)\<lparr>kfs := s'\<rparr>)" "volume s'"
    "vtable s' = (vtable (kfs k))[j := (vtable (kfs k) ! j)\<lparr>e_size := of_nat (length content)\<rparr>]" "vdata s' (vtable s' ! j) = content"
    "\<forall>f < frame_bound (kfs k). vbit s' f = vbit (kfs k) f" "same_geometry dcap (kfs k) s'"
proof -
  let ?k = "started cmd k" and ?c = "canonical apath"
  have z: "is_cstring w" "is_cstring content" using assms(7) by auto
  have nb: "ascii ''write'' \<noteq> []" "32 \<notin> set (ascii ''write'')" by code_simp+
  have cs: "is_cstring cmd" using z unfolding assms(13) by (simp add: is_cstring_def[of "32 # x" for x]) (simp add: is_cstring_def)
  have parts: "blank_words cmd = ascii ''write'' # w # blank_words content" "content_from (parse_command cmd) 2 = Some content"
    "3 \<le> length (blank_words cmd)"
    unfolding assms(13) using three_parts[OF nb assms(3-6)] z by simp_all
  have e: "enter M (Suc n) cmd k = cmd_write_text M (parse_command cmd) ?k"
    by (rule write_is_text[OF cs parts(1) _ assms(8)]) (use parts in auto)
  have a: "arg (parse_command cmd) 1 = Some w" using parts(1) cs by (simp add: arg_eq parse_words)
  obtain s1 where s1: "path_arg M w ?k = Some (?c, ?k\<lparr>kfs := s1\<rparr>)" "same_volume (kfs k) s1"
    using path_arg_effect[OF assms(1), of ?k w apath] assms(2,9,10) by auto
  have v1: "volume s1" "vtable s1 = vtable (kfs k)" "vbit s1 = vbit (kfs k)" "same_geometry dcap (kfs k) s1"
    using s1(2) by (simp_all add: same_volume_def)
  have sz: "(if 0 = (0 :: u64) then cstrlen (content @ [0]) else Some (unat (0 :: u64))) = Some (length content)" using z(2) by simp
  have nf: "names_file (vtable s1) (current_dir_id k) ?c j" "one_region (vtable s1 ! j) (length content)" using assms(11,12) v1(2) by simp_all
  obtain s2 where s2: "fs_write_file (disk_ops junk) ?c (content @ [0]) 0 (current_dir_id k) s1 = Some (0, s2)" "volume s2"
    "vtable s2 = (vtable s1)[j := (vtable s1 ! j)\<lparr>e_size := of_nat (length content)\<rparr>]"
    "vdata s2 (vtable s2 ! j) = take (length content) (content @ [0])" "\<forall>f < frame_bound s1. vbit s2 f = vbit s1 f"
    "same_geometry dcap s1 s2"
    by (rule drv.write_file_volume[OF v1(1) nf(1) sz _ nf(2), of junk]) simp
  have "enter M (Suc n) cmd k = Some (0, ?k\<lparr>kfs := s2\<rparr>)"
    unfolding e cmd_write_text_def parts(2) a using s1(1) s2(1) assms(1) by (simp add: k_write_file_def fs_call_def report_def)
  then show thesis
    by (rule that) (use s2(2-6) v1(2-4) geometry_bound[OF v1(4)] geometry_trans[OF v1(4) s2(6)] in simp_all)
qed

text \<open>\<open>cat\<close> reads at most 1023 bytes.\<close>

lemma cat_command:
  assumes "ata M = disk_ops junk" "volume (kfs k)" "length (read_out k) = 4096" "is_cstring cmd" "blank_words cmd = [ascii ''cat'', w]"
    and "abs_ready (vtable (kfs k)) (current_dir_id k) w apath" "length apath < 1022"
    and "names_file (vtable (kfs k)) (current_dir_id k) (canonical apath) j"
    and "one_region (vtable (kfs k) ! j) (unat (e_size (vtable (kfs k) ! j)))"
  defines "got \<equiv> take (min 1023 (unat (e_size (vtable (kfs k) ! j)))) (vdata (kfs k) (vtable (kfs k) ! j))"
  obtains s' rest where "enter M (Suc n) cmd k = Some (2, (started cmd k)\<lparr>kfs := s', read_out := got @ 0 # rest\<rparr>)" "volume s'"
proof -
  define buf where "buf = fill (read_out k) 4096 0"
  let ?k = "(started cmd k)\<lparr>read_out := buf\<rparr>" and ?c = "canonical apath" and ?e = "vtable (kfs k) ! j"
  define sz where "sz = min 1023 (unat (e_size ?e))"
  obtain s1 where s1: "path_arg M w ?k = Some (?c, ?k\<lparr>kfs := s1\<rparr>)" "same_volume (kfs k) s1"
    using path_arg_effect[OF assms(1), of ?k w apath] assms(2,6,7) by auto
  have v1: "volume s1" "vtable s1 = vtable (kfs k)" "vdata s1 ?e = vdata (kfs k) ?e"
    using s1(2) by (simp_all add: same_volume_def file_data_def same_geometry_def)
  have nf: "names_file (vtable s1) (current_dir_id k) ?c j" "one_region (vtable s1 ! j) (unat (e_size (vtable s1 ! j)))"
    using assms(8,9) by (simp_all add: v1(2))
  have rc: "sz = read_count 0 (vtable s1 ! j)" by (simp add: v1(2) sz_def read_count_def fs_read_default_limit_def)
  have lb: "sz < length buf" using assms(3) by (simp add: buf_def sz_def)
  obtain s2 where s2: "fs_read_file (disk_ops junk) ?c buf 0 (current_dir_id k) s1
      = Some (0, take sz (vdata s1 (vtable s1 ! j)) @ 0 # drop (sz + 1) buf, s2)" "volume s2"
    by (rule drv.read_file_volume[OF v1(1) nf rc lb])
  have g: "take sz (vdata s1 (vtable s1 ! j)) = got" by (simp add: v1(2,3) got_def sz_def)
  have "enter M (Suc n) cmd k = cmd_cat M (parse_command cmd) (started cmd k)"
    by (rule dispatch(2)[OF assms(4,5)]) simp_all
  also have "\<dots> = Some (2, (started cmd k)\<lparr>kfs := s2, read_out := got @ 0 # drop (sz + 1) buf\<rparr>)"
    unfolding cmd_cat_def two_words(1)[OF assms(4,5)]
    using s1(1) s2(1)[unfolded g] assms(1) by (simp add: k_read_file_def report_def buf_def Let_def)
  finally show thesis by (rule that) (rule s2(2))
qed

text \<open>C5. What \<open>write\<close> puts into a file, \<open>cat\<close> prints: after \<open>write w content\<close>, with the content taken up to the end of the line, the command
  \<open>cat w\<close> leaves exactly this content in \<open>read_out\<close>, for a content that fits into the first region and the default limit of a read. Excluded
  is a content of two words of which the second is \<open>f\<close>: \<open>write w v f\<close> is the form that copies the file \<open>v\<close>.\<close>

theorem write_then_cat:
  assumes "ata M = disk_ops junk" "volume (kfs k)" "length (read_out k) = 4096"
    and "w \<noteq> []" "32 \<notin> set w" "content \<noteq> []" "hd content \<noteq> 32" "is_cstring (w @ content)"
    and "\<not> (length (blank_words content) = 2 \<and> blank_words content ! 1 = ascii ''f'')"
    and "abs_ready (vtable (kfs k)) (current_dir_id k) w apath" "length apath < 1022"
    and "names_file (vtable (kfs k)) (current_dir_id k) (canonical apath) j" "one_region (vtable (kfs k) ! j) (length content)"
    and "length content < 1024"
  shows "\<exists>k1 k2. enter M (Suc n) (ascii ''write'' @ 32 # w @ 32 # content) k = Some (0, k1) \<and> volume (kfs k1) \<and>
    enter M (Suc m) (ascii ''cat'' @ 32 # w) k1 = Some (2, k2) \<and> cstr (read_out k2) = Some content"
proof -
  let ?cmd = "ascii ''write'' @ 32 # w @ 32 # content" and ?cat = "ascii ''cat'' @ 32 # w" and ?c = "canonical apath"
  obtain s1 where s1: "enter M (Suc n) ?cmd k = Some (0, (started ?cmd k)\<lparr>kfs := s1\<rparr>)" "volume s1"
    "vtable s1 = (vtable (kfs k))[j := (vtable (kfs k) ! j)\<lparr>e_size := of_nat (length content)\<rparr>]" "vdata s1 (vtable s1 ! j) = content"
    by (rule write_command[OF assms(1,2,4-13) refl])
  let ?k1 = "(started ?cmd k)\<lparr>kfs := s1\<rparr>"
  have j: "j < 1024" using assms(12) by (simp add: names_file_def)
  have e: "vtable s1 ! j = (vtable (kfs k) ! j)\<lparr>e_size := of_nat (length content)\<rparr>" using s1(3) j by simp
  have size: "unat (e_size (vtable s1 ! j)) = length content" using assms(14) by (simp add: e unat_of_nat take_bit_nat_eq_self)
  have nf: "names_file (vtable s1) (current_dir_id k) ?c j" unfolding s1(3) by (rule names_file_resize[OF assms(12)])
  have ready: "abs_ready (vtable s1) (current_dir_id k) w apath" unfolding s1(3) by (rule abs_ready_resize[OF assms(10)])
  have one: "one_region (vtable s1 ! j) (unat (e_size (vtable s1 ! j)))" using assms(13) unfolding size by (simp add: e one_region_def)
  have nb: "ascii ''cat'' \<noteq> []" "32 \<notin> set (ascii ''cat'')" by code_simp+
  have z: "is_cstring w" "is_cstring content" using assms(8) by auto
  have cs: "is_cstring ?cat" using z(1) by (simp add: is_cstring_def[of "32 # x" for x]) (simp add: is_cstring_def)
  have cat: "blank_words ?cat = [ascii ''cat'', w]"
    using blank_words_word[OF nb, of "32 # w"] blank_words_word[OF assms(4,5), of "[]"] by simp
  obtain s2 rest where "enter M (Suc m) ?cat ?k1 = Some (2, (started ?cat ?k1)\<lparr>kfs := s2, read_out := content @ 0 # rest\<rparr>)"
    by (rule cat_command[OF assms(1), of ?k1 ?cat w apath j m])
      (use s1(2,4) assms(3,11,14) cs cat ready nf one size in simp_all)
  then show ?thesis using s1(1,2) z(2) by (auto simp: cstr_def)
qed

lemma demo_write: "[slash, 100, slash, 102] \<noteq> []" "32 \<notin> set [slash, 100, slash, 102]" "ascii ''hello world'' \<noteq> []"
    "hd (ascii ''hello world'') \<noteq> 32" "is_cstring ([slash, 100, slash, 102] @ ascii ''hello world'')" "length (ascii ''hello world'') = 11"
    "length (blank_words (ascii ''hello world'')) = 2 \<and> blank_words (ascii ''hello world'') ! 1 = ascii ''f'' \<longleftrightarrow> False"
    "is_cstring [slash, 100, slash, 102]" "rel_or_abs_path [slash, 100, slash, 102] = 0" "canonical [slash, 100, slash, 102] = [slash, 100, slash, 102]"
  by code_simp+

theorem write_then_cat_witness:
  "\<exists>k1 k2. enter demo_machine 1 (ascii ''write /d/f hello world'') demo_kernel = Some (0, k1) \<and>
    enter demo_machine 1 (ascii ''cat /d/f'') k1 = Some (2, k2) \<and> cstr (read_out k2) = Some (ascii ''hello world'')"
proof -
  let ?w = "[slash, 100, slash, 102]" and ?h = "ascii ''hello world''"
  have r: "abs_ready (vtable (kfs demo_kernel)) (current_dir_id demo_kernel) ?w ?w" using demo_write(8,9) by (simp add: absolute_ready)
  have one: "one_region (vtable demo_fs ! 1) 11" by (simp add: one_region_def demo_file_slot[simplified])
  have a: "ascii ''write'' @ 32 # ?w @ 32 # ?h = ascii ''write /d/f hello world''" "ascii ''cat'' @ 32 # ?w = ascii ''cat /d/f''"
    by code_simp+
  show ?thesis
    using write_then_cat[OF demo_machine_sel(1) _ demo_kernel_sel(7) demo_write(1-5) _ r, of 1 0 0]
      demo_volume demo_names_file one demo_write(6,7,10) unfolding a demo_kernel_sel by auto
qed

section \<open>Typing\<close>

lemma newline_step:
  assumes "ready k" "kbd_items (keyboard k) = 10 # rest"
  obtains k' where "shell_step M n k = do { k \<leftarrow> shell_enter M n k'; Some (True, k) }" "kbd_items (keyboard k') = rest"
    "command k' = command k" "untouched k k'" "ready k'"
proof -
  have inv: "kbd_inv (keyboard k)" using assms(1) by (simp add: ready_def)
  define kb where "kb = (keyboard k)\<lparr>tail := (tail (keyboard k) + 1) mod BUFFER_SIZE\<rparr>"
  have ne: "head (keyboard k) \<noteq> tail (keyboard k)" using kbd_empty_iff[OF inv] assms(2) by simp
  have rd: "read_kyboard_from_main 0 (keyboard k) = (1, 10, kb)" and items: "kbd_items kb = rest"
    using kbd_read_cons[OF inv ne] assms(2) ne by (simp_all add: read_kyboard_from_main_def kb_def)
  obtain k1 where k1: "con_call (put_crus color_fg color_bg) k = Some k1" "ready k1" "k1 = k\<lparr>con := con k1\<rparr>"
    "screen_cols (con k1) = screen_cols (con k)"
    by (rule put_crus_ready[OF assms(1)])
  have eq: "keyboard k1 = keyboard k" "command k1 = command k" by (subst k1(3), simp)+
  have "untouched k k1" unfolding untouched_def using k1(4) by (subst (1 2 3 4) k1(3)) simp
  moreover have "ready (k1\<lparr>keyboard := kb\<rparr>)" using k1(2) kbd_tail_inv[OF inv] by (simp add: ready_def kb_def)
  ultimately show thesis
    by (intro that[of "k1\<lparr>keyboard := kb\<rparr>"]) (use k1(1) rd items eq in \<open>simp_all add: shell_step_def Let_def untouched_def\<close>)
qed

lemma line_typed:
  assumes "ready k" "kbd_items (keyboard k) = ks @ 10 # rest" "list_all typable ks" "command_point_c_main k = 0"
    and "command k = replicate 4096 0" "\<And>k. k_hlt M k = k"
  obtains k' where "shell M n k = shell_enter M n k'" "ready k'" "kbd_items (keyboard k') = rest" "untouched k k'"
    "command k' = ks @ replicate (4096 - length ks) 0" "length ks \<le> 255" "is_cstring ks"
proof -
  have "kbd_count (keyboard k) \<le> 255" using assms(1) kbd_count_eq by (auto simp: ready_def kbd_inv_def)
  then have len: "length ks \<le> 255" using assms(2) length_kbd_items[of "keyboard k"] by simp
  obtain k1 where k1: "shell M n k = shell M n k1" "ready k1" "kbd_items (keyboard k1) = 10 # rest"
    "command k1 = ks @ drop (length ks) (command k)" "untouched k k1"
    using keys_typed[OF assms(1-3), of M n] assms(4,6) len by auto
  obtain k2 where k2: "shell_step M n k1 = do { k \<leftarrow> shell_enter M n k2; Some (True, k) }" "kbd_items (keyboard k2) = rest"
    "command k2 = command k1" "untouched k1 k2" "ready k2"
    by (rule newline_step[OF k1(2,3)])
  have "is_cstring ks" using assms(3) by (auto simp: is_cstring_def list_all_iff typable_def)
  moreover have "shell M n k = shell_enter M n k2"
    using k1(1) k2(1) by (subst (asm) (2) shell.simps) (cases "shell_enter M n k2"; simp)
  ultimately show thesis using k1(4) k2 assms(5) len untouched_trans[OF k1(5)] by (intro that[of k2]) simp_all
qed

text \<open>C16. A line that is typed ahead of the shell (characters of the font, ended by a newline) is the command that it runs: with an empty
  command buffer, the shell is the branch of the newline on a kernel whose command reads back as exactly the line, with the keys after it
  still in the queue; the file system, the prompt and \<open>read_out\<close> are untouched.\<close>

theorem typed_line:
  assumes "ready k" "kbd_items (keyboard k) = ks @ 10 # rest" "list_all typable ks" "command_point_c_main k = 0"
    and "command k = replicate 4096 0" "\<And>k. k_hlt M k = k"
  shows "\<exists>k'. shell M n k = shell_enter M n k' \<and> cstr (command k') = Some ks \<and> kbd_items (keyboard k') = rest \<and> untouched k k'"
proof -
  obtain k' where k': "shell M n k = shell_enter M n k'" "ready k'" "kbd_items (keyboard k') = rest" "untouched k k'"
    "command k' = ks @ replicate (4096 - length ks) 0" "length ks \<le> 255" "is_cstring ks"
    by (rule line_typed[OF assms])
  have "replicate (4096 - length ks) (0 :: u8) = 0 # replicate (4095 - length ks) 0"
    using k'(6) by (simp add: Suc_diff_le flip: replicate_Suc)
  then show ?thesis using k' by (intro exI[of _ k']) (simp add: cstr_def)
qed

definition typed_kernel :: "drive kernel" where
  "typed_kernel = demo_kernel\<lparr>keyboard := kbd_init\<lparr>kbuffer := [108, 115, 10] @ replicate 253 0, head := 3\<rparr>\<rparr>"

theorem typed_line_witness:
  "\<exists>k'. shell demo_machine 1 typed_kernel = shell_enter demo_machine 1 k' \<and> cstr (command k') = Some (ascii ''ls'')"
proof -
  have items: "kbd_items (keyboard typed_kernel) = [108, 115] @ 10 # []"
    by (simp add: typed_kernel_def kbd_init_def kbd_items_def kbd_count_def upt_rec)
  have "ready typed_kernel"
    using demo_screen_ok demo_cursor_ok by (simp add: ready_def typed_kernel_def kbd_init_def kbd_inv_def on_screen_def) (simp add: demo_kernel_def demo_console_def)
  moreover have "list_all typable [108, 115]" "ascii ''ls'' = [108, 115]" by code_simp+
  ultimately show ?thesis
    using typed_line[OF _ items, of demo_machine 1] by (auto simp: typed_kernel_def demo_kernel_def demo_machine_def)
qed

end
