(* ===== verification/ShellRun.thy ===== *)
theory ShellRun
  imports ShellProps
begin

text \<open>
  From the keyboard to the disk: the branch of the newline for a command that prints nothing, and a whole line that is typed,
  parsed, run on the volume and followed by a new prompt.
\<close>

section \<open>The screen\<close>

lemma plus_gc_y_ready:
  assumes "ready k"
  obtains k' where "con_call (plus_gc_y a b) k = Some k'" "ready k'" "k' = k\<lparr>con := con k'\<rparr>" "screen_cols (con k') = screen_cols (con k)"
proof -
  have s: "screen_ok (con k)" "cursor_ok (con k)" using assms by (auto simp: ready_def)
  then have "unat (global_crus_y (con k)) < unat (screen_rows (con k))" by (simp add: cursor_ok_def)
  then obtain c where c: "plus_gc_y a b (con k) = Some c" "screen_ok c" "same_shape (con k) c"
    "global_crus_x c = global_crus_x (con k)" "unat (global_crus_y c) < unat (screen_rows (con k))"
    by (rule plus_gc_y_safe[OF s(1)])
  have "ready (k\<lparr>con := c\<rparr>)"
    using assms c(2-5) by (simp add: ready_def same_shape_def cursor_ok_def on_screen_def)
  then show thesis
    using c(1,3) by (intro that[of "k\<lparr>con := c\<rparr>"]) (simp_all add: con_call_def same_shape_def)
qed

lemma margin_ready: "ready k \<Longrightarrow> ready (move_to_margin k)"
  by (auto simp: ready_def move_to_margin_def cursor_ok_def on_screen_def)

lemma margin_simps [simp]:
  "kfs (move_to_margin k) = kfs k" "keyboard (move_to_margin k) = keyboard k" "command (move_to_margin k) = command k"
  "current_dir_id (move_to_margin k) = current_dir_id k" "cmd_line_text (move_to_margin k) = cmd_line_text k"
  "command_point_c_main (move_to_margin k) = command_point_c_main k" "read_out (move_to_margin k) = read_out k"
  "screen_cols (con (move_to_margin k)) = screen_cols (con k)"
  by (simp_all add: move_to_margin_def)

lemma k_write_ready:
  assumes "ready k" "printable msg" "7 \<le> unat (screen_cols (con k))"
  obtains r k' where "k_write 0 y a b msg k = Some (r, k')" "ready k'" "k' = k\<lparr>con := con k'\<rparr>" "screen_cols (con k') = screen_cols (con k)"
proof -
  have s: "screen_ok (con k)" "cursor_ok (con k)" using assms(1) by (auto simp: ready_def)
  define y0 where "y0 = (if screen_rows (con k) - 1 < y then screen_rows (con k) - 1 else y)"
  have "0 < unat (screen_rows (con k))" using s(1) by (simp add: screen_ok_def console_ok_def)
  then have "unat (screen_rows (con k) - 1) < unat (screen_rows (con k))"
    using unat_minus_one[of "screen_rows (con k)"] by (cases "screen_rows (con k) = 0") auto
  then have "unat y0 < unat (screen_rows (con k))" by (auto simp: y0_def word_less_nat_alt)
  then obtain r c where w: "write_chars 0 a b msg 0 y0 (con k) = Some (r, c)" "screen_ok c" "drawn_from (con k) c"
    using write_chars_safe[OF s(1) assms(2), of 0 y0 0 a b] assms(3) by auto
  note f = drawn_from_fields[OF w(3)] drawn_same_shape[OF w(3), unfolded same_shape_def]
  have "k_write 0 y a b msg k = Some (r, k\<lparr>con := c\<rparr>)" using w(1) by (simp add: k_write_def screen_write_def y0_def)
  moreover have "ready (k\<lparr>con := c\<rparr>)" using assms(1) w(2) f by (simp add: ready_def cursor_ok_def on_screen_def)
  ultimately show thesis using f by (intro that[of r "k\<lparr>con := c\<rparr>"]) simp_all
qed

section \<open>The prompt\<close>

lemma screen_ok_margin [simp]: "screen_ok (c\<lparr>global_defualt_crus_x := x\<rparr>) = screen_ok c"
  by (simp add: screen_ok_def console_ok_def line_length_def grid_def cell_shows_def)

lemma root_ancestry:
  assumes "tree_ok es"
  obtains ns where "ancestry es id_to_path_depth 0 = Some ns" "length ns \<le> 1" "join_words (rev ns) = []"
proof (cases "first_idx (\<lambda>e. e_id e = 0) es")
  case None
  then show thesis by (intro that[of "[]"]) (simp_all add: id_to_path_depth_def numeral_eq_Suc)
next
  case (Some k)
  then have "k < length es" "e_id (es ! k) = 0" by (simp_all add: first_idx_Some)
  then have "ename (es ! k) = []" "e_parent_id (es ! k) = 0"
    using tree_ok_entry[OF assms, of "es ! k"] by (simp_all add: used_def)
  then show thesis using Some by (intro that[of "[[]]"]) (simp_all add: id_to_path_depth_def numeral_eq_Suc)
qed

text \<open>In the root directory the prompt is \<open>/> \<close>.\<close>

lemma recal_clt_root:
  assumes "ata M = disk_ops junk" "volume (kfs k)" "current_dir_id k = 0" "length (cmd_line_text k) = 1024"
  obtains s' r where "recal_clt M k = Some (k\<lparr>kfs := s', cmd_line_text := ascii ''/> '' @ 0 # r,
      con := (con k)\<lparr>global_defualt_crus_x := 3\<rparr>\<rparr>)" "same_volume (kfs k) s'" "length r = 1020"
proof -
  have t: "tree_ok (vtable (kfs k))" by (rule volume_table[OF assms(2)])
  obtain ns where ns: "ancestry (vtable (kfs k)) id_to_path_depth 0 = Some ns" "length ns \<le> 1" "join_words (rev ns) = []"
    by (rule root_ancestry[OF t])
  have n: "names_ok (vtable (kfs k))" using t by (simp add: tree_ok_def)
  obtain s' r where e: "id_to_path (disk_ops junk) 0 (cmd_line_text k) (kfs k) = Some (slash # join_words (rev ns) @ 0 # r, s')"
    "fs_step drive_ok dsectors dcap {} (kfs k) s'" "fs_idle s'" "length r = 1022 - length (join_words (rev ns))"
    by (rule drv.id_to_path_effect[OF volume_good[OF assms(2)] volume_idle[OF assms(2)] n ns(1) _ assms(4)]) (use ns(2,3) in auto)
  obtain a b r' where r: "r = a # b # r'" "length r' = 1020"
    using e(4) ns(3) by (cases r; cases "tl r") auto
  have "cstrlen (slash # 0 # r) = Some 1" using cstrlen_terminated[of "[slash]" r] by (simp add: is_cstring_def)
  then have "recal_clt M k = Some (k\<lparr>kfs := s', cmd_line_text := ascii ''/> '' @ 0 # r',
      con := (con k)\<lparr>global_defualt_crus_x := 3\<rparr>\<rparr>)"
    using e(1) ns(3) assms(1,3) r by (simp add: recal_clt_def ascii_def)
  then show thesis using that step_same_volume[OF assms(2) e(2,3)] r(2) by simp
qed

section \<open>The branch of the newline\<close>

lemma clear_command:
  assumes "length ks < 4096"
  shows "oloop 0 (length ks + 1) (\<lambda>i b. poke b i 0) (ks @ replicate (4096 - length ks) 0) = Some (replicate 4096 (0 :: u8))"
proof -
  let ?b = "ks @ replicate (4096 - length ks) (0 :: u8)"
  have "\<exists>b. oloop 0 (length ks + 1) (\<lambda>i b. poke b i 0) ?b = Some b \<and>
      (length b = 4096 \<and> (\<forall>j < 4096. b ! j = (if j < 0 + (length ks + 1) then 0 else ?b ! j)))"
  proof (rule oloop_invariant)
    fix i and b :: bytes
    assume "i < 0 + (length ks + 1)" "length b = 4096 \<and> (\<forall>j < 4096. b ! j = (if j < i then 0 else ?b ! j))"
    then show "\<exists>b'. poke b i 0 = Some b' \<and> (length b' = 4096 \<and> (\<forall>j < 4096. b' ! j = (if j < Suc i then 0 else ?b ! j)))"
      using assms by (auto simp: nth_list_update less_Suc_eq)
  qed (use assms in simp)
  then obtain b where b: "oloop 0 (length ks + 1) (\<lambda>i b. poke b i 0) ?b = Some b" "length b = 4096"
    "\<And>j. j < 4096 \<Longrightarrow> b ! j = (if j < length ks + 1 then 0 else ?b ! j)" by auto
  have "b = replicate 4096 0" using b(2,3) by (intro nth_equalityI) (auto simp: nth_append)
  then show ?thesis using b(1) by simp
qed

lemma prompt_text: "printable (ascii ''/> '')" "is_cstring (ascii ''/> '')"
  by (simp_all add: printable_def is_cstring_def ascii_def)

lemma new_prompt:
  assumes "ata M = disk_ops junk" "ready k" "volume (kfs k)" "current_dir_id k = 0" "length (cmd_line_text k) = 1024"
    and "10 \<le> unat (screen_cols (con k))"
  obtains k1 k' where "recal_clt M k = Some k1" "do { k \<leftarrow> con_call (plus_gc_y color_fg color_bg) k1; let k = move_to_margin k;
      k \<leftarrow> write_prompt (global_crus_y (con k)) k; con_call (put_crus color_fg color_bg) k } = Some k'"
    "same_volume (kfs k) (kfs k')" "ready k'" "keyboard k' = keyboard k" "command k' = command k"
    "command_point_c_main k' = command_point_c_main k" "cstr (cmd_line_text k') = Some (ascii ''/> '')" "current_dir_id k' = 0"
proof -
  obtain s r where s: "recal_clt M k = Some (k\<lparr>kfs := s, cmd_line_text := ascii ''/> '' @ 0 # r,
      con := (con k)\<lparr>global_defualt_crus_x := 3\<rparr>\<rparr>)" "same_volume (kfs k) s"
    by (rule recal_clt_root[OF assms(1,3-5)])
  define k1 where "k1 = k\<lparr>kfs := s, cmd_line_text := ascii ''/> '' @ 0 # r, con := (con k)\<lparr>global_defualt_crus_x := 3\<rparr>\<rparr>"
  have k1: "ready k1" using assms(2,6) by (simp add: k1_def ready_def cursor_ok_def on_screen_def)
  obtain k2 where k2: "con_call (plus_gc_y color_fg color_bg) k1 = Some k2" "ready k2" "k2 = k1\<lparr>con := con k2\<rparr>"
    "screen_cols (con k2) = screen_cols (con k1)" by (rule plus_gc_y_ready[OF k1])
  define k3 where "k3 = move_to_margin k2"
  have k3: "ready k3" "7 \<le> unat (screen_cols (con k3))"
    using margin_ready[OF k2(2)] k2(4) assms(6) by (simp_all add: k3_def k1_def)
  obtain x k4 where k4: "k_write 0 (global_crus_y (con k3)) color_fg color_bg (ascii ''/> '') k3 = Some (x, k4)" "ready k4"
    "k4 = k3\<lparr>con := con k4\<rparr>" by (rule k_write_ready[OF k3(1) prompt_text(1) k3(2)])
  obtain k5 where k5: "con_call (put_crus color_fg color_bg) k4 = Some k5" "ready k5" "k5 = k4\<lparr>con := con k5\<rparr>"
    by (rule put_crus_ready[OF k4(2)])
  have line: "cstr (cmd_line_text k3) = Some (ascii ''/> '')"
    unfolding k3_def using prompt_text(2) by (subst k2(3)) (simp add: k1_def cstr_def)
  have "write_prompt (global_crus_y (con k3)) k3 = Some k4" using line k4(1) by (simp add: write_prompt_def)
  then have "do { k \<leftarrow> con_call (plus_gc_y color_fg color_bg) k1; let k = move_to_margin k;
      k \<leftarrow> write_prompt (global_crus_y (con k)) k; con_call (put_crus color_fg color_bg) k } = Some k5"
    using k2(1) k5(1) by (simp add: k3_def Let_def)
  moreover have "kfs k5 = s" "keyboard k5 = keyboard k" "command k5 = command k" "command_point_c_main k5 = command_point_c_main k"
    "current_dir_id k5 = current_dir_id k"
    by (subst k5(3), subst k4(3), simp add: k3_def, subst k2(3), simp add: k1_def)+
  moreover have "cmd_line_text k5 = cmd_line_text k3" by (subst k5(3), subst k4(3)) simp
  ultimately show thesis using that[of k1 k5] s k5(2) line assms(4) by (simp add: k1_def)
qed

lemma shell_enter_quiet:
  assumes "ata M = disk_ops junk" "ready k" "command k = ks @ replicate (4096 - length ks) 0" "length ks \<le> 255" "is_cstring ks"
    and "current_dir_id k = 0" "length (cmd_line_text k) = 1024" "10 \<le> unat (screen_cols (con k))"
    and run: "\<And>k1. untouched k k1 \<Longrightarrow>
      \<exists>s'. enter M n ks k1 = Some (0, (started ks k1)\<lparr>kfs := s'\<rparr>) \<and> volume s' \<and> P s'"
  obtains k' s' where "shell_enter M n k = Some k'" "P s'" "same_volume s' (kfs k')" "ready k'" "keyboard k' = keyboard k"
    "command k' = replicate 4096 0" "command_point_c_main k' = 0" "cstr (cmd_line_text k') = Some (ascii ''/> '')"
    "current_dir_id k' = 0"
proof -
  obtain k1 where k1: "con_call (plus_gc_y color_fg color_bg) k = Some k1" "ready k1" "k1 = k\<lparr>con := con k1\<rparr>"
    "screen_cols (con k1) = screen_cols (con k)" by (rule plus_gc_y_ready[OF assms(2)])
  have f1: "kfs k1 = kfs k" "current_dir_id k1 = current_dir_id k" "cmd_line_text k1 = cmd_line_text k" "read_out k1 = read_out k"
    "command k1 = command k" "keyboard k1 = keyboard k" by (subst k1(3), simp)+
  define k2 where "k2 = move_to_margin k1"
  have k2: "ready k2" "untouched k k2" "command k2 = command k" "keyboard k2 = keyboard k" "cmd_line_text k2 = cmd_line_text k"
    "current_dir_id k2 = 0" "screen_cols (con k2) = screen_cols (con k)"
    using margin_ready[OF k1(2)] f1 k1(4) assms(6) by (simp_all add: k2_def untouched_def)
  have "replicate (4096 - length ks) (0 :: u8) = 0 # replicate (4095 - length ks) 0"
    using assms(4) by (simp add: Suc_diff_le flip: replicate_Suc)
  then have cmd: "cstr (command k2) = Some ks" using assms(5) by (simp add: k2(3) assms(3) cstr_def)
  obtain s1 where s1: "enter M n ks k2 = Some (0, (started ks k2)\<lparr>kfs := s1\<rparr>)" "volume s1" "P s1" using run[OF k2(2)] by blast
  define k3 where "k3 = (started ks k2)\<lparr>kfs := s1\<rparr>"
  define k4 where "k4 = k3\<lparr>command := replicate 4096 0, command_point_c_main := 0\<rparr>"
  have "unat (of_nat (length ks + 1) :: u64) = length ks + 1"
    using assms(4) by (simp add: unat_of_nat take_bit_nat_eq_self del: of_nat_add of_nat_Suc Num.of_nat_simps)
  then have clear: "oloop 0 (unat (last_global_command_lenght k3)) (\<lambda>i8 b. poke b i8 0) (command k3) = Some (replicate 4096 0)"
    using clear_command[of ks] assms(4) by (simp add: k3_def k2(3) assms(3))
  have k4: "ready k4" "kfs k4 = s1" "current_dir_id k4 = 0" "length (cmd_line_text k4) = 1024" "con k4 = con k2" "keyboard k4 = keyboard k"
    "command k4 = replicate 4096 0" "command_point_c_main k4 = 0"
    using k2 assms(7) by (simp_all add: k4_def k3_def ready_def)
  have v4: "volume (kfs k4)" "10 \<le> unat (screen_cols (con k4))" using s1(2) k4(2,5) k2(7) assms(8) by simp_all
  obtain k5 k' where k5: "recal_clt M k4 = Some k5" "do { k \<leftarrow> con_call (plus_gc_y color_fg color_bg) k5; let k = move_to_margin k;
      k \<leftarrow> write_prompt (global_crus_y (con k)) k; con_call (put_crus color_fg color_bg) k } = Some k'"
    "same_volume (kfs k4) (kfs k')" "ready k'" "keyboard k' = keyboard k4" "command k' = command k4"
    "command_point_c_main k' = command_point_c_main k4" "cstr (cmd_line_text k') = Some (ascii ''/> '')" "current_dir_id k' = 0"
    by (rule new_prompt[OF assms(1) k4(1) v4(1) k4(3,4) v4(2)])
  have "shell_enter M n k = Some k'"
    unfolding shell_enter_def k1(1) bind.bind_lunit Let_def k2_def[symmetric] cmd s1(1) k3_def[symmetric] case_prod_conv clear
      k4_def[symmetric] k5(1)
    using k5(2) by (simp add: Let_def)
  then show thesis by (rule that[of k' s1]) (use s1(3) k5(3-9) k4 in simp_all)
qed

section \<open>A typed command\<close>

text \<open>C14. A typed \<open>mkdir\<close> line goes from the keyboard to the disk: with the line and its newline in the queue, the shell returns, the
  directory is in the abstract map of a well-formed volume, the command buffer is cleared, the prompt shows the root directory, the
  rest of the queue waits, and the shell is ready for the next line.\<close>

theorem typed_mkdir:
  assumes "ata M = disk_ops junk" "\<And>k. k_hlt M k = k" "ready k" "volume (kfs k)" "current_dir_id k = 0"
    and "kbd_items (keyboard k) = ks @ 10 # rest" "list_all typable ks" "blank_words ks = [ascii ''mkdir'', w]"
    and "command_point_c_main k = 0" "command k = replicate 4096 0" "length (cmd_line_text k) = 1024" "10 \<le> unat (screen_cols (con k))"
    and "abs_ready (vtable (kfs k)) 0 w apath" "length apath < 1022"
    and "new_path (vtable (kfs k)) 0 (canonical apath) parent name" "room_for_entry (vtable (kfs k))"
  shows "\<exists>k'. shell M (Suc n) k = Some k' \<and> volume (kfs k') \<and>
    dir_map (vtable (kfs k')) = (dir_map (vtable (kfs k)))((parent, name) \<mapsto> (vlast (kfs k) + 1, 3)) \<and>
    kbd_items (keyboard k') = rest \<and> ready k' \<and> command k' = replicate 4096 0 \<and> command_point_c_main k' = 0 \<and>
    current_dir_id k' = 0 \<and> cstr (cmd_line_text k') = Some (ascii ''/> '')"
proof -
  obtain k1 where k1: "shell M (Suc n) k = shell_enter M (Suc n) k1" "ready k1" "kbd_items (keyboard k1) = rest" "untouched k k1"
    "command k1 = ks @ replicate (4096 - length ks) 0" "length ks \<le> 255" "is_cstring ks"
    by (rule line_typed[OF assms(3,6,7,9,10,2)])
  have u1: "kfs k1 = kfs k" "current_dir_id k1 = 0" "length (cmd_line_text k1) = 1024" "10 \<le> unat (screen_cols (con k1))"
    using k1(4) assms(5,11,12) by (simp_all add: untouched_def)
  have run: "\<exists>s'. enter M (Suc n) ks k2 = Some (0, (started ks k2)\<lparr>kfs := s'\<rparr>) \<and> volume s' \<and>
      dir_map (vtable s') = (dir_map (vtable (kfs k)))((parent, name) \<mapsto> (vlast (kfs k) + 1, 3))" if "untouched k1 k2" for k2
  proof -
    have eq: "kfs k2 = kfs k" "current_dir_id k2 = 0" using that u1 by (simp_all add: untouched_def)
    show ?thesis
      by (rule mkdir_effect[OF assms(1) _ k1(7) assms(8), of k2 apath parent name n]) (use eq assms(4,13-16) in auto)
  qed
  obtain k' s' where "shell_enter M (Suc n) k1 = Some k'"
    and s': "dir_map (vtable s') = (dir_map (vtable (kfs k)))((parent, name) \<mapsto> (vlast (kfs k) + 1, 3))" "same_volume s' (kfs k')"
    and "ready k'" "keyboard k' = keyboard k1" "command k' = replicate 4096 0" "command_point_c_main k' = 0"
      "cstr (cmd_line_text k') = Some (ascii ''/> '')" "current_dir_id k' = 0"
    by (rule shell_enter_quiet[OF assms(1) k1(2,5-7) u1(2-4) run])
  then show ?thesis using k1(1,3) same_volume_table[OF s'(2)] by (intro exI[of _ k']) simp
qed

definition mkdir_kernel :: "drive kernel" where
  "mkdir_kernel = demo_kernel\<lparr>keyboard := kbd_init\<lparr>kbuffer := ascii ''mkdir /d/x'' @ 10 # replicate 245 0, head := 11\<rparr>\<rparr>"

lemma mkdir_kernel_ready: "ready mkdir_kernel" "kbd_items (keyboard mkdir_kernel) = ascii ''mkdir /d/x'' @ 10 # []"
proof -
  show "ready mkdir_kernel"
    using demo_screen_ok demo_cursor_ok by (simp add: ready_def mkdir_kernel_def kbd_init_def kbd_inv_def on_screen_def ascii_def)
      (simp add: demo_kernel_def demo_console_def)
  have "ascii ''mkdir /d/x'' = [109, 107, 100, 105, 114, 32, 47, 100, 47, 120]" by code_simp
  then show "kbd_items (keyboard mkdir_kernel) = ascii ''mkdir /d/x'' @ 10 # []"
    by (simp add: mkdir_kernel_def kbd_init_def kbd_items_def kbd_count_def upt_rec)
qed

lemma demo_line: "list_all typable (ascii ''mkdir /d/x'')" "blank_words (ascii ''mkdir /d/x'') = [ascii ''mkdir'', [slash, 100, slash, 120]]"
  "is_cstring [slash, 100, slash, 120]" "rel_or_abs_path [slash, 100, slash, 120] = 0" "canonical [slash, 100, slash, 120] = [slash, 100, slash, 120]"
  by code_simp+

theorem typed_mkdir_witness:
  "\<exists>k'. shell demo_machine 1 mkdir_kernel = Some k' \<and> dir_map (vtable (kfs k')) (1, [120]) = Some (vlast demo_fs + 1, 3) \<and>
    kbd_items (keyboard k') = []"
proof -
  let ?w = "[slash, 100, slash, 120] :: cstring"
  have f: "kfs mkdir_kernel = demo_fs" "current_dir_id mkdir_kernel = 0" "con mkdir_kernel = demo_console"
    "command_point_c_main mkdir_kernel = 0" "command mkdir_kernel = replicate 4096 0" "length (cmd_line_text mkdir_kernel) = 1024"
    by (simp_all add: mkdir_kernel_def demo_kernel_def)
  have r: "abs_ready (vtable (kfs mkdir_kernel)) 0 ?w ?w" using demo_line(3,4) by (simp add: absolute_ready)
  obtain k' where "shell demo_machine (Suc 0) mkdir_kernel = Some k'" "kbd_items (keyboard k') = []"
    "dir_map (vtable (kfs k')) = (dir_map (vtable demo_fs))((1, [120]) \<mapsto> (vlast demo_fs + 1, 3))"
    using typed_mkdir[OF demo_machine_sel(1) demo_machine_sel(2) mkdir_kernel_ready(1) _ f(2) mkdir_kernel_ready(2) demo_line(1,2) f(4-6) _ r,
        of 1 "[120]" 0] demo_volume demo_new_path demo_room
    unfolding f(1,3) demo_line(5) by auto
  then show ?thesis by (intro exI[of _ k']) (simp add: map_upd_at)
qed

end
