(* ===== verification/Scripts.thy ===== *)
theory Scripts
  imports ShellText
begin

text \<open>
  The interface between the scripts of the shell and the commands in them: a state that a command steps through, and a kernel that
  follows it. A script then steps through it line by line, whether the kernel runs it at its start or \<open>sh\<close> reads it from a file.
  \<open>Boot\<close> interprets the interface on the directory tree.
\<close>

fun steps :: "(cstring \<Rightarrow> 'a \<Rightarrow> 'a option) \<Rightarrow> cstring list \<Rightarrow> 'a \<Rightarrow> 'a option" where
  "steps step [] a = Some a"
| "steps step (c # cs) a = do { a \<leftarrow> step c a; steps step cs a }"

lemma steps_append: "steps step (xs @ ys) a = do { a \<leftarrow> steps step xs a; steps step ys a }"
  by (induction xs arbitrary: a) (auto split: Option.bind_splits)

lemma shell_commands_run_all: "shell_commands M n cs k = run_all (shell_command M n) (map ascii cs) k"
  by (induction cs arbitrary: k) (auto split: Option.bind_splits)

lemma run_all_append: "run_all sc (xs @ ys) k = do { k \<leftarrow> run_all sc xs k; run_all sc ys k }"
  by (induction xs arbitrary: k) (auto split: Option.bind_splits)

lemma script_lines_cstring: "is_cstring s \<Longrightarrow> l \<in> set (script_lines s) \<Longrightarrow> is_cstring l"
proof (induction s rule: script_lines.induct)
  case (1 s)
  show ?case
  proof (cases "10 \<in> set s")
    case True
    let ?t = "tl (dropWhile (\<lambda>c. c \<noteq> 10) s)"
    have "set (tl xs) \<subseteq> set xs" for xs :: cstring by (cases xs) auto
    moreover have "set (dropWhile (\<lambda>c. c \<noteq> 10) s) \<subseteq> set s" by (meson set_dropWhileD subsetI)
    ultimately have sub: "set ?t \<subseteq> set s" by blast
    have pre: "set (takeWhile (\<lambda>c. c \<noteq> 10) s) \<subseteq> set s" by (meson set_takeWhileD subsetI)
    have "l = takeWhile (\<lambda>c. c \<noteq> 10) s \<or> l \<in> set (script_lines ?t)"
      using 1(3) True by (simp add: script_lines.simps[of s])
    then show ?thesis using 1(1)[OF True] 1(2) sub pre unfolding is_cstring_def by blast
  next
    case False
    then show ?thesis using 1(2,3) by (simp add: script_lines.simps[of s] split: if_splits)
  qed
qed

locale command_model =
  fixes run :: "'d runner" and step :: "cstring \<Rightarrow> 'a \<Rightarrow> 'a option" and sim :: "'a \<Rightarrow> 'd kernel \<Rightarrow> bool"
  assumes simulates: "\<lbrakk>sim a k; is_cstring c; step c a = Some a'\<rbrakk> \<Longrightarrow> \<exists>r k'. run c k = Some (r, k') \<and> sim a' k'"
begin

lemma run_all_simulates:
  "\<lbrakk>sim a k; \<forall>c \<in> set cs. is_cstring c; steps step cs a = Some a'\<rbrakk> \<Longrightarrow> \<exists>k'. run_all run cs k = Some k' \<and> sim a' k'"
proof (induction cs arbitrary: a k)
  case (Cons c cs)
  obtain b where b: "step c a = Some b" "steps step cs b = Some a'" using Cons.prems(3) by (auto split: Option.bind_splits)
  obtain r k1 where k1: "run c k = Some (r, k1)" "sim b k1" using simulates[OF Cons.prems(1) _ b(1)] Cons.prems(2) by auto
  then show ?case using Cons.IH[OF k1(2) _ b(2)] Cons.prems(2) by auto
qed simp

lemma script_simulates:
  assumes "sim a k" "is_cstring s" "length s < 1024" "steps step (script_lines s) a = Some a'"
  shows "\<exists>k'. sh_lines run (s @ 0 # rest) [] k = Some k' \<and> sim a' k'"
  using run_all_simulates[OF assms(1) _ assms(4)] script_lines_cstring[OF assms(2)] sh_lines_run[OF assms(2), of "[]" run rest k] assms(3)
  by simp

end

end
