(* ===== verification/Boot.thy ===== *)
theory Boot
  imports ShellRun Scripts
begin

text \<open>
  The first start: \<open>make_the_tree\<close> on the volume that \<open>fs_init\<close> has just formatted. The script is run on an association list of
  names, as an abstract file system would, and the run of the shell is shown to follow it.
\<close>

section \<open>The abstract tree\<close>

type_synonym tree = "((u64 \<times> cstring) \<times> (u64 \<times> u16)) list"

text \<open>An absolute path in normal form with a legal last name.\<close>

definition plain_path :: "cstring \<Rightarrow> bool" where
  "plain_path p \<longleftrightarrow> is_cstring p \<and> length p < 1000 \<and> rel_or_abs_path p = 0 \<and> canonical p = p \<and>
     [dot] \<notin> set (components p) \<and> length (base_name p) < 24 \<and> good_name (base_name p)"

definition tree_add :: "u16 \<Rightarrow> cstring \<Rightarrow> tree \<Rightarrow> tree option" where
  "tree_add t p L =
     (case resolve (map_of L) (butlast (components p)) 0 of
        None \<Rightarrow> None
      | Some d \<Rightarrow> if plain_path p \<and> map_of L (d, base_name p) = None \<and> 
                  (d = 0 \<or> list_ex (\<lambda>x. map_of L (fst x) = Some (d, 3)) L) \<and> length L < 1000
                  then Some (((d, base_name p), (of_nat (Suc (length L)), t)) # L) else None)"

definition files :: "tree \<Rightarrow> nat" where
  "files L = length (filter (\<lambda>x. snd (snd x) = 2) L)"

text \<open>A volume that holds just the tree: its files have one region of 8 frames each, at the bottom of the storage.\<close>

definition holds_tree :: "tree \<Rightarrow> drive fs \<Rightarrow> bool" where
  "holds_tree L s \<longleftrightarrow> volume s \<and> dir_map (vtable s) = map_of L \<and> length (filter used (vtable s)) = length L \<and>
     vlast s = of_nat (length L) \<and> (\<forall>e \<in> set (vtable s). is_file e \<longrightarrow> e_region_size e = 8) \<and>
     (\<forall>f < frame_bound s. vbit s f = (f < 8 * files L))"

lemma holds_room:
  assumes "holds_tree L s" "length L < 1000"
  shows "room_for_entry (vtable s)"
proof -
  have c: "length (filter used (vtable s)) < length (vtable s)" using assms by (simp add: holds_tree_def)
  have "\<exists>e \<in> set (vtable s). \<not> used e"
  proof (rule ccontr)
    assume "\<not> (\<exists>e \<in> set (vtable s). \<not> used e)"
    then have "filter used (vtable s) = vtable s" by (simp add: filter_id_conv)
    then show False using c by simp
  qed
  moreover have id: "vlast s = max_id (vtable s)" "vlast s = of_nat (length L)" using assms(1) by (auto simp: holds_tree_def volume_ok_def)
  have u: "unat (vlast s) < 1000" using assms(2) by (simp add: id(2) unat_of_nat take_bit_nat_eq_self)
  then have "vlast s \<noteq> fs_not_found" "vlast s + 1 \<noteq> fs_not_found"
    unfolding word_unat_eq_iff by (simp_all add: fs_not_found_def unat_word_ariths unsigned_minus_1_eq_mask mask_eq_exp_minus_1)
  ultimately show ?thesis using id(1) by (simp add: room_for_entry_def)
qed

lemma tree_add_path:
  assumes "holds_tree L s" "tree_add t p L = Some L'"
  obtains d where "new_path (vtable s) 0 (canonical p) d (base_name p)" "L' = ((d, base_name p), (of_nat (Suc (length L)), t)) # L"
    "abs_ready (vtable s) 0 p p" "length p < 1000" "room_for_entry (vtable s)" "length L < 1000"
proof -
  obtain d where d: "resolve (map_of L) (butlast (components p)) 0 = Some d" "plain_path p" "map_of L (d, base_name p) = None"
    "d = 0 \<or> list_ex (\<lambda>x. map_of L (fst x) = Some (d, 3)) L" "length L < 1000" "L' = ((d, base_name p), (of_nat (Suc (length L)), t)) # L"
    using assms(2) by (auto simp: tree_add_def split: option.splits if_splits)
  have p: "is_cstring p" "length p < 1000" "rel_or_abs_path p = 0" "canonical p = p" "[dot] \<notin> set (components p)"
    "length (base_name p) < 24" "good_name (base_name p)" using d(2) by (simp_all add: plain_path_def)
  have m: "dir_map (vtable s) = map_of L" using assms(1) by (simp add: holds_tree_def)
  have r: "abs_ready (vtable s) 0 p p" using p by (simp add: absolute_ready)
  have "is_dir_id (vtable s) d"
  proof (cases "d = 0")
    case False
    then obtain x where "dir_map (vtable s) (fst (fst x), snd (fst x)) = Some (d, 3)" using d(4) by (auto simp: list_ex_iff m)
    then obtain i where "i < length (vtable s)" "used (vtable s ! i)" "e_id (vtable s ! i) = d" "e_type (vtable s ! i) = 3"
      by (rule dir_map_Some)
    then show ?thesis unfolding is_dir_id_def using nth_mem by blast
  qed (simp add: is_dir_id_def)
  then have "new_path (vtable s) 0 p d (base_name p)"
    unfolding new_path_def m using r p d(1,3) by auto
  then show thesis using that d p r holds_room[OF assms(1) d(5)] by simp
qed

section \<open>One line\<close>

definition tree_has :: "u16 \<Rightarrow> cstring \<Rightarrow> tree \<Rightarrow> bool" where
  "tree_has t p L = (case resolve (map_of L) (components p) 0 of
     None \<Rightarrow> False | Some i \<Rightarrow> plain_path p \<and> list_ex (\<lambda>x. map_of L (fst x) = Some (i, t)) L)"

definition write_line :: "cstring \<Rightarrow> cstring \<Rightarrow> cstring" where
  "write_line p w = ascii ''write'' @ 32 # p @ 32 # w"

text \<open>\<open>mkdir\<close> and \<open>mk\<close> of a new name and \<open>write\<close> of a word to a file, as they act on the tree.\<close>

definition tree_line :: "cstring \<Rightarrow> tree \<Rightarrow> tree option" where
  "tree_line cmd L =
     (case blank_words cmd of
        [c, p] \<Rightarrow> if c = ascii ''mkdir'' then tree_add 3 p L
                  else if c = ascii ''mk'' \<and> files L < 8 then tree_add 2 p L else None
      | [c, p, w] \<Rightarrow> if c = ascii ''write'' \<and> cmd = write_line p w \<and> length w < 1000 \<and> tree_has 2 p L
                     then Some L else None
      | _ \<Rightarrow> None)"

text \<open>A kernel in the root directory whose volume holds the tree and has room for eight files.\<close>

definition holds :: "tree \<Rightarrow> drive kernel \<Rightarrow> bool" where
  "holds L k \<longleftrightarrow> holds_tree L (kfs k) \<and> current_dir_id k = 0 \<and> unat (start_storage (kfs k)) + 64 \<le> dcap (dsk (kfs k)) \<and>
     concat_ok (concats k) \<and> length (u64_str k) = 21"

lemma files_Cons: "files (x # L) = (if snd (snd x) = 2 then Suc (files L) else files L)"
  by (simp add: files_def)

lemma bound_4096:
  assumes "volume s"
  shows "4096 \<le> frame_bound s"
  using drv.good_layout[OF volume_good[OF assms]] by (simp add: frame_bound_def)

lemma run_of_tree:
  assumes "holds_tree L s" "files L < 8"
  shows "least_run (vbit s) 8 = Some (8 * files L)"
proof -
  have fb: "4096 \<le> frame_bound s" and bits: "\<And>f. f < 4096 \<Longrightarrow> vbit s f = (f < 8 * files L)"
    using assms(1) bound_4096[of s] by (auto simp: holds_tree_def)
  have "free_run (vbit s) 8 p = (8 * files L \<le> p)" if "p < 4089" for p
    using that bits by (auto simp: free_run_def) (metis add.right_neutral not_le zero_less_numeral)
  then show ?thesis using assms(2) by (auto simp: least_run_def first_idx_Some)
qed

lemma holds_add:
  assumes "holds L k" "L' = ((d, w), (of_nat (Suc (length L)), t)) # L" "volume s'"
    and "dir_map (vtable s') = (dir_map (vtable (kfs k)))((d, w) \<mapsto> (vlast (kfs k) + 1, t))"
    and "adds_entry (vtable (kfs k)) (vtable s') e" "is_file e \<longrightarrow> e_region_size e = 8"
    and "vlast s' = vlast (kfs k) + 1" "same_geometry dcap (kfs k) s'"
    and "\<forall>f < frame_bound (kfs k). vbit s' f = (f < 8 * files L')"
  shows "holds L' ((started cmd k)\<lparr>kfs := s'\<rparr>)"
proof -
  have h: "holds_tree L (kfs k)" using assms(1) by (simp add: holds_def)
  have "holds_tree L' s'"
    unfolding holds_tree_def
  proof (intro conjI)
    show "dir_map (vtable s') = map_of L'" using assms(4) h by (simp add: assms(2) holds_tree_def add.commute)
    show "length (filter used (vtable s')) = length L'"
      using adds_entry_count(1)[OF assms(5)] h by (simp add: assms(2) holds_tree_def)
    show "vlast s' = of_nat (length L')" using assms(7) h by (simp add: assms(2) holds_tree_def add.commute)
    show "\<forall>e \<in> set (vtable s'). is_file e \<longrightarrow> e_region_size e = 8"
      using adds_entry_count(2)[OF assms(5)] assms(6) h by (auto simp: holds_tree_def)
    show "\<forall>f < frame_bound s'. vbit s' f = (f < 8 * files L')" using assms(9) geometry_bound[OF assms(8)] by simp
  qed (rule assms(3))
  then show ?thesis using assms(1,8) by (simp add: holds_def same_geometry_def)
qed

lemma quiet_command: "enter M n cmd k = Some (0, k') \<Longrightarrow> shell_command M n cmd k = Some (0, k')"
  by (simp add: shell_command_def shell_command_with_def)

lemma step_mkdir:
  assumes "ata M = disk_ops junk" "holds L k" "is_cstring cmd" "blank_words cmd = [ascii ''mkdir'', p]" "tree_add 3 p L = Some L'"
  shows "\<exists>k'. shell_command M (Suc n) cmd k = Some (0, k') \<and> holds L' k'"
proof -
  have h: "holds_tree L (kfs k)" "current_dir_id k = 0" using assms(2) by (simp_all add: holds_def)
  have v: "volume (kfs k)" using h(1) by (simp add: holds_tree_def)
  obtain d where d: "new_path (vtable (kfs k)) 0 (canonical p) d (base_name p)" "L' = ((d, base_name p), (of_nat (Suc (length L)), 3)) # L"
    "abs_ready (vtable (kfs k)) 0 p p" "length p < 1000" "room_for_entry (vtable (kfs k))" "length L < 1000"
    by (rule tree_add_path[OF h(1) assms(5)])
  obtain s' where s': "enter M (Suc n) cmd k = Some (0, (started cmd k)\<lparr>kfs := s'\<rparr>)" "volume s'"
    "dir_map (vtable s') = (dir_map (vtable (kfs k)))((d, base_name p) \<mapsto> (vlast (kfs k) + 1, 3))"
    "\<forall>f < frame_bound (kfs k). vbit s' f = vbit (kfs k) f" "\<exists>e. adds_entry (vtable (kfs k)) (vtable s') e \<and> e_type e = 3"
    "vlast s' = vlast (kfs k) + 1" "same_geometry dcap (kfs k) s'"
    by (rule mkdir_effect[OF assms(1) v assms(3,4), of p d "base_name p" n]) (use d h(2) in simp_all)
  obtain e where e: "adds_entry (vtable (kfs k)) (vtable s') e" "e_type e = 3" using s'(5) by blast
  have "\<forall>f < frame_bound (kfs k). vbit s' f = (f < 8 * files L')"
    using s'(4) h(1) by (simp add: d(2) holds_tree_def files_Cons)
  then have "holds L' ((started cmd k)\<lparr>kfs := s'\<rparr>)"
    by (intro holds_add[OF assms(2) d(2) s'(2,3) e(1) _ s'(6,7)]) (simp_all add: is_file_def e(2))
  then show ?thesis using quiet_command[OF s'(1)] by blast
qed

lemma step_mk:
  assumes "ata M = disk_ops junk" "holds L k" "is_cstring cmd" "blank_words cmd = [ascii ''mk'', p]" "tree_add 2 p L = Some L'" "files L < 8"
  shows "\<exists>k'. shell_command M (Suc n) cmd k = Some (0, k') \<and> holds L' k'"
proof -
  have h: "holds_tree L (kfs k)" "current_dir_id k = 0" "unat (start_storage (kfs k)) + 64 \<le> dcap (dsk (kfs k))"
    using assms(2) by (simp_all add: holds_def)
  have v: "volume (kfs k)" using h(1) by (simp add: holds_tree_def)
  let ?p = "8 * files L"
  have u: "unat (of_nat ?p :: u64) = ?p" "?p + 8 \<le> 64"
    using assms(6) by (simp_all add: unat_of_nat take_bit_nat_eq_self del: of_nat_mult)
  have fits: "region_fits (dcap (dsk (kfs k))) (kfs k) 8 (of_nat ?p)"
    using u h(3) bound_4096[OF v] unfolding region_fits_def by simp
  obtain d where d: "new_path (vtable (kfs k)) 0 (canonical p) d (base_name p)" "L' = ((d, base_name p), (of_nat (Suc (length L)), 2)) # L"
    "abs_ready (vtable (kfs k)) 0 p p" "length p < 1000" "room_for_entry (vtable (kfs k))" "length L < 1000"
    by (rule tree_add_path[OF h(1) assms(5)])
  obtain s' where s': "enter M (Suc n) cmd k = Some (0, (started cmd k)\<lparr>kfs := s'\<rparr>)" "volume s'"
    "dir_map (vtable s') = (dir_map (vtable (kfs k)))((d, base_name p) \<mapsto> (vlast (kfs k) + 1, 2))"
    "\<forall>f < frame_bound (kfs k). vbit s' f = (in_region 8 (of_nat ?p) f \<or> vbit (kfs k) f)"
    "\<exists>e. adds_entry (vtable (kfs k)) (vtable s') e \<and> e_type e = 2 \<and> e_region_size e = 8"
    "vlast s' = vlast (kfs k) + 1" "same_geometry dcap (kfs k) s'"
    by (rule mk_effect[OF assms(1) v assms(3,4), of p d "base_name p" ?p n])
      (use d h(2) fits run_of_tree[OF h(1) assms(6)] in simp_all)
  obtain e where e: "adds_entry (vtable (kfs k)) (vtable s') e" "e_type e = 2" "e_region_size e = 8" using s'(5) by blast
  have "in_region 8 (of_nat ?p) f \<longleftrightarrow> ?p \<le> f \<and> f < ?p + 8" for f using u(1) by (simp add: in_region_def)
  then have "\<forall>f < frame_bound (kfs k). vbit s' f = (f < 8 * files L')"
    using s'(4) h(1) by (auto simp: d(2) holds_tree_def files_Cons)
  then have "holds L' ((started cmd k)\<lparr>kfs := s'\<rparr>)"
    by (intro holds_add[OF assms(2) d(2) s'(2,3) e(1) _ s'(6,7)]) (simp_all add: e(3))
  then show ?thesis using quiet_command[OF s'(1)] by blast
qed

lemma blank_word: "w \<in> set (blank_words s) \<Longrightarrow> w \<noteq> [] \<and> 32 \<notin> set w"
proof (induction s rule: blank_words.induct)
  case (1 s)
  let ?r = "dropWhile (\<lambda>c. c = 32) s"
  show ?case
  proof (cases "?r = []")
    case True
    then show ?thesis using 1(2) by (simp add: blank_words.simps[of s])
  next
    case False
    then have "hd ?r \<noteq> 32" using hd_dropWhile[of "\<lambda>c. c = 32" s] by simp
    then have "takeWhile (\<lambda>c. c \<noteq> 32) ?r \<noteq> []" using False by (cases ?r) auto
    moreover have "32 \<notin> set (takeWhile (\<lambda>c. c \<noteq> 32) ?r)" by (auto dest: set_takeWhileD)
    moreover have "blank_words s = takeWhile (\<lambda>c. c \<noteq> 32) ?r # blank_words (dropWhile (\<lambda>c. c \<noteq> 32) ?r)"
      using False by (simp add: blank_words.simps[of s] Let_def)
    ultimately show ?thesis using 1(2) 1(1)[OF refl False] by auto
  qed
qed

lemma write_line_words:
  assumes "p \<noteq> []" "32 \<notin> set p" "w \<noteq> []" "32 \<notin> set w"
  shows "blank_words (write_line p w) = [ascii ''write'', p, w]" "blank_words w = [w]"
proof -
  have nb: "ascii ''write'' \<noteq> []" "32 \<notin> set (ascii ''write'')" by code_simp+
  show w: "blank_words w = [w]" using blank_words_word[OF assms(3,4), of "[]"] by simp
  show "blank_words (write_line p w) = [ascii ''write'', p, w]"
    using blank_words_word[OF nb, of "32 # p @ 32 # w"] blank_words_word[OF assms(1,2), of "32 # w"] w by (simp add: write_line_def)
qed

lemma tree_has_file:
  assumes "holds_tree L s" "tree_has 2 p L"
  obtains j where "names_file (vtable s) 0 (canonical p) j" "abs_ready (vtable s) 0 p p" "length p < 1000"
    "e_region_size (vtable s ! j) = 8" "is_cstring p"
proof -
  have m: "dir_map (vtable s) = map_of L" using assms(1) by (simp add: holds_tree_def)
  obtain i x where r: "resolve (map_of L) (components p) 0 = Some i" "plain_path p" "map_of L (fst x) = Some (i, 2)"
    using assms(2) by (auto simp: tree_has_def list_ex_iff split: option.splits)
  have p: "is_cstring p" "length p < 1000" "rel_or_abs_path p = 0" "canonical p = p" using r(2) by (simp_all add: plain_path_def)
  have ready: "abs_ready (vtable s) 0 p p" using p by (simp add: absolute_ready)
  have "dir_map (vtable s) (fst (fst x), snd (fst x)) = Some (i, 2)" using r(3) by (simp add: m)
  then obtain j where j: "j < length (vtable s)" "used (vtable s ! j)" "e_id (vtable s ! j) = i" "e_type (vtable s ! j) = 2"
    by (rule dir_map_Some)
  then have f: "is_file (vtable s ! j)" by (simp add: is_file_def)
  then have "names_file (vtable s) 0 (canonical p) j"
    unfolding names_file_def m using j ready r(1) p(4) by auto
  moreover have "e_region_size (vtable s ! j) = 8" using assms(1) f j(1) by (simp add: holds_tree_def)
  ultimately show thesis using that ready p(1,2) by blast
qed

lemma resize_used: "length (filter used (es[j := (es ! j)\<lparr>e_size := z\<rparr>])) = length (filter used es)"
proof -
  have u: "length (filter used es) = length (filter (\<lambda>i. i \<noteq> 0) (map e_id es))" for es
    by (simp add: filter_map o_def used_def[abs_def])
  have "map e_id (es[j := (es ! j)\<lparr>e_size := z\<rparr>]) = map e_id es"
    by (cases "j < length es") (simp_all add: map_update list_update_same_conv list_update_beyond)
  then show ?thesis unfolding u by (simp only:)
qed

lemma step_write:
  assumes "ata M = disk_ops junk" "holds L k" "tree_has 2 p L" "p \<noteq> []" "32 \<notin> set p" "w \<noteq> []" "32 \<notin> set w" "is_cstring w" "length w < 1000"
  shows "\<exists>k'. shell_command M (Suc n) (write_line p w) k = Some (0, k') \<and> holds L k'"
proof -
  have h: "holds_tree L (kfs k)" "current_dir_id k = 0" using assms(2) by (simp_all add: holds_def)
  have v: "volume (kfs k)" using h(1) by (simp add: holds_tree_def)
  obtain j where j: "names_file (vtable (kfs k)) 0 (canonical p) j" "abs_ready (vtable (kfs k)) 0 p p" "length p < 1000"
    "e_region_size (vtable (kfs k) ! j) = 8" "is_cstring p" by (rule tree_has_file[OF h(1) assms(3)])
  have bw: "blank_words w = [w]" using write_line_words(2) assms(4-7) by blast
  have w: "hd w \<noteq> 32" "is_cstring (p @ w)" using assms(6-8) j(5) by (cases w; simp)+
  have short: "\<not> (length (blank_words w) = 2 \<and> blank_words w ! 1 = ascii ''f'')" "length p < 1022" using bw j(3) by simp_all
  have one: "one_region (vtable (kfs k) ! j) (length w)" using j(4) assms(9) by (simp add: one_region_def)
  obtain s' where s': "enter M (Suc n) (write_line p w) k = Some (0, (started (write_line p w) k)\<lparr>kfs := s'\<rparr>)" "volume s'"
    "vtable s' = (vtable (kfs k))[j := (vtable (kfs k) ! j)\<lparr>e_size := of_nat (length w)\<rparr>]" "vdata s' (vtable s' ! j) = w"
    "\<forall>f < frame_bound (kfs k). vbit s' f = vbit (kfs k) f" "same_geometry dcap (kfs k) s'"
    by (rule write_command[OF assms(1) v assms(4-6) w short(1) j(2)[folded h(2)] short(2) j(1)[folded h(2)] one write_line_def])
  have "holds_tree L s'"
    unfolding holds_tree_def
  proof (intro conjI)
    have "vlast s' = max_id (vtable s')" "vlast (kfs k) = max_id (vtable (kfs k))" using s'(2) v by (simp_all add: volume_ok_def)
    then have "vlast s' = vlast (kfs k)" unfolding s'(3) by (simp add: resize_same)
    then show "vlast s' = of_nat (length L)" using h(1) by (simp add: holds_tree_def)
    have "set (vtable s') \<subseteq> insert ((vtable (kfs k) ! j)\<lparr>e_size := of_nat (length w)\<rparr>) (set (vtable (kfs k)))"
      unfolding s'(3) by (rule set_update_subset_insert)
    then show "\<forall>e \<in> set (vtable s'). is_file e \<longrightarrow> e_region_size e = 8" using h(1) j(4) by (auto simp: holds_tree_def)
  qed (use s' h(1) geometry_bound[OF s'(6)] in \<open>simp_all add: holds_tree_def resize_same resize_used\<close>)
  then have "holds L ((started (write_line p w) k)\<lparr>kfs := s'\<rparr>)" using assms(2) s'(6) by (simp add: holds_def same_geometry_def)
  then show ?thesis using quiet_command[OF s'(1)] by blast
qed

lemma tree_line_cases:
  assumes "tree_line cmd L = Some L'"
  obtains p where "blank_words cmd = [ascii ''mkdir'', p]" "tree_add 3 p L = Some L'"
    | p where "blank_words cmd = [ascii ''mk'', p]" "tree_add 2 p L = Some L'" "files L < 8"
    | p w where "blank_words cmd = [ascii ''write'', p, w]" "cmd = write_line p w" "length w < 1000" "tree_has 2 p L" "L' = L"
proof (cases "blank_words cmd")
  case Nil
  then show thesis using assms by (simp add: tree_line_def)
next
  case c: (Cons c ps)
  show thesis
  proof (cases ps)
    case Nil
    then show thesis using assms c by (simp add: tree_line_def)
  next
    case p: (Cons p ws)
    show thesis
    proof (cases ws)
      case Nil
      then have e: "tree_line cmd L = (if c = ascii ''mkdir'' then tree_add 3 p L
          else if c = ascii ''mk'' \<and> files L < 8 then tree_add 2 p L else None)" using c p by (simp add: tree_line_def)
      show thesis
      proof (cases "c = ascii ''mkdir''")
        case True
        then show thesis using e assms c p Nil by (intro that(1)) simp_all
      next
        case False
        then have "c = ascii ''mk'' \<and> files L < 8" using e assms by (metis option.distinct(1))
        then show thesis using False e assms c p Nil by (intro that(2)) simp_all
      qed
    next
      case w: (Cons w vs)
      have "vs = []" using assms c p w by (cases vs) (simp_all add: tree_line_def)
      then have e: "tree_line cmd L = (if c = ascii ''write'' \<and> cmd = write_line p w \<and> length w < 1000 \<and> tree_has 2 p L
          then Some L else None)" using c p w by (simp add: tree_line_def)
      then have "c = ascii ''write'' \<and> cmd = write_line p w \<and> length w < 1000 \<and> tree_has 2 p L" "L' = L"
        using assms by (metis option.distinct(1), metis option.distinct(1) option.inject)
      then show thesis using c p w \<open>vs = []\<close> by (intro that(3)[of p w]; elim conjE; simp)
    qed
  qed
qed

lemma tree_line_runs:
  assumes "ata M = disk_ops junk" "holds L k" "is_cstring cmd" "tree_line cmd L = Some L'"
  shows "\<exists>k'. shell_command M (Suc n) cmd k = Some (0, k') \<and> holds L' k'"
  using assms(4)
proof (cases rule: tree_line_cases)
  case (1 p)
  then show ?thesis by (rule step_mkdir[OF assms(1-3)])
next
  case (2 p)
  then show ?thesis by (rule step_mk[OF assms(1-3)])
next
  case (3 p w)
  have p: "p \<noteq> [] \<and> 32 \<notin> set p" "w \<noteq> [] \<and> 32 \<notin> set w" using blank_word[of _ cmd] 3(1) by simp_all
  have "is_cstring w" using words_cstring[OF assms(3)] 3(1) by simp
  then show ?thesis using step_write[OF assms(1,2) 3(4), of w n] p 3(2,3,5) by blast
qed

section \<open>The script\<close>

text \<open>The shell on a machine with this drive follows the tree.\<close>

interpretation tree: command_model "shell_command (M\<lparr>ata := disk_ops junk\<rparr>) (Suc n)" tree_line holds
proof
  fix L k c L'
  assume "holds L k" "is_cstring c" "tree_line c L = Some L'"
  then show "\<exists>r k'. shell_command (M\<lparr>ata := disk_ops junk\<rparr>) (Suc n) c k = Some (r, k') \<and> holds L' k'"
    using tree_line_runs[of "M\<lparr>ata := disk_ops junk\<rparr>" junk L k c L' n] by auto
qed

lemma machine_eq: "ata M = disk_ops junk \<Longrightarrow> M\<lparr>ata := disk_ops junk\<rparr> = M"
  by (cases M) simp

lemma script_runs:
  assumes "ata M = disk_ops junk" "holds L k" "list_all (\<lambda>c. CHR 0x00 \<notin> set c) cs" "steps tree_line (map ascii cs) L = Some L'"
  shows "\<exists>k'. shell_commands M (Suc n) cs k = Some k' \<and> holds L' k'"
  using tree.run_all_simulates[where M = M and junk = junk and n = n, OF assms(2) _ assms(4)] assms(1,3)
  by (simp add: machine_eq shell_commands_run_all list_all_iff)

text \<open>\<open>rand i\<close> writes the next random number to \<open>/var/rand\<close>.\<close>

lemma rand_line: "is_cstring (ascii ''rand i'')" "blank_words (ascii ''rand i'') = [ascii ''rand'', ascii ''i'']"
  "fs_strcmp (ascii ''i'') (ascii ''o'') 1 = 0" "is_valid_number (ascii ''i'') = 0" "length (ascii ''write /var/rand '') = 16"
  "ascii ''/var/rand'' \<noteq> []" "32 \<notin> set (ascii ''/var/rand'')" "is_cstring (ascii ''write /var/rand '')"
  by code_simp+

lemma rand_write: "ascii ''write /var/rand '' @ w = write_line (ascii ''/var/rand'') w"
  by (simp add: write_line_def ascii_def)

lemma rand_runs:
  assumes "ata M = disk_ops junk" "holds L k" "tree_has 2 (ascii ''/var/rand'') L"
  shows "\<exists>k'. shell_command M (Suc (Suc n)) (ascii ''rand i'') k = Some (0, k') \<and> holds L k'"
proof -
  let ?k = "started (ascii ''rand i'') k" and ?r = "simple_rand (rng_state k)"
  let ?num = "decimal (unat ?r)"
  have ok: "concat_ok (concats k)" "length (u64_str k) = 21" using assms(2) by (simp_all add: holds_def)
  obtain str where str: "u64_to_str ?r (u64_str k) (k_local M 21 (?k\<lparr>rng_state := ?r\<rparr>)) = Some str" "length str = 21" "cstr_of str = ?num"
    using u64_to_str_decimal[OF ok(2), of "k_local M 21 (?k\<lparr>rng_state := ?r\<rparr>)" ?r] by (auto simp: k_local_def)
  have len: "length (ascii ''write /var/rand '') + length ?num < 1024" using length_decimal_u64[of ?r] rand_line(5) by simp
  obtain st where st: "str_concat (ascii ''write /var/rand '') ?num (concats k) = Some (cslot (concats k), st)" "concat_ok st"
    "cstr_of (cdst st ! cslot (concats k)) = ascii ''write /var/rand '' @ ?num"
    using str_concat_result[OF ok(1) rand_line(8) _ len] by auto
  have slot: "cslot (concats k) < length (cdst st)" using st(2) ok(1) by (simp add: concat_ok_def)
  define k1 where "k1 = ?k\<lparr>rng_state := ?r, u64_str := str, concats := st\<rparr>"
  have h1: "holds L k1" using assms(2) st(2) str(2) by (simp add: holds_def k1_def)
  have num: "?num \<noteq> []" "32 \<notin> set ?num" "is_cstring ?num" "length ?num < 1000"
    using decimal_nonempty decimal_digits[of "unat ?r"] length_decimal_u64[of ?r] by (auto simp: list_all_iff)
  obtain k2 where k2: "shell_command M (Suc n) (write_line (ascii ''/var/rand'') ?num) k1 = Some (0, k2)" "holds L k2"
    using step_write[OF assms(1) h1 assms(3) rand_line(6,7) num] by blast
  have "enter M (Suc (Suc n)) (ascii ''rand i'') k = cmd_rand M (shell_command_with (enter M (Suc n))) (parse_command (ascii ''rand i'')) ?k"
    by (rule dispatch(7)[OF rand_line(1,2)]) simp_all
  also have "\<dots> = Some (0, k2)"
    unfolding cmd_rand_def two_words(1)[OF rand_line(1,2)]
    using str st slot k2(1) rand_line(3,4) by (simp add: k_u64_def k_concat_def rand_write k1_def shell_command_def)
  finally show ?thesis using quiet_command k2(2) by blast
qed

section \<open>The first start\<close>

text \<open>The tree of a new disk, the newest name first: seven directories and five files.\<close>

definition boot_tree :: tree where
  "boot_tree =
    [((2, ascii ''rand_2''), (12, 2)), ((2, ascii ''rand''), (11, 2)), ((5, ascii ''input_c''), (10, 2)), ((3, ascii ''shell''), (9, 2)),
     ((4, ascii ''value1''), (8, 2)), ((1, ascii ''jad''), (7, 3)), ((3, ascii ''for''), (6, 3)), ((0, ascii ''input''), (5, 3)),
     ((0, ascii ''tmp''), (4, 3)), ((0, ascii ''proc''), (3, 3)), ((0, ascii ''var''), (2, 3)), ((0, ascii ''home''), (1, 3))]"

definition tree_script :: "string list" where
  "tree_script = [''mkdir /home'', ''mkdir /var'', ''mkdir /proc'', ''mkdir /tmp'', ''mkdir /input'', ''mkdir /proc/for'',
      ''mkdir /home/jad'',
      ''mk /tmp/value1'', ''write /tmp/value1 1'', ''mk /proc/shell'', ''mk /input/input_c'', ''mk /var/rand'', ''mk /var/rand_2'',
      ''write /proc/shell 1'']"

lemma script_part1: "steps tree_line (map ascii (take 4 tree_script)) [] = Some (drop 8 boot_tree)"
  by code_simp

lemma script_part2: "steps tree_line (map ascii (take 3 (drop 4 tree_script))) (drop 8 boot_tree) = Some (drop 5 boot_tree)"
  by code_simp

lemma script_part3: "steps tree_line (map ascii (take 3 (drop 7 tree_script))) (drop 5 boot_tree) = Some (drop 3 boot_tree)"
  by code_simp

lemma script_part4: "steps tree_line (map ascii (drop 10 tree_script)) (drop 3 boot_tree) = Some boot_tree"
  by code_simp

lemmas script_parts = script_part1 script_part2 script_part3 script_part4

lemma script_tree: "steps tree_line (map ascii tree_script) [] = Some boot_tree"
proof -
  have "tree_script = take 4 tree_script @ take 3 (drop 4 tree_script) @ take 3 (drop 7 tree_script) @ drop 10 tree_script"
    by (simp add: tree_script_def)
  then have "map ascii tree_script = map ascii (take 4 tree_script) @ map ascii (take 3 (drop 4 tree_script)) @
      map ascii (take 3 (drop 7 tree_script)) @ map ascii (drop 10 tree_script)"
    by (metis map_append)
  then show ?thesis by (simp only: steps_append script_parts bind.bind_lunit)
qed

lemma script_text: "list_all (\<lambda>c. CHR 0x00 \<notin> set c) tree_script" "tree_has 2 (ascii ''/var/rand'') boot_tree"
  by code_simp+

lemma make_the_tree_lines: "make_the_tree M n k = do { k \<leftarrow> shell_commands M n tree_script k; shell_commands M n [''rand i''] k }"
  unfolding make_the_tree_def shell_commands_run_all run_all_append[symmetric] tree_script_def by (simp only: append.simps list.map)

lemma empty_holds:
  assumes "empty_volume drive_ok dsectors dcap (kfs k)" "current_dir_id k = 0" "unat (start_storage (kfs k)) + 64 \<le> dcap (dsk (kfs k))"
    and "concat_ok (concats k)" "length (u64_str k) = 21"
  shows "holds [] k"
proof -
  have e: "volume (kfs k)" "vtable (kfs k) = replicate 1024 zero_entry" "\<forall>f < frame_bound (kfs k). \<not> vbit (kfs k) f"
    using assms(1) by (simp_all add: empty_volume_def)
  have "vlast (kfs k) = max_id (vtable (kfs k))" using e(1) by (simp add: volume_ok_def)
  then show ?thesis
    using e assms(2-5) empty_table by (simp add: holds_def holds_tree_def files_def)
qed

text \<open>C1. The first start of the kernel on a drive without a valid superblock: \<open>fs_init\<close> formats it and \<open>make_the_tree\<close>, a script of
  fifteen shell commands that go through the parser, the paths, the table, the allocator and the driver, returns with a well-formed
  volume that contains exactly the seven directories and five files of the boot tree, with their ids.\<close>

theorem first_boot:
  assumes "ata M = disk_ops junk" "drive_ok (dsk (kfs k))" "dbusy (dsk (kfs k)) = 0" "fs_idle (kfs k)"
    and "ident_total (dident (dsk (kfs k))) = sz" "layout_ok (dcap (dsk (kfs k))) (fs_compute_layout sz (kfs k))"
    and "\<not> superblock_ok (dsectors (dsk (kfs k)) 0) sz"
    and "unat (start_storage (fs_compute_layout sz (kfs k))) + 64 \<le> dcap (dsk (kfs k))"
    and "current_dir_id k = 0" "concat_ok (concats k)" "length (u64_str k) = 21"
  shows "\<exists>k1 k2. fs_call (fs_init (ata M)) k = Some (0, k1) \<and> make_the_tree M (Suc (Suc n)) k1 = Some k2 \<and> volume (kfs k2) \<and>
    dir_map (vtable (kfs k2)) = map_of boot_tree \<and> current_dir_id k2 = 0"
proof -
  obtain s where s: "fs_init (disk_ops junk) (kfs k) = Some (0, s)" "empty_volume drive_ok dsectors dcap s"
    "start_storage s = start_storage (fs_compute_layout sz (kfs k))" "dcap (dsk s) = dcap (dsk (kfs k))"
    by (rule init_formatted[OF assms(2-7)])
  have "holds [] (k\<lparr>kfs := s\<rparr>)" by (rule empty_holds) (use s assms(8-11) in simp_all)
  then obtain k1 where k1: "shell_commands M (Suc (Suc n)) tree_script (k\<lparr>kfs := s\<rparr>) = Some k1" "holds boot_tree k1"
    using script_runs[OF assms(1) _ script_text(1) script_tree] by blast
  obtain k2 where "shell_command M (Suc (Suc n)) (ascii ''rand i'') k1 = Some (0, k2)" "holds boot_tree k2"
    using rand_runs[OF assms(1) k1(2) script_text(2)] by blast
  then show ?thesis
    using s(1) k1(1) assms(1)
    by (intro exI[of _ "k\<lparr>kfs := s\<rparr>"] exI[of _ k2]) (simp add: fs_call_def make_the_tree_lines holds_def holds_tree_def)
qed

definition new_kernel :: "drive kernel" where
  "new_kernel = demo_kernel\<lparr>kfs := demo_layout (blank_drive 4000)\<rparr>"

lemma new_kernel_sel: "dsk (kfs new_kernel) = blank_drive 4000" "kfs new_kernel = demo_layout (blank_drive 4000)"
  "current_dir_id new_kernel = 0" "concat_ok (concats new_kernel)" "length (u64_str new_kernel) = 21"
  by (simp_all add: new_kernel_def demo_kernel_def demo_layout_def)

lemma new_drive: "ident_total (dident (blank_drive 4000)) = 4000" "dcap (blank_drive 4000) = 4000" "dbusy (blank_drive 4000) = 0"
    "\<not> superblock_ok (dsectors (blank_drive 4000) 0) 4000" "drive_ok (blank_drive 4000)"
    "layout_ok 4000 (fs_compute_layout 4000 (demo_layout (blank_drive 4000)))" "fs_idle (demo_layout (blank_drive 4000))"
    "unat (start_storage (fs_compute_layout 4000 (demo_layout (blank_drive 4000)))) + 64 \<le> 4000"
proof -
  show "\<not> superblock_ok (dsectors (blank_drive 4000) 0) 4000"
    by (simp add: superblock_ok_def sb_magic_ok_def blank_drive_def sb_magic_def ascii_def upt_rec)
qed (use ident_total_blank blank_drive_ok[of 4000] in \<open>simp_all add: blank_drive_def layout_ok_def fs_compute_layout_def demo_layout_def fs_idle_def Let_def\<close>)

theorem first_boot_witness:
  "\<exists>k1 k2. fs_call (fs_init (ata demo_machine)) new_kernel = Some (0, k1) \<and> make_the_tree demo_machine 2 k1 = Some k2 \<and>
    dir_map (vtable (kfs k2)) (1, ascii ''jad'') = Some (7, 3)"
proof -
  obtain k1 k2 where k: "fs_call (fs_init (ata demo_machine)) new_kernel = Some (0, k1)" "make_the_tree demo_machine (Suc (Suc 0)) k1 = Some k2"
    "dir_map (vtable (kfs k2)) = map_of boot_tree"
    using first_boot[OF demo_machine_sel(1), of new_kernel 4000 0] new_drive new_kernel_sel by auto
  have "map_of boot_tree (1, ascii ''jad'') = Some (7, 3)" by code_simp
  then show ?thesis using k by (intro exI[of _ k1] exI[of _ k2]) (simp add: numeral_2_eq_2)
qed

text \<open>C19. A script file that only makes directories, makes files and writes words runs to its end under \<open>sh\<close>, and the volume it leaves
  holds exactly the tree that the abstract file system computes from its lines.\<close>

theorem script_builds_tree:
  assumes "ata M = disk_ops junk" "holds L k" "is_cstring s" "length s < 1024" "steps tree_line (script_lines s) L = Some L'"
  shows "\<exists>k'. sh_lines (shell_command M (Suc n)) (s @ 0 # rest) [] k = Some k' \<and> volume (kfs k') \<and>
    dir_map (vtable (kfs k')) = map_of L'"
  using tree.script_simulates[where M = M and junk = junk and n = n, OF assms(2-5), of rest] machine_eq[OF assms(1)]
  by (auto simp: holds_def holds_tree_def)

definition mounted_kernel :: "drive fs \<Rightarrow> drive kernel" where
  "mounted_kernel s = demo_kernel\<lparr>kfs := s\<rparr>"

lemma demo_script: "is_cstring (ascii ''mkdir /a'' @ 10 # ascii ''mkdir /a/b'')" "length (ascii ''mkdir /a'' @ 10 # ascii ''mkdir /a/b'') < 1024"
  "steps tree_line (script_lines (ascii ''mkdir /a'' @ 10 # ascii ''mkdir /a/b'')) [] = Some [((1, [98]), (2, 3)), ((0, [97]), (1, 3))]"
  by code_simp+

theorem script_builds_tree_witness:
  "\<exists>s k'. fs_init (disk_ops no_junk) (demo_layout (blank_drive 4000)) = Some (0, s) \<and>
    sh_lines (shell_command demo_machine 1) ((ascii ''mkdir /a'' @ 10 # ascii ''mkdir /a/b'') @ [0]) [] (mounted_kernel s) = Some k' \<and>
    dir_map (vtable (kfs k')) (1, [98]) = Some (2, 3)"
proof -
  let ?d = "demo_layout (blank_drive 4000)"
  have d: "dsk ?d = blank_drive 4000" by (simp add: demo_layout_def)
  obtain s where s: "fs_init (disk_ops no_junk) ?d = Some (0, s)" "empty_volume drive_ok dsectors dcap s"
    "start_storage s = start_storage (fs_compute_layout 4000 ?d)" "dcap (dsk s) = dcap (dsk ?d)"
    by (rule init_formatted[of ?d 4000 no_junk]) (use new_drive d in simp_all)
  have "holds [] (mounted_kernel s)"
    by (rule empty_holds) (use s new_drive(2,8) d in \<open>simp_all add: mounted_kernel_def demo_kernel_def\<close>)
  then obtain k' where k': "sh_lines (shell_command demo_machine (Suc 0)) ((ascii ''mkdir /a'' @ 10 # ascii ''mkdir /a/b'') @ 0 # []) []
      (mounted_kernel s) = Some k'" "dir_map (vtable (kfs k')) = map_of [((1, [98]), (2, 3)), ((0, [97]), (1, 3))]"
    using script_builds_tree[OF demo_machine_sel(1) _ demo_script, of "mounted_kernel s" 0 "[]"] by blast
  then show ?thesis using s(1) by (intro exI[of _ s] exI[of _ k']) simp
qed

end
