(* ===== verification/Spec2Isabelle.thy ===== *)
theory Spec2Isabelle
  imports AtaProtocol SchedProps Boot
begin

text \<open>
  A verification library of the kernel in \<open>src/kernel/src\<close>: an x86-64 kernel, started by the Limine boot loader, with an ATA driver,
  a file system, a physical frame allocator, a keyboard, a text screen, a preemptive scheduler and a shell.

  \<^bold>\<open>The program.\<close> \<open>kmain\<close> (\<open>main.c\<close>) sets up the descriptor tables and interrupt controllers, the frame allocator, the
  file system and the screen, runs two scripts of shell commands, creates the tasks of the shell and of a counter and jumps to the
  first. The timer interrupt calls \<open>schedule\<close>, the keyboard interrupt \<open>click_on_keybord\<close>, whose ring buffer the shell task reads.
  The shell collects a line and calls \<open>enter\<close>, which splits it into words and runs one of its commands; most of these go through
  \<open>path_to_abs\<close> and \<open>path_resolve\<close> to a function of \<open>fs.c\<close>, and this one through \<open>ata_sector_read\<close> and \<open>ata_sector_write\<close> to
  the drive. Some commands (\<open>sh\<close>, \<open>for\<close>, \<open>fi\<close>, \<open>else\<close>, \<open>rand\<close>) run other commands.

  \<^bold>\<open>How C is modelled.\<close> A C integer is a word of its width; a struct is a record; the global variables of a file are a record that
  every function takes and returns; an array is a list that is only read and written through \<open>peek\<close> and \<open>poke\<close>, whose result
  \<open>None\<close> stands for an access outside the array, that is for undefined behaviour. A returned \<open>Some\<close> is thus also a proof that no
  array was overrun. A \<open>char *\<close> that is only read is the text up to its NUL (\<open>cstring\<close>); one that is written, or whose terminator
  matters, is the whole array (\<open>bytes\<close>). The content of an uninitialised local array is a parameter, arbitrary in every theorem.

  \<^bold>\<open>Theories.\<close>
  \<^item> \<open>KPrelude\<close>: types, checked access, bounded loops, copy loops, C strings, little-endian integers.
  \<^item> \<open>Fifo\<close> (the locale \<open>bounded_fifo\<close>), \<open>Keyboard\<close> (\<open>keyboard.c\<close>): the ring buffer refines a bounded queue for every
    interleaving of interrupts and reads, and loses keys only when 255 of them wait.
  \<^item> \<open>Ata\<close> (\<open>ata.c\<close>), \<open>AtaProtocol\<close>, \<open>AtaDrive\<close>, \<open>Disk\<close>: the driver over the four port instructions; what it does on the bus
    whatever the hardware answers, that it gives up after 100000 polls; a drive that follows the register protocol of programmed
    I/O (BSY and DRQ for any time within the polls, register writes ignored while BSY, data moved only while DRQ, one request per
    sector), on which a written sector is read back; the locale \<open>block_device\<close>, the laws that the file system relies on,
    interpreted as \<open>drv\<close> on the driver and this drive. The file system transfers one sector at a time, and only this is
    correct: \<open>ata_second_sector_lost\<close> shows what a read of two sectors returns.
  \<^item> \<open>CText\<close> (\<open>somthings.c\<close>, string helpers of \<open>main.c\<close>, \<open>debug.h\<close>): comparison, copying, decimal numbers and concatenation.
  \<^item> \<open>FsState\<close>, \<open>FsTable\<close>, \<open>FsPath\<close>, \<open>FsFile\<close>, \<open>FsSuper\<close> (\<open>fs.c\<close>): one definition per function, in the order of the source.
    \<open>FsTableLaws\<close>, \<open>FsTableOps\<close>, \<open>FsAlloc\<close> give the effect of each on the table, the bitmap and the last id; \<open>FsPathLaws\<close> and
    \<open>FsIdPath\<close> what the path functions compute; \<open>FsTree\<close> and \<open>FsVolume\<close> the abstract file system, a map from (directory, name) to
    (id, type) and the frames that every file owns, with the invariant \<open>volume\<close>; \<open>FsFileOps\<close>, \<open>FsData\<close>, \<open>FsFormat\<close> that the
    operations implement it; \<open>FsProps\<close> the properties on the drive.
  \<^item> \<open>Pmm\<close> (\<open>pmm.c\<close>): the bitmap allocator, with the locale \<open>frame_allocator\<close> for its clients.
  \<^item> \<open>Interrupts\<close> (\<open>pic.c\<close>, \<open>idt.c\<close>, \<open>gdt.c\<close>), \<open>Sched\<close>, \<open>SchedProps\<close> (\<open>pit.c\<close>, \<open>task.h\<close>, the tasks of \<open>main.c\<close>): vectors,
    descriptors, the scheduler and its invariant over every sequence of its operations, under which creation and deletion never
    leave the task table and a full table is left alone, round robin order and fairness.
  \<^item> \<open>Font\<close>, \<open>Console\<close>, \<open>ConsoleProps\<close> (\<open>font8x8_basic.h\<close>, the drawing functions of \<open>main.c\<close>): pixels, cursor, wrapping and
    scrolling; the framebuffer as a grid of cells, each with the glyph and the two colours it shows.
  \<^item> \<open>Kernel\<close>, \<open>Commands\<close>, \<open>Shell\<close> (\<open>main.c\<close>): the state of the kernel, one definition per branch of \<open>enter\<close>, the shell, the
    scripts, the bodies of the tasks and \<open>kmain\<close>. \<open>ShellText\<close> relates the parser, the scripts and the line editor to lists of words,
    lines and keys; \<open>ShellProps\<close> puts the commands on a volume; \<open>ShellRun\<close> follows a line from the keyboard to the disk and back to a new
    prompt; \<open>Scripts\<close> is the interface between scripts and commands (the locale \<open>command_model\<close>); \<open>Boot\<close> interprets it on the directory
    tree and runs the script of the first start on a freshly formatted drive.

  \<^bold>\<open>Bounds and fuel.\<close> \<open>enter\<close> takes a fuel that bounds how deep commands run commands; \<open>enter_fuel\<close> shows that a result does not
  depend on it. \<open>id_to_path\<close> makes at most 513 calls of itself: each stores into a row of its own of an array of 512 rows, so a deeper
  call would already have left the array. Loops that may not end (\<open>schedule\<close> with no active task, waiting for a key or for the
  timer, the shell) are \<open>partial_function\<close>s, and that they return is proved under the condition it needs. The polling loops of the driver
  recurse on the counter of the source. What the interrupts do while \<open>hlt\<close> waits is a parameter of the functions that wait.

  \<^bold>\<open>Hypotheses.\<close> The theorems on the file system are about a \<open>volume\<close>: a disk that answers, with a well-formed table and disjoint
  regions below the reach of the bitmap. \<open>fs_init_formats\<close> establishes it from an arbitrary disk and the operations keep it. A path must
  fit into the buffers of 1024 bytes, and the content theorems are about files of one region (\<open>one_region\<close>, \<open>file_data\<close>): chains of
  regions are modelled, but the pointers left in freed regions make them unsafe, as the findings say. Isolation is stated for sectors
  and for files of any number of regions: a write changes no sector outside the table and its own region, so every file whose chain
  (\<open>file_chain\<close>, \<open>all_frames\<close>) does not pass through that region keeps its chain and its sectors.

  \<^bold>\<open>Not modelled.\<close> The assembly of \<open>isr.asm\<close> and \<open>context_switch.asm\<close> and the instructions of \<open>io.h\<close> (entry points are
  addresses, ports a parameter); the declarations of \<open>memory.h\<close>, which has no definitions; the requests to the boot loader (their answers are
  parameters); the debug output of \<open>fs_init\<close> and \<open>fs_write_retry\<close>; \<open>get_table_entry\<close>, which is never called, and the
  statements after the \<open>return\<close> of \<open>sh\<close>. Interrupts between two statements of the C code are not modelled, except for the keyboard,
  whose two sides are interleaved, and at \<open>hlt\<close>.
\<close>

end
